(* ===== verification/Goldilocks_Prime.thy ===== *)
theory Goldilocks_Prime
  imports Main
begin

text \<open>
  The modulus \<open>p = 2 ^ 64 - 2 ^ 32 + 1\<close> of the base field of the Miden VM and the proof that it
  has no proper divisor.  The field itself is provided to the program by a package outside the
  repository; the documentation of the VM fixes the modulus, and every arithmetic property of the
  operations (inverses, cancellation, zero tests) rests on the modulus being prime.

  The argument is elementary: an element \<open>b\<close> with \<open>b ^ (2 ^ 31) = - 1\<close> modulo \<open>p\<close> has \<open>2 ^ 32\<close>
  different nonzero powers modulo every divisor \<open>q > 1\<close> of \<open>p\<close>, hence \<open>q > 2 ^ 32\<close>, and two
  such factors have a product larger than \<open>p\<close>.
\<close>

definition ORDER :: int where
  "ORDER = 18446744069414584321"

primrec iter_sq :: "nat \<Rightarrow> int \<Rightarrow> int" where
  "iter_sq 0 x = x"
| "iter_sq (Suc k) x = iter_sq k (x * x mod 18446744069414584321)"

definition sub_gen :: int where
  "sub_gen = 1753635133440165772"

lemma iter_sq_31: "iter_sq 31 1753635133440165772 = 18446744069414584320"
  by code_simp

lemma iter_sq_power: "iter_sq k x mod ORDER = x ^ (2 ^ k) mod ORDER"
proof (induction k arbitrary: x)
  case (Suc k)
  have "iter_sq (Suc k) x mod ORDER = (x * x mod ORDER) ^ (2 ^ k) mod ORDER"
    using Suc [of "x * x mod ORDER"] by (simp add: ORDER_def)
  also have "\<dots> = (x * x) ^ (2 ^ k) mod ORDER"
    by (simp add: power_mod)
  also have "(x * x) ^ (2 ^ k) = x ^ (2 ^ Suc k)"
    by (simp add: power_mult_distrib mult_2 flip: power_add)
  finally show ?case .
qed simp

text \<open>An element whose \<open>2 ^ 31\<close>-th power is \<open>- 1\<close> modulo the modulus.\<close>

lemma sub_root: "sub_gen ^ (2 ^ 31) mod ORDER = (- 1) mod ORDER"
proof -
  have "sub_gen ^ (2 ^ 31) mod ORDER = iter_sq 31 sub_gen mod ORDER"
    by (rule iter_sq_power [symmetric])
  also have "iter_sq 31 sub_gen mod ORDER = (- 1) mod ORDER"
    unfolding sub_gen_def iter_sq_31 by (simp add: ORDER_def)
  finally show ?thesis .
qed

lemma odd_part: "0 < (d::nat) \<Longrightarrow> d < 2 ^ n \<Longrightarrow> \<exists>t m. t < n \<and> odd m \<and> d = 2 ^ t * m"
proof (induction n arbitrary: d)
  case (Suc n)
  show ?case
  proof (cases "odd d")
    case True
    then show ?thesis by (intro exI [of _ 0] exI [of _ d]) simp
  next
    case False
    then obtain e where e: "d = 2 * e" by (auto elim: evenE)
    with Suc.prems have "0 < e" "e < 2 ^ n" by auto
    with Suc.IH obtain t m where "t < n" "odd m" "e = 2 ^ t * m" by blast
    with e show ?thesis by (intro exI [of _ "Suc t"] exI [of _ m]) simp
  qed
qed simp

lemma pow_not_one:
  fixes b q :: int
  assumes root: "b ^ (2 ^ n) mod q = (- 1) mod q" and q: "2 < q"
    and d: "0 < d" "d < 2 ^ Suc n"
  shows "b ^ d mod q \<noteq> 1 mod q"
proof
  assume one: "b ^ d mod q = 1 mod q"
  obtain t m where t: "t < Suc n" "odd m" "d = 2 ^ t * m"
    using odd_part [OF d] by blast
  have eq: "(b ^ d) ^ (2 ^ (n - t)) = (b ^ (2 ^ n)) ^ m"
    using t by (simp add: mult_ac flip: power_mult power_add)
  have "(b ^ d) ^ (2 ^ (n - t)) mod q = 1 mod q"
    using one by (metis power_mod power_one)
  moreover have "(b ^ (2 ^ n)) ^ m mod q = (- 1) ^ m mod q"
    using root by (metis power_mod)
  ultimately have "(- 1) mod q = 1 mod q"
    using eq t(2) by simp
  then have "q dvd 2"
    by (metis (no_types) mod_eq_dvd_iff dvd_minus_iff one_add_one minus_diff_eq diff_minus_eq_add)
  with q show False
    by (auto dest: zdvd_imp_le)
qed

lemma pow_inj_mod:
  fixes b q :: int
  assumes root: "b ^ (2 ^ n) mod q = (- 1) mod q" and q: "2 < q"
    and ij: "i < j" "j < 2 ^ Suc n"
  shows "b ^ i mod q \<noteq> b ^ j mod q"
proof
  assume eq: "b ^ i mod q = b ^ j mod q"
  define N :: nat where "N = 2 ^ Suc n"
  have "b ^ N = (b ^ (2 ^ n)) ^ 2" by (simp add: N_def mult.commute flip: power_mult)
  then have N1: "b ^ N mod q = 1 mod q"
    using root by (metis power_mod power2_minus power_one)
  have "b ^ (N - i) * b ^ i mod q = b ^ (N - i) * b ^ j mod q"
    using eq by (metis mod_mult_right_eq)
  moreover have "b ^ (N - i) * b ^ i = b ^ N" "b ^ (N - i) * b ^ j = b ^ N * b ^ (j - i)"
    using ij by (auto simp: N_def simp flip: power_add)
  ultimately have "1 mod q = b ^ (j - i) mod q"
    using N1 by (metis mod_mult_left_eq mult_1)
  moreover have "0 < j - i" "j - i < 2 ^ Suc n" using ij by linarith+
  ultimately show False using pow_not_one [OF root q, of "j - i"] by metis
qed

lemma root_divisor_large:
  fixes b q :: int
  assumes root: "b ^ (2 ^ n) mod q = (- 1) mod q" and q: "2 < q"
  shows "2 ^ Suc n < q"
proof -
  let ?f = "\<lambda>i. b ^ i mod q"
  have inj: "inj_on ?f {..<2 ^ Suc n}"
    by (rule inj_onI) (metis lessThan_iff linorder_neqE_nat pow_inj_mod [OF root q])
  have nz: "?f i \<noteq> 0" for i
  proof
    assume "?f i = 0"
    then have "b ^ (i * 2 ^ n) mod q = 0"
      using power_mod [of "b ^ i" q "2 ^ n"] by (simp add: power_mult power_0_left)
    moreover have "b ^ (i * 2 ^ n) mod q = (- 1) ^ i mod q"
      using root by (metis power_mod power_mult mult.commute)
    ultimately have "q dvd (- 1) ^ i" by auto
    then have "q dvd 1" by (cases "even i") auto
    with q show False by auto
  qed
  have "?f i \<in> {1..<q}" for i
    unfolding atLeastLessThan_iff
    using nz [of i] q pos_mod_sign [of q "b ^ i"] pos_mod_bound [of q "b ^ i"] by linarith
  then have "?f ` {..<2 ^ Suc n} \<subseteq> {1..<q}" by blast
  then have "card {..<2 ^ Suc n :: nat} \<le> card {1..<q}"
    by (intro card_inj_on_le [OF inj]) auto
  then show ?thesis using q by (simp add: nat_le_iff le_nat_iff)
qed

lemma divisor_ORDER_large:
  assumes "q dvd ORDER" "1 < q"
  shows "2 ^ 32 < q"
proof -
  have "q \<noteq> 2" using assms(1) by (auto simp: ORDER_def)
  then have q: "2 < q" using assms(2) by linarith
  have "sub_gen ^ (2 ^ 31) mod q = (- 1) mod q"
    using sub_root assms(1) by (metis mod_mod_cancel)
  from root_divisor_large [OF this q] show ?thesis by simp
qed

lemma ORDER_no_divisor:
  assumes "q dvd ORDER" "0 < q"
  shows "q = 1 \<or> q = ORDER"
proof (rule ccontr)
  assume neg: "\<not> ?thesis"
  from assms(1) obtain r where r: "ORDER = q * r" by (elim dvdE)
  with assms(2) have "0 < r" by (metis ORDER_def zero_less_mult_pos zero_less_numeral)
  moreover have "r \<noteq> 1" using r neg by auto
  moreover have "r dvd ORDER" by (simp add: r)
  ultimately have "2 ^ 32 < r" by (intro divisor_ORDER_large) auto
  moreover have "2 ^ 32 < q" using assms neg by (intro divisor_ORDER_large) auto
  ultimately have "(2 ^ 32 + 1) * (2 ^ 32 + 1) \<le> q * r"
    by (intro mult_mono) auto
  then show False using r by (simp add: ORDER_def)
qed

lemma ORDER_dvd_mult:
  assumes "ORDER dvd a * b"
  shows "ORDER dvd a \<or> ORDER dvd b"
proof -
  have "gcd ORDER a = 1 \<or> gcd ORDER a = ORDER"
    by (rule ORDER_no_divisor) (auto simp: ORDER_def)
  then show ?thesis
    using assms by (metis coprime_dvd_mult_right_iff coprime_iff_gcd_eq_1 gcd_dvd2)
qed
end
