(* ===== verification/Felt.thy ===== *)
theory Felt
  imports Goldilocks_Prime "HOL-Library.Word"
begin

text \<open>
  The base field \<open>felt\<close> of the VM: integers modulo \<open>ORDER = 2 ^ 64 - 2 ^ 32 + 1\<close> as a type with
  the instances \<open>field\<close> and \<open>equal\<close>, the conversions the processor uses
  (\<open>as_canonical_u64\<close>, \<open>Felt::from_u32\<close>, \<open>Felt::new_unchecked\<close>), four-element words and the
  quadratic extension \<open>x ^ 2 = 7\<close>.  Numerals of type \<open>felt\<close> are evaluated by \<open>simp\<close> with the rules
  \<open>felt_eval\<close>.
\<close>

section \<open>The base field\<close>

typedef felt = "{0..<ORDER}"
  by (rule exI [of _ 0]) (simp add: ORDER_def)

setup_lifting type_definition_felt

lemma ORDER_pos [simp]: "0 < ORDER"
  by (simp add: ORDER_def)

instantiation felt :: comm_ring_1
begin

lift_definition zero_felt :: felt is 0 by simp
lift_definition one_felt :: felt is 1 by (simp add: ORDER_def)
lift_definition plus_felt :: "felt \<Rightarrow> felt \<Rightarrow> felt" is "\<lambda>a b. (a + b) mod ORDER" by simp
lift_definition uminus_felt :: "felt \<Rightarrow> felt" is "\<lambda>a. (- a) mod ORDER" by simp
lift_definition minus_felt :: "felt \<Rightarrow> felt \<Rightarrow> felt" is "\<lambda>a b. (a - b) mod ORDER" by simp
lift_definition times_felt :: "felt \<Rightarrow> felt \<Rightarrow> felt" is "\<lambda>a b. (a * b) mod ORDER" by simp

instance
proof
  fix a b c :: felt
  show "a + b + c = a + (b + c)" by transfer (simp add: mod_simps add.assoc)
  show "a + b = b + a" by transfer (simp add: add.commute)
  show "0 + a = a" by transfer simp
  show "- a + a = 0" by transfer (simp add: mod_simps)
  show "a - b = a + - b" by transfer (simp add: mod_simps)
  show "a * b * c = a * (b * c)" by transfer (simp add: mod_simps mult.assoc)
  show "a * b = b * a" by transfer (simp add: mult.commute)
  show "1 * a = a" by transfer simp
  show "(a + b) * c = a * c + b * c" by transfer (simp add: mod_simps distrib_right)
  show "(0::felt) \<noteq> 1" by transfer simp
qed

end

instantiation felt :: equal
begin

lift_definition equal_felt :: "felt \<Rightarrow> felt \<Rightarrow> bool" is "(=)" .

instance
  by standard (transfer, rule refl)

end

lemma felt_mult_eq_0: "(a::felt) * b = 0 \<Longrightarrow> a = 0 \<or> b = 0"
proof transfer
  fix a b :: int
  assume a: "a \<in> {0..<ORDER}" and b: "b \<in> {0..<ORDER}" and "a * b mod ORDER = 0"
  then have "ORDER dvd a \<or> ORDER dvd b" by (intro ORDER_dvd_mult) auto
  with a b show "a = 0 \<or> b = 0" by (auto dest: zdvd_imp_le simp: le_less)
qed

instance felt :: idom
  by standard (use felt_mult_eq_0 in blast)

lemma Rep_felt_bounds [simp]: "0 \<le> Rep_felt x" "Rep_felt x < ORDER"
  using Rep_felt [of x] by auto

lemma finite_felt [simp]: "finite (A :: felt set)"
proof -
  have "inj Rep_felt" by (simp add: inj_on_def Rep_felt_inject)
  moreover have "finite (range Rep_felt)"
    by (rule finite_subset [of _ "{0..<ORDER}"]) auto
  ultimately have "finite (UNIV :: felt set)" by (rule finite_imageD [rotated])
  then show ?thesis by (rule finite_subset [rotated]) simp
qed

lemma card_felt: "card (UNIV :: felt set) = nat ORDER"
proof -
  have "Rep_felt ` UNIV = {0..<ORDER}" by (rule type_definition.Rep_range [OF type_definition_felt])
  moreover have "inj Rep_felt" by (simp add: inj_on_def Rep_felt_inject)
  ultimately show ?thesis by (metis card_atLeastLessThan_int card_image diff_zero)
qed

text \<open>Every nonzero element has order dividing \<open>p - 1\<close>, so \<open>x ^ (p - 2)\<close> is its inverse.\<close>

lemma felt_fermat:
  assumes "(x::felt) \<noteq> 0"
  shows "x ^ (nat ORDER - 1) = 1"
proof -
  let ?U = "UNIV - {0 :: felt}"
  have bij: "bij_betw ((*) x) ?U ?U"
  proof (rule bij_betw_imageI)
    show inj: "inj_on ((*) x) ?U" using assms by (auto simp: inj_on_def)
    show "(*) x ` ?U = ?U"
      by (rule card_subset_eq) (use assms inj in \<open>auto simp: card_image\<close>)
  qed
  have "(\<Prod>y\<in>?U. y) = (\<Prod>y\<in>?U. x * y)"
    by (rule prod.reindex_bij_betw [OF bij, symmetric])
  also have "\<dots> = x ^ card ?U * (\<Prod>y\<in>?U. y)"
    by (simp add: prod.distrib)
  finally have "(x ^ card ?U - 1) * (\<Prod>y\<in>?U. y) = 0" by (simp add: algebra_simps)
  moreover have "(\<Prod>y\<in>?U. y) \<noteq> 0" by (simp add: prod_zero_iff)
  ultimately have "x ^ card ?U = 1" by simp
  moreover have "card ?U = nat ORDER - 1" by (simp add: card_felt card_Diff_singleton)
  ultimately show ?thesis by simp
qed

instantiation felt :: field
begin

definition inverse_felt :: "felt \<Rightarrow> felt" where
  "inverse_felt x = x ^ (nat ORDER - 2)"

definition divide_felt :: "felt \<Rightarrow> felt \<Rightarrow> felt" where
  "divide_felt x y = x * inverse y"

instance
proof
  fix a b :: felt
  show "a \<noteq> 0 \<Longrightarrow> inverse a * a = 1"
    using felt_fermat [of a]
    by (simp add: inverse_felt_def ORDER_def flip: power_Suc2)
  show "a div b = a * inverse b" by (rule divide_felt_def)
  show "inverse (0::felt) = 0" by (simp add: inverse_felt_def ORDER_def power_0_left)
qed

end

section \<open>Evaluation of numerals\<close>

lemma Rep_felt_of_int: "Rep_felt (of_int k) = k mod ORDER"
proof -
  have nat: "Rep_felt (of_nat n) = int n mod ORDER" for n
    by (induction n) (auto simp: zero_felt.rep_eq one_felt.rep_eq plus_felt.rep_eq mod_simps add.commute)
  show ?thesis
  proof (cases "0 \<le> k")
    case True
    then show ?thesis using nat [of "nat k"] by simp
  next
    case False
    then have "Rep_felt (of_int k) = Rep_felt (- of_nat (nat (- k)))" by simp
    with False show ?thesis
      by (simp only: uminus_felt.rep_eq nat mod_minus_eq) simp
  qed
qed

lemma felt_of_int_eq_iff: "(of_int a :: felt) = of_int b \<longleftrightarrow> a mod ORDER = b mod ORDER"
  by (metis Rep_felt_inject Rep_felt_of_int)

lemma of_int_Rep_felt [simp]: "of_int (Rep_felt x) = x"
  by (metis Rep_felt_bounds Rep_felt_inject Rep_felt_of_int mod_pos_pos_trivial)

lemma Rep_felt_numeral [simp]: "Rep_felt (numeral k) = numeral k mod 18446744069414584321"
  using Rep_felt_of_int [of "numeral k"] by (simp add: ORDER_def)

lemma Rep_felt_neg_numeral [simp]: "Rep_felt (- numeral k) = (- numeral k) mod 18446744069414584321"
  using Rep_felt_of_int [of "- numeral k"] by (simp add: ORDER_def)

lemma Rep_felt_0 [simp]: "Rep_felt 0 = 0"
  by (simp add: zero_felt.rep_eq)

lemma Rep_felt_1 [simp]: "Rep_felt 1 = 1"
  by (simp add: one_felt.rep_eq)

lemma Rep_felt_eq_0 [simp]: "Rep_felt x = 0 \<longleftrightarrow> x = 0"
  by (metis Rep_felt_0 Rep_felt_inject)

lemma felt_numeral_eq [simp]:
  "(numeral m :: felt) = numeral n \<longleftrightarrow>
     (numeral m :: int) mod 18446744069414584321 = numeral n mod 18446744069414584321"
  "(numeral m :: felt) = 0 \<longleftrightarrow> (numeral m :: int) mod 18446744069414584321 = 0"
  "0 = (numeral m :: felt) \<longleftrightarrow> (numeral m :: int) mod 18446744069414584321 = 0"
  "(numeral m :: felt) = 1 \<longleftrightarrow> (numeral m :: int) mod 18446744069414584321 = 1"
  "1 = (numeral m :: felt) \<longleftrightarrow> (numeral m :: int) mod 18446744069414584321 = 1"
  by (metis Rep_felt_inject Rep_felt_numeral Rep_felt_0 Rep_felt_1)+

section \<open>Conversions to and from machine integers\<close>

definition as_canonical_u64 :: "felt \<Rightarrow> 64 word" where
  "as_canonical_u64 x = word_of_int (Rep_felt x)"

definition felt_from_u64 :: "64 word \<Rightarrow> felt" where
  "felt_from_u64 w = of_int (uint w)"

definition felt_from_u32 :: "32 word \<Rightarrow> felt" where
  "felt_from_u32 w = of_int (uint w)"

definition felt_from_bool :: "bool \<Rightarrow> felt" where
  "felt_from_bool b = (if b then 1 else 0)"

lemma uint_as_canonical_u64 [simp]: "uint (as_canonical_u64 x) = Rep_felt x"
  using Rep_felt_bounds [of x]
  by (simp add: as_canonical_u64_def word_of_int_inverse uint_word_of_int take_bit_int_eq_self ORDER_def)

lemma as_canonical_u64_inject [simp]: "as_canonical_u64 x = as_canonical_u64 y \<longleftrightarrow> x = y"
  by (metis Rep_felt_inject uint_as_canonical_u64)

lemma as_canonical_u64_numeral [simp]:
  "as_canonical_u64 (numeral k) = word_of_int (numeral k mod 18446744069414584321)"
  "as_canonical_u64 0 = 0" "as_canonical_u64 1 = 1"
  by (simp_all add: as_canonical_u64_def)

lemma as_canonical_u64_eq [simp]:
  "as_canonical_u64 x = 0 \<longleftrightarrow> x = 0" "as_canonical_u64 x = 1 \<longleftrightarrow> x = 1"
  by (metis as_canonical_u64_inject as_canonical_u64_numeral(2,3))+

lemma felt_from_u64_canonical [simp]: "felt_from_u64 (as_canonical_u64 x) = x"
  by (simp add: felt_from_u64_def)

lemma as_canonical_u64_from_u64: "uint w < ORDER \<Longrightarrow> as_canonical_u64 (felt_from_u64 w) = w"
  by (simp add: word_uint_eq_iff felt_from_u64_def Rep_felt_of_int del: of_int_uint)

lemma Rep_felt_from_u64: "Rep_felt (felt_from_u64 w) = uint w mod ORDER"
  by (simp only: felt_from_u64_def Rep_felt_of_int)

lemma Rep_felt_from_u32 [simp]: "Rep_felt (felt_from_u32 w) = uint w"
  using uint_bounded [of w] by (simp add: felt_from_u32_def Rep_felt_of_int ORDER_def del: of_int_uint)

lemma felt_from_u32_inject [simp]: "felt_from_u32 v = felt_from_u32 w \<longleftrightarrow> v = w"
  by (metis Rep_felt_from_u32 word_uint_eq_iff)

lemma felt_from_bool_simps [simp]: "felt_from_bool True = 1" "felt_from_bool False = 0"
  by (simp_all add: felt_from_bool_def)

lemma felt_from_bool_eq [simp]:
  "felt_from_bool b = 0 \<longleftrightarrow> \<not> b" "felt_from_bool b = 1 \<longleftrightarrow> b"
  by (cases b, simp_all)+

section \<open>Words of four elements\<close>

text \<open>\<open>Word\<close> is an array of four field elements; \<open>word_nth\<close> is its indexing, which panics (here
  \<open>None\<close>) for an index above three.\<close>

datatype fword = FWord (w0: felt) (w1: felt) (w2: felt) (w3: felt)

definition EMPTY_WORD :: fword where
  "EMPTY_WORD = FWord 0 0 0 0"

definition word_elements :: "fword \<Rightarrow> felt list" where
  "word_elements w = [w0 w, w1 w, w2 w, w3 w]"

fun word_of_elements :: "felt list \<Rightarrow> fword option" where
  "word_of_elements [a, b, c, d] = Some (FWord a b c d)"
| "word_of_elements _ = None"

definition word_nth :: "fword \<Rightarrow> nat \<Rightarrow> felt" where
  "word_nth w i = word_elements w ! i"

definition word_update :: "fword \<Rightarrow> nat \<Rightarrow> felt \<Rightarrow> fword" where
  "word_update w i v = (case word_of_elements ((word_elements w)[i := v]) of Some w' \<Rightarrow> w' | None \<Rightarrow> w)"

lemma word_elements_simps [simp]: "word_elements (FWord a b c d) = [a, b, c, d]"
  by (simp add: word_elements_def)

lemma length_word_elements [simp]: "length (word_elements w) = 4"
  by (simp add: word_elements_def)

lemma word_of_elements_word_elements [simp]: "word_of_elements (word_elements w) = Some w"
  by (cases w) simp

lemma less_4_cases: "(i::nat) < 4 \<Longrightarrow> i = 0 \<or> i = 1 \<or> i = 2 \<or> i = 3"
  by linarith

lemma word_nth_update: "i < 4 \<Longrightarrow> word_nth (word_update w i v) j = (if i = j then v else word_nth w j)"
  by (cases w; drule less_4_cases) (auto simp: word_nth_def word_update_def numeral_2_eq_2 numeral_3_eq_3 nth_Cons split: nat.splits)

lemma word_nth_EMPTY [simp]: "i < 4 \<Longrightarrow> word_nth EMPTY_WORD i = 0"
  by (drule less_4_cases) (auto simp: word_nth_def EMPTY_WORD_def)

lemma fword_eqI: "(\<And>i. i < 4 \<Longrightarrow> word_nth v i = word_nth w i) \<Longrightarrow> v = w"
proof -
  assume "\<And>i. i < 4 \<Longrightarrow> word_nth v i = word_nth w i"
  then have "word_nth v 0 = word_nth w 0" "word_nth v 1 = word_nth w 1"
    "word_nth v 2 = word_nth w 2" "word_nth v 3 = word_nth w 3" by auto
  then show ?thesis
    by (cases v; cases w) (simp add: word_nth_def numeral_2_eq_2 numeral_3_eq_3)
qed

end
