(* ===== verification/Miden_Prelude.thy ===== *)
theory Miden_Prelude
  imports Felt "HOL-Library.Stream"
begin

text \<open>
  Shared vocabulary of the development: results of fallible code as sums (\<open>Inl\<close> the error) with
  their sequencing \<open>res_bind\<close>, the checked subtraction of \<open>usize\<close> values, and the zero-padded
  operand stack as a stream with positional update.  The collections \<open>op_defs\<close> (definitions of the
  operation handlers), \<open>isa_defs\<close> (definitions of the abstract machine) and \<open>lowering\<close>
  (definitions of instruction lowerings) are filled by the component theories.
\<close>

named_theorems op_defs "definitions of operation handlers"
named_theorems isa_defs "definitions of the abstract instruction set"
named_theorems lowering "definitions of instruction lowerings"

section \<open>Fallible computations\<close>

fun res_bind :: "'e + 'a \<Rightarrow> ('a \<Rightarrow> 'e + 'b) \<Rightarrow> 'e + 'b" where
  "res_bind (Inl e) f = Inl e"
| "res_bind (Inr x) f = f x"

definition res_map :: "('a \<Rightarrow> 'b) \<Rightarrow> 'e + 'a \<Rightarrow> 'e + 'b" where
  "res_map f m = res_bind m (\<lambda>x. Inr (f x))"

definition res_map_err :: "('e \<Rightarrow> 'f) \<Rightarrow> 'e + 'a \<Rightarrow> 'f + 'a" where
  "res_map_err f m = (case m of Inl e \<Rightarrow> Inl (f e) | Inr x \<Rightarrow> Inr x)"

definition ensure :: "bool \<Rightarrow> 'e \<Rightarrow> 'e + unit" where
  "ensure b e = (if b then Inr () else Inl e)"

definition ok_or :: "'a option \<Rightarrow> 'e \<Rightarrow> 'e + 'a" where
  "ok_or m e = (case m of None \<Rightarrow> Inl e | Some x \<Rightarrow> Inr x)"

definition is_ok :: "'e + 'a \<Rightarrow> bool" where
  "is_ok m = (case m of Inl _ \<Rightarrow> False | Inr _ \<Rightarrow> True)"

lemma res_map_simps [simp]: "res_map f (Inl e) = Inl e" "res_map f (Inr x) = Inr (f x)"
  by (simp_all add: res_map_def)

lemma res_map_err_simps [simp]: "res_map_err f (Inl e) = Inl (f e)" "res_map_err f (Inr x) = Inr x"
  by (simp_all add: res_map_err_def)

lemma ensure_simps [simp]: "ensure True e = Inr ()" "ensure False e = Inl e"
  by (simp_all add: ensure_def)

lemma ok_or_simps [simp]: "ok_or None e = Inl e" "ok_or (Some x) e = Inr x"
  by (simp_all add: ok_or_def)

lemma is_ok_simps [simp]: "is_ok (Inl e) = False" "is_ok (Inr x) = True"
  by (simp_all add: is_ok_def)

lemma res_bind_Inr_right [simp]: "res_bind m Inr = m"
  by (cases m) simp_all

lemma res_bind_assoc: "res_bind (res_bind m f) g = res_bind m (\<lambda>x. res_bind (f x) g)"
  by (cases m) simp_all

lemma res_bind_ensure: "res_bind (ensure b e) f = (if b then f () else Inl e)"
  by simp

lemma res_bind_if: "res_bind (if b then m else n) f = (if b then res_bind m f else res_bind n f)"
  by simp

lemma res_bind_eq_Inr: "res_bind m f = Inr y \<longleftrightarrow> (\<exists>x. m = Inr x \<and> f x = Inr y)"
  by (cases m) simp_all

lemma res_bind_eq_Inl: "res_bind m f = Inl e \<longleftrightarrow> m = Inl e \<or> (\<exists>x. m = Inr x \<and> f x = Inl e)"
  by (cases m) simp_all

lemma res_bind_cong [fundef_cong]:
  "m = m' \<Longrightarrow> (\<And>x. m' = Inr x \<Longrightarrow> f x = g x) \<Longrightarrow> res_bind m f = res_bind m' g"
  by (cases m') simp_all

lemma res_map_err_Inr: "res_map_err f m = Inr x \<Longrightarrow> m = Inr x"
  by (cases m) simp_all

lemma ok_or_Inr: "ok_or m e = Inr x \<Longrightarrow> m = Some x"
  by (cases m) simp_all

lemma res_bindE:
  assumes "res_bind m f = Inr y"
  obtains x where "m = Inr x" "f x = Inr y"
  using assms by (auto simp: res_bind_eq_Inr)

text \<open>A loop over a list whose body may fail.\<close>

primrec res_fold :: "('a \<Rightarrow> 's \<Rightarrow> 'e + 's) \<Rightarrow> 'a list \<Rightarrow> 's \<Rightarrow> 'e + 's" where
  "res_fold f [] s = Inr s"
| "res_fold f (x # xs) s = res_bind (f x s) (res_fold f xs)"

lemma res_fold_append: "res_fold f (xs @ ys) s = res_bind (res_fold f xs s) (res_fold f ys)"
proof (induction xs arbitrary: s)
  case (Cons x xs)
  then show ?case by (cases "f x s") simp_all
qed simp

lemma res_fold_total:
  "(\<And>x s. x \<in> set xs \<Longrightarrow> f x s = Inr (g x s)) \<Longrightarrow> res_fold f xs s = Inr (fold g xs s)"
  by (induction xs arbitrary: s) simp_all

section \<open>The operand stack as a stream\<close>

text \<open>The operand stack has at least sixteen elements and behaves as if zeros were stored below
  its bottom, so its contents is a stream that is zero from the depth on.\<close>

abbreviation zeros :: "felt stream" where
  "zeros \<equiv> sconst 0"

primrec supd :: "nat \<Rightarrow> 'a \<Rightarrow> 'a stream \<Rightarrow> 'a stream" where
  "supd 0 v s = v ## stl s"
| "supd (Suc n) v s = shd s ## supd n v (stl s)"

lemma snth_supd [simp]: "supd i v s !! j = (if i = j then v else s !! j)"
proof (induction i arbitrary: j s)
  case 0
  then show ?case by (cases j) auto
next
  case (Suc i)
  then show ?case by (cases j) auto
qed

lemma supd_numeral [simp]: "supd (numeral k) v s = shd s ## supd (pred_numeral k) v (stl s)"
  by (simp add: numeral_eq_Suc)

lemma supd_one [simp]: "supd 1 v s = shd s ## v ## stl (stl s)"
  by (simp add: One_nat_def del: One_nat_def [symmetric])

lemma snth_numeral [simp]: "s !! numeral k = stl s !! pred_numeral k"
  by (simp add: numeral_eq_Suc)

lemma snth_one [simp]: "s !! 1 = shd (stl s)"
  by (simp add: One_nat_def)

lemma stream_eq_iff: "s = t \<longleftrightarrow> (\<forall>i. s !! i = t !! i)"
proof
  assume "\<forall>i. s !! i = t !! i"
  then have "(!!) s = (!!) t" by auto
  then show "s = t" by (metis stream_smap_nats)
qed simp

lemma stream_eqI: "(\<And>i. s !! i = t !! i) \<Longrightarrow> s = t"
  by (simp add: stream_eq_iff)

definition to_stream :: "(nat \<Rightarrow> 'a) \<Rightarrow> 'a stream" where
  "to_stream f = smap f nats"

lemma snth_to_stream [simp]: "to_stream f !! i = f i"
  by (simp add: to_stream_def)

lemma supd_same [simp]: "supd i (s !! i) s = s"
  by (rule stream_eqI) simp

text \<open>Sixteen named elements at the top of a stack, for the operations that move words.\<close>

lemma stream_split_16:
  obtains a0 a1 a2 a3 a4 a5 a6 a7 a8 a9 a10 a11 a12 a13 a14 a15 t where
    "s = a0 ## a1 ## a2 ## a3 ## a4 ## a5 ## a6 ## a7 ## a8 ## a9 ## a10 ## a11 ## a12 ## a13 ## a14 ## a15 ## t"
  by (metis stream.exhaust)

end
