(* ===== verification/Vm_Errors.thy ===== *)
theory Vm_Errors
  imports Miden_Prelude
begin

text \<open>
  The error values of the VM (\<open>processor/src/errors.rs\<close>, \<open>processor/src/host/advice/errors.rs\<close>).
  Source spans and source files, which only decorate diagnostics, are left out; the wrapper enums
  \<open>IoError\<close> and \<open>CryptoError\<close> are resolved into the \<open>ExecutionError\<close> they are converted to at their
  call site.  A Rust panic is the value \<open>Panic\<close>.
\<close>

type_synonym ctx_id = "32 word"
type_synonym u32 = "32 word"
type_synonym u64 = "64 word"
type_synonym merkle_error = string

datatype memory_error =
    AddressOutOfBounds u64
  | IllegalMemoryAccess ctx_id u32 felt
  | InvalidMemoryRange u64 u64
  | UnalignedWordAccess u32 ctx_id
  | MemoryReadFailed string

datatype advice_error =
    MapKeyAlreadyPresent fword "felt list" "felt list"
  | MapKeyNotFound fword
  | StackReadFailed
  | StackSizeExceeded nat nat
  | AdvMapValueSizeExceeded nat nat
  | InvalidMerkleTreeDepth felt
  | InvalidMerkleTreeNodeIndex felt felt
  | MerkleStoreLookupFailed merkle_error
  | MerkleStoreMergeFailed merkle_error
  | MerkleStoreUpdateFailed merkle_error

datatype operation_error =
    CircularExternalNode fword
  | DivideByZero
  | FailedAssertion felt "string option"
  | U32AssertionFailed felt "string option" "felt list"
  | FriError string
  | InvalidMerklePathLength nat felt
  | InvalidStackDepthOnReturn nat
  | LogArgumentZero
  | MalformedMastForestInHost fword
  | MerklePathVerificationFailed fword felt fword felt "string option"
  | NotBinaryValue felt
  | NotBinaryValueIf felt
  | NotBinaryValueLoop felt
  | NotU32Values "felt list"
  | SyscallTargetNotInKernel fword
  | OpInternal string

datatype execution_error =
    AceChipError string
  | AdviceErr advice_error
  | CycleLimitExceeded u32
  | EventErr u64 string
  | Internal string
  | TraceLenExceeded nat
  | MemoryErr memory_error
  | MemoryErrorNoCtx memory_error
  | OperationErr operation_error
  | OutputStackOverflow nat
  | ProcedureNotFound fword
  | HostErr string
  | Panic string

type_synonym 'a res = "execution_error + 'a"

text \<open>The only error of \<open>increment_size\<close>.\<close>

abbreviation stack_overflow :: execution_error where
  "stack_overflow \<equiv> Internal ''stack overflow''"

text \<open>Arithmetic on \<open>usize\<close> as the processor uses it for indices: a subtraction below zero panics.\<close>

definition usize_sub :: "nat \<Rightarrow> nat \<Rightarrow> nat res" where
  "usize_sub a b = (if b \<le> a then Inr (a - b) else Inl (Panic ''attempt to subtract with overflow''))"

lemma usize_sub_ok [simp]: "b \<le> a \<Longrightarrow> usize_sub a b = Inr (a - b)"
  by (simp add: usize_sub_def)

end
