(* ===== verification/Memory.thy ===== *)
theory Memory
  imports Vm_Errors
begin

text \<open>
  The memory of the processor, \<open>processor/src/fast/memory.rs\<close>: a map from (context, word address) to
  words, with element and word accesses.  The locale \<open>element_memory\<close> states what the clients of a
  memory rely on, in terms of a flat array of elements per context that is initially zero; the map
  of words is shown to implement it, and the client lemmas (read after write, isolation of
  contexts and addresses, word accesses as four element accesses) are proved once from the
  contract.
\<close>

unbundle bit_operations_syntax

declare mod_0_imp_dvd [rule del]

type_synonym memory = "ctx_id \<times> u32 \<Rightarrow> fword option"

section \<open>Model\<close>

definition WORD_SIZE :: nat where
  "WORD_SIZE = 4"

definition memory_new :: memory where
  "memory_new = (\<lambda>_. None)"

definition clean_addr :: "felt \<Rightarrow> memory_error + u32" where
  "clean_addr addr = (let a = as_canonical_u64 addr in
     if a \<le> 0xFFFFFFFF then Inr (ucast a) else Inl (AddressOutOfBounds a))"

definition split_addr :: "u32 \<Rightarrow> u32 \<times> u32" where
  "split_addr addr = (let idx = addr mod of_nat WORD_SIZE in (addr - idx, idx))"

definition enforce_word_aligned_addr :: "ctx_id \<Rightarrow> u32 \<Rightarrow> memory_error + u32" where
  "enforce_word_aligned_addr c addr =
     (if addr mod of_nat WORD_SIZE \<noteq> 0 then Inl (UnalignedWordAccess addr c) else Inr addr)"

definition read_element_impl :: "memory \<Rightarrow> ctx_id \<Rightarrow> u32 \<Rightarrow> felt option" where
  "read_element_impl m c addr =
     (case split_addr addr of (word_addr, idx) \<Rightarrow>
        map_option (\<lambda>w. word_nth w (unat idx)) (m (c, word_addr)))"

definition read_word_impl :: "memory \<Rightarrow> ctx_id \<Rightarrow> u32 \<Rightarrow> memory_error + fword option" where
  "read_word_impl m c addr =
     res_bind (enforce_word_aligned_addr c addr) (\<lambda>addr. Inr (m (c, addr)))"

definition mem_read_element :: "memory \<Rightarrow> ctx_id \<Rightarrow> felt \<Rightarrow> memory_error + felt" where
  "mem_read_element m c addr =
     res_bind (clean_addr addr) (\<lambda>addr.
     Inr (case read_element_impl m c addr of Some v \<Rightarrow> v | None \<Rightarrow> 0))"

definition mem_read_word :: "memory \<Rightarrow> ctx_id \<Rightarrow> felt \<Rightarrow> memory_error + fword" where
  "mem_read_word m c addr =
     res_bind (clean_addr addr) (\<lambda>addr.
     res_bind (read_word_impl m c addr) (\<lambda>w.
     Inr (case w of Some w \<Rightarrow> w | None \<Rightarrow> EMPTY_WORD)))"

definition mem_write_element :: "memory \<Rightarrow> ctx_id \<Rightarrow> felt \<Rightarrow> felt \<Rightarrow> memory_error + memory" where
  "mem_write_element m c addr element =
     res_bind (clean_addr addr) (\<lambda>addr.
     (case split_addr addr of (word_addr, idx) \<Rightarrow>
        Inr (m((c, word_addr) \<mapsto>
          (case m (c, word_addr) of
             Some w \<Rightarrow> word_update w (unat idx) element
           | None \<Rightarrow> word_update (FWord 0 0 0 0) (unat idx) element)))))"

definition mem_write_word :: "memory \<Rightarrow> ctx_id \<Rightarrow> felt \<Rightarrow> fword \<Rightarrow> memory_error + memory" where
  "mem_write_word m c addr w =
     res_bind (clean_addr addr) (\<lambda>addr.
     res_bind (enforce_word_aligned_addr c addr) (\<lambda>addr.
     Inr (m((c, addr) \<mapsto> w))))"

section \<open>Address arithmetic\<close>

abbreviation word_base :: "u32 \<Rightarrow> u32" where
  "word_base a \<equiv> a - a mod 4"

lemma unat_mod_4: "unat ((a::u32) mod 4) = unat a mod 4"
  by (simp add: unat_mod)

lemma mod_4_bound [simp]: "unat ((a::u32) mod 4) < 4"
  by (simp add: unat_mod_4)

lemma mod_4_le: "(a::u32) mod 4 \<le> a"
  by (simp add: word_le_nat_alt unat_mod_4)

lemma unat_word_base: "unat (word_base a) = unat a - unat a mod 4"
  by (simp add: unat_sub mod_4_le unat_mod_4)

lemma word_base_aligned [simp]: "word_base a mod 4 = 0"
  unfolding word_unat_eq_iff unat_mod_4 unat_word_base by (simp add: minus_mod_eq_mult_div)

lemma word_base_of_aligned: "a mod 4 = 0 \<Longrightarrow> word_base a = a"
  by simp

lemma aligned_bound:
  assumes "(x::u32) mod 4 = 0"
  shows "unat x + 3 < 2 ^ 32"
proof -
  have "unat x mod 4 = 0" using assms by (metis unat_0 unat_mod_4)
  moreover have "unat x < 4294967296" using unsigned_less [of x] by simp
  ultimately show ?thesis by simp presburger
qed

lemma aligned_offset:
  assumes "(x::u32) mod 4 = 0" "i < 4"
  shows "unat (x + of_nat i) = unat x + i" "(x + of_nat i) mod 4 = of_nat i"
    "word_base (x + of_nat i) = x"
proof -
  have m: "unat x mod 4 = 0" using assms by (metis unat_0 unat_mod_4)
  have i: "unat (of_nat i :: u32) = i" using assms by (simp add: unat_of_nat)
  then show u: "unat (x + of_nat i) = unat x + i"
    using aligned_bound [OF assms(1)] assms(2) by (simp add: unat_word_ariths)
  then show e: "(x + of_nat i) mod 4 = of_nat i"
    using m assms i by (simp add: word_unat_eq_iff unat_mod_4) presburger
  then show "word_base (x + of_nat i) = x" by simp
qed

lemma aligned_offsets:
  assumes "(x::u32) mod 4 = 0"
  shows "(x + 1) mod 4 = 1" "word_base (x + 1) = x" "(x + 2) mod 4 = 2" "word_base (x + 2) = x"
    "(x + 3) mod 4 = 3" "word_base (x + 3) = x"
  using aligned_offset(2,3) [OF assms, of 1] aligned_offset(2,3) [OF assms, of 2]
    aligned_offset(2,3) [OF assms, of 3] by simp_all

lemma word_nth_FWord: "FWord (word_nth w 0) (word_nth w 1) (word_nth w 2) (word_nth w 3) = w"
  by (cases w) (simp add: word_nth_def)

lemma clean_addr_eq:
  "clean_addr a = (if Rep_felt a < 2 ^ 32 then Inr (word_of_int (Rep_felt a))
                   else Inl (AddressOutOfBounds (as_canonical_u64 a)))"
proof -
  have "(ucast (as_canonical_u64 a) :: u32) = word_of_int (Rep_felt a)"
    by (metis ucast_eq uint_as_canonical_u64)
  then show ?thesis by (simp add: clean_addr_def word_le_def)
qed

lemma clean_addr_inject:
  assumes "clean_addr a = Inr x" "clean_addr b = Inr x"
  shows "a = b"
proof -
  have u: "uint (word_of_int (Rep_felt c) :: u32) = Rep_felt c" if "Rep_felt c < 2 ^ 32" for c
    using that by (simp add: uint_word_of_int take_bit_int_eq_self)
  have "uint x = Rep_felt c" if "clean_addr c = Inr x" for c
    using that u [of c] by (auto simp: clean_addr_eq split: if_splits)
  with assms have "Rep_felt a = Rep_felt b" by metis
  then show ?thesis by (metis Rep_felt_inject)
qed

section \<open>The contract of an element-addressable memory\<close>

locale element_memory =
  fixes rd_el :: "'m \<Rightarrow> ctx_id \<Rightarrow> felt \<Rightarrow> memory_error + felt"
    and rd_w :: "'m \<Rightarrow> ctx_id \<Rightarrow> felt \<Rightarrow> memory_error + fword"
    and wr_el :: "'m \<Rightarrow> ctx_id \<Rightarrow> felt \<Rightarrow> felt \<Rightarrow> memory_error + 'm"
    and wr_w :: "'m \<Rightarrow> ctx_id \<Rightarrow> felt \<Rightarrow> fword \<Rightarrow> memory_error + 'm"
    and cell :: "'m \<Rightarrow> ctx_id \<Rightarrow> u32 \<Rightarrow> felt"
  assumes rd_el: "rd_el m c a = res_map (cell m c) (clean_addr a)"
    and rd_w: "rd_w m c a = res_bind (clean_addr a) (\<lambda>x.
          if x mod 4 = 0 then Inr (FWord (cell m c x) (cell m c (x + 1)) (cell m c (x + 2)) (cell m c (x + 3)))
          else Inl (UnalignedWordAccess x c))"
    and wr_el_ok: "clean_addr a = Inr x \<Longrightarrow>
          \<exists>m'. wr_el m c a v = Inr m' \<and> cell m' = (\<lambda>d y. if d = c \<and> y = x then v else cell m d y)"
    and wr_el_err: "clean_addr a = Inl e \<Longrightarrow> wr_el m c a v = Inl e"
    and wr_w_ok: "clean_addr a = Inr x \<Longrightarrow> x mod 4 = 0 \<Longrightarrow>
          \<exists>m'. wr_w m c a w = Inr m' \<and>
               cell m' = (\<lambda>d y. if d = c \<and> word_base y = x then word_nth w (unat (y mod 4)) else cell m d y)"
    and wr_w_unaligned: "clean_addr a = Inr x \<Longrightarrow> x mod 4 \<noteq> 0 \<Longrightarrow>
          wr_w m c a w = Inl (UnalignedWordAccess x c)"
    and wr_w_err: "clean_addr a = Inl e \<Longrightarrow> wr_w m c a w = Inl e"
begin

lemma read_element_after_write_element:
  assumes "wr_el m c a v = Inr m'"
  shows "rd_el m' d b = (if d = c \<and> b = a then Inr v else rd_el m d b)"
proof -
  obtain x where x: "clean_addr a = Inr x"
    using assms wr_el_err by (cases "clean_addr a") auto
  with wr_el_ok [OF x, of m c v] assms
  have "cell m' = (\<lambda>d y. if d = c \<and> y = x then v else cell m d y)"
    by (metis sum.inject(2))
  with x show ?thesis
    by (cases "clean_addr b") (auto simp: rd_el dest: clean_addr_inject)
qed

lemma write_word_cells:
  assumes "wr_w m c a w = Inr m'"
  obtains x where "clean_addr a = Inr x" "x mod 4 = 0"
    "cell m' = (\<lambda>d y. if d = c \<and> word_base y = x then word_nth w (unat (y mod 4)) else cell m d y)"
proof -
  obtain x where x: "clean_addr a = Inr x"
    using assms wr_w_err by (cases "clean_addr a") auto
  have al: "x mod 4 = 0"
    using assms wr_w_unaligned [OF x] by (cases "x mod 4 = 0") auto
  from wr_w_ok [OF x al, of m c w] assms
  have "cell m' = (\<lambda>d y. if d = c \<and> word_base y = x then word_nth w (unat (y mod 4)) else cell m d y)"
    by auto
  with x al show thesis by (rule that)
qed

lemma read_word_after_write_word:
  assumes "wr_w m c a w = Inr m'"
  shows "rd_w m' d b = (if d = c \<and> b = a then Inr w else rd_w m d b)"
proof -
  obtain x where x: "clean_addr a = Inr x" "x mod 4 = 0"
    "cell m' = (\<lambda>d y. if d = c \<and> word_base y = x then word_nth w (unat (y mod 4)) else cell m d y)"
    using write_word_cells [OF assms] .
  show ?thesis
  proof (cases "clean_addr b")
    case (Inl e)
    with x show ?thesis by (auto simp: rd_w)
  next
    case (Inr z)
    then show ?thesis
      using x clean_addr_inject [of a x b]
      by (auto simp: rd_w aligned_offsets word_nth_FWord [simplified])
  qed
qed

lemma read_element_of_written_word:
  assumes "wr_w m c a w = Inr m'" "i < 4" "clean_addr a = Inr x" "clean_addr b = Inr (x + of_nat i)"
  shows "rd_el m' c b = Inr (word_nth w i)"
proof -
  have al: "x mod 4 = 0"
    and cell: "cell m' = (\<lambda>d y. if d = c \<and> word_base y = x then word_nth w (unat (y mod 4)) else cell m d y)"
    using write_word_cells [OF assms(1)] assms(3) by auto
  show ?thesis
    using aligned_offset [OF al assms(2)] assms(2,4) by (simp add: rd_el cell unat_of_nat)
qed

lemma read_element_word_isolated:
  assumes "wr_w m c a w = Inr m'" "d \<noteq> c"
  shows "rd_el m' d b = rd_el m d b" "rd_w m' d b = rd_w m d b"
proof -
  have "cell m' d = cell m d"
    by (rule write_word_cells [OF assms(1)]) (use assms(2) in \<open>simp add: fun_eq_iff\<close>)
  then show "rd_el m' d b = rd_el m d b" "rd_w m' d b = rd_w m d b"
    by (cases "clean_addr b"; simp add: rd_el rd_w)+
qed

end

section \<open>The map of words implements the contract\<close>

definition mem_cell :: "memory \<Rightarrow> ctx_id \<Rightarrow> u32 \<Rightarrow> felt" where
  "mem_cell m c a = (case m (c, word_base a) of Some w \<Rightarrow> word_nth w (unat (a mod 4)) | None \<Rightarrow> 0)"

lemma mem_cell_word:
  assumes "x mod 4 = 0"
  shows "FWord (mem_cell m c x) (mem_cell m c (x + 1)) (mem_cell m c (x + 2)) (mem_cell m c (x + 3))
       = (case m (c, x) of Some w \<Rightarrow> w | None \<Rightarrow> EMPTY_WORD)"
proof -
  show ?thesis
    using assms unfolding mem_cell_def aligned_offsets [OF assms]
    by (cases "m (c, x)")
       (auto simp: EMPTY_WORD_def word_nth_def word_elements_def)
qed

lemma split_addr_eq: "split_addr a = (word_base a, a mod 4)"
  by (simp add: split_addr_def WORD_SIZE_def Let_def)

lemma same_word_other_offset: "word_base y = word_base x \<Longrightarrow> y \<noteq> x \<Longrightarrow> unat (x mod 4) \<noteq> unat (y mod 4)"
  by (metis diff_add_cancel word_unat_eq_iff)

lemma mem_cell_update:
  "mem_cell (m((c, word_base x) \<mapsto>
      (case m (c, word_base x) of
         Some w \<Rightarrow> word_update w (unat (x mod 4)) v
       | None \<Rightarrow> word_update (FWord 0 0 0 0) (unat (x mod 4)) v)))
   = (\<lambda>d y. if d = c \<and> y = x then v else mem_cell m d y)" (is "?l = ?r")
proof (intro ext)
  fix d y
  show "?l d y = ?r d y"
  proof (cases "d = c \<and> word_base y = word_base x")
    case True
    then show ?thesis
      using same_word_other_offset [of y x]
      by (cases "y = x"; cases "m (c, word_base x)")
         (simp_all add: mem_cell_def word_nth_update EMPTY_WORD_def [symmetric])
  next
    case False
    then show ?thesis by (auto simp: mem_cell_def)
  qed
qed

interpretation mem: element_memory mem_read_element mem_read_word mem_write_element mem_write_word mem_cell
proof
  fix m :: memory and c a v w x e
  show "mem_read_element m c a = res_map (mem_cell m c) (clean_addr a)"
    by (cases "clean_addr a")
       (auto simp: mem_read_element_def read_element_impl_def mem_cell_def split_addr_eq split: option.splits)
  show "mem_read_word m c a = res_bind (clean_addr a) (\<lambda>x.
          if x mod 4 = 0 then Inr (FWord (mem_cell m c x) (mem_cell m c (x + 1)) (mem_cell m c (x + 2)) (mem_cell m c (x + 3)))
          else Inl (UnalignedWordAccess x c))"
    by (cases "clean_addr a")
       (auto simp: mem_read_word_def read_word_impl_def enforce_word_aligned_addr_def mem_cell_word WORD_SIZE_def)
  show "clean_addr a = Inl e \<Longrightarrow> mem_write_element m c a v = Inl e"
    by (simp add: mem_write_element_def)
  show "clean_addr a = Inl e \<Longrightarrow> mem_write_word m c a w = Inl e"
    by (simp add: mem_write_word_def)
  show "clean_addr a = Inr x \<Longrightarrow> x mod 4 \<noteq> 0 \<Longrightarrow> mem_write_word m c a w = Inl (UnalignedWordAccess x c)"
    by (simp add: mem_write_word_def enforce_word_aligned_addr_def WORD_SIZE_def)
  show "clean_addr a = Inr x \<Longrightarrow> x mod 4 = 0 \<Longrightarrow> \<exists>m'. mem_write_word m c a w = Inr m' \<and>
      mem_cell m' = (\<lambda>d y. if d = c \<and> word_base y = x then word_nth w (unat (y mod 4)) else mem_cell m d y)"
    by (intro exI [of _ "m((c, x) \<mapsto> w)"])
       (auto simp: mem_write_word_def enforce_word_aligned_addr_def WORD_SIZE_def mem_cell_def intro!: ext)
  show "clean_addr a = Inr x \<Longrightarrow> \<exists>m'. mem_write_element m c a v = Inr m' \<and>
      mem_cell m' = (\<lambda>d y. if d = c \<and> y = x then v else mem_cell m d y)"
    by (simp add: mem_write_element_def split_addr_eq mem_cell_update)
qed

lemma aligned_address:
  assumes "Rep_felt a < 2 ^ 32"
  shows "(word_of_int (Rep_felt a) :: u32) mod 4 = 0 \<longleftrightarrow> 4 dvd Rep_felt a"
proof -
  have "uint ((word_of_int (Rep_felt a) :: u32) mod 4) = Rep_felt a mod 4"
    using assms by (simp add: uint_mod uint_word_of_int take_bit_int_eq_self)
  then show ?thesis by (metis dvd_eq_mod_eq_0 uint_0_iff)
qed

lemma clean_addr_aligned_offset:
  assumes "clean_addr a = Inr x" "x mod 4 = 0" "i < 4"
  shows "clean_addr (a + of_nat i) = Inr (x + of_nat i)"
proof -
  have x: "x = word_of_int (Rep_felt a)" "Rep_felt a < 2 ^ 32"
    using assms(1) by (auto simp: clean_addr_eq split: if_splits)
  then have "4 dvd Rep_felt a" using assms(2) aligned_address by metis
  with x(2) assms(3) have b: "Rep_felt a + int i < 2 ^ 32" by (auto elim!: dvdE)
  have "Rep_felt (a + of_nat i) = Rep_felt (of_int (Rep_felt a + int i))" by simp
  also have "\<dots> = Rep_felt a + int i"
    using b Rep_felt_bounds(1) [of a] unfolding Rep_felt_of_int by (intro mod_pos_pos_trivial) (simp_all add: ORDER_def)
  finally show ?thesis
    using b by (simp add: clean_addr_eq x(1))
qed

lemma write_word_frame:
  assumes "mem_write_word m c a w = Inr m'" "d \<noteq> c \<or> (\<forall>i < 4. b \<noteq> a + of_nat i)"
  shows "mem_read_element m' d b = mem_read_element m d b"
proof -
  obtain x where x: "clean_addr a = Inr x" "x mod 4 = 0"
    "mem_cell m' = (\<lambda>d y. if d = c \<and> word_base y = x then word_nth w (unat (y mod 4)) else mem_cell m d y)"
    using mem.write_word_cells [OF assms(1)] .
  have "word_base y \<noteq> x" if "clean_addr b = Inr y" "d = c" for y
  proof
    assume "word_base y = x"
    then have y: "y = x + of_nat (unat (y mod 4))" by (simp add: algebra_simps)
    have "clean_addr (a + of_nat (unat (y mod 4))) = Inr (x + of_nat (unat (y mod 4)))"
      by (rule clean_addr_aligned_offset [OF x(1,2) mod_4_bound])
    then have "clean_addr (a + of_nat (unat (y mod 4))) = Inr y" using y by argo
    then have "b = a + of_nat (unat (y mod 4))" using that(1) clean_addr_inject by blast
    with assms(2) that(2) mod_4_bound show False by blast
  qed
  then show ?thesis by (cases "clean_addr b") (auto simp: mem.rd_el x(3))
qed

lemma write_word_element:
  assumes "mem_write_word m c a w = Inr m'" "i < 4"
  shows "mem_read_element m' c (a + of_nat i) = Inr (word_nth w i)"
proof -
  obtain x where x: "clean_addr a = Inr x" "x mod 4 = 0"
    using mem.write_word_cells [OF assms(1)] by blast
  show ?thesis
    by (rule mem.read_element_of_written_word [OF assms x(1) clean_addr_aligned_offset [OF x assms(2)]])
qed

lemma read_word_element:
  assumes "mem_read_word m c a = Inr w" "i < 4"
  shows "mem_read_element m c (a + of_nat i) = Inr (word_nth w i)"
proof -
  obtain x where x: "clean_addr a = Inr x" "x mod 4 = 0"
      "w = FWord (mem_cell m c x) (mem_cell m c (x + 1)) (mem_cell m c (x + 2)) (mem_cell m c (x + 3))"
    using assms(1) by (cases "clean_addr a") (auto simp: mem.rd_w split: if_splits)
  from assms(2) consider "i = 0" | "i = 1" | "i = 2" | "i = 3" by linarith
  then show ?thesis
    using clean_addr_aligned_offset [OF x(1,2) assms(2)]
    by cases (simp_all add: mem.rd_el x(3) word_nth_def)
qed

section \<open>Properties\<close>

text \<open>C18. A written element is read back, and neither another address nor another context is changed.\<close>

theorem memory_element_roundtrip:
  assumes "mem_write_element m c a v = Inr m'"
  shows "mem_read_element m' d b = (if d = c \<and> b = a then Inr v else mem_read_element m d b)"
  using assms by (rule mem.read_element_after_write_element)

theorem memory_element_roundtrip_witness:
  "\<exists>m'. mem_write_element memory_new 0 5 7 = Inr m' \<and> mem_read_element m' 0 5 = Inr 7 \<and>
     mem_read_element m' 1 5 = Inr 0"
proof -
  have a: "clean_addr 5 = Inr 5" by (simp add: clean_addr_eq)
  obtain m' where m': "mem_write_element memory_new 0 5 7 = Inr m'"
    using mem.wr_el_ok [OF a] by blast
  have "mem_read_element memory_new 1 5 = Inr 0"
    by (simp add: mem.rd_el a mem_cell_def memory_new_def)
  with m' show ?thesis
    using memory_element_roundtrip [OF m', of 0 5] memory_element_roundtrip [OF m', of 1 5] by simp
qed

text \<open>C17. A written word is read back as a word and, element by element, at its four addresses; all other
  elements of this context, and all elements of the other contexts, keep their values.\<close>

theorem memory_word_roundtrip:
  assumes "mem_write_word m c a w = Inr m'"
  shows "mem_read_word m' c a = Inr w \<and>
    (\<forall>i < 4. mem_read_element m' c (a + of_nat i) = Inr (word_nth w i)) \<and>
    (\<forall>d b. d \<noteq> c \<or> (\<forall>i < 4. b \<noteq> a + of_nat i) \<longrightarrow> mem_read_element m' d b = mem_read_element m d b)"
  using mem.read_word_after_write_word [OF assms, of c a] write_word_element [OF assms] write_word_frame [OF assms]
  by simp

theorem memory_word_roundtrip_witness:
  "\<exists>m'. mem_write_word memory_new 0 8 (FWord 1 2 3 4) = Inr m' \<and> mem_read_word m' 0 8 = Inr (FWord 1 2 3 4) \<and>
     mem_read_element m' 0 10 = Inr 3 \<and> mem_read_element m' 0 12 = Inr 0"
proof -
  have a: "clean_addr 8 = Inr 8" "clean_addr 12 = Inr 12" by (simp_all add: clean_addr_eq)
  obtain m' where m': "mem_write_word memory_new 0 8 (FWord 1 2 3 4) = Inr m'"
    using mem.wr_w_ok [OF a(1)] by fastforce
  note R = memory_word_roundtrip [OF m']
  have "\<forall>i < 4. (12 :: felt) \<noteq> 8 + of_nat i" by (auto simp: less_Suc_eq eval_nat_numeral)
  moreover have "mem_read_element memory_new 0 12 = Inr 0"
    by (simp add: mem.rd_el a mem_cell_def memory_new_def)
  ultimately have "mem_read_element m' 0 12 = Inr 0" using R by metis
  moreover have "mem_read_element m' 0 (8 + of_nat 2) = Inr (word_nth (FWord 1 2 3 4) 2)"
    using R by (metis one_add_one one_less_numeral_iff numeral_less_iff semiring_norm(76,78))
  ultimately show ?thesis using m' R by (simp add: word_nth_def)
qed

text \<open>C19. A word access succeeds exactly at an address below \<open>2 ^ 32\<close> that is a multiple of four; otherwise it
  fails with the error that names the address, and an unaligned address is reported with its context.\<close>

theorem memory_word_access_errors:
  "mem_read_word m c a = (if Rep_felt a \<ge> 2 ^ 32 then Inl (AddressOutOfBounds (as_canonical_u64 a))
     else if \<not> 4 dvd Rep_felt a then Inl (UnalignedWordAccess (word_of_int (Rep_felt a)) c)
     else Inr (FWord (mem_cell m c (word_of_int (Rep_felt a))) (mem_cell m c (word_of_int (Rep_felt a) + 1))
       (mem_cell m c (word_of_int (Rep_felt a) + 2)) (mem_cell m c (word_of_int (Rep_felt a) + 3)))) \<and>
   mem_write_word m c a w = (if Rep_felt a \<ge> 2 ^ 32 then Inl (AddressOutOfBounds (as_canonical_u64 a))
     else if \<not> 4 dvd Rep_felt a then Inl (UnalignedWordAccess (word_of_int (Rep_felt a)) c)
     else Inr (m((c, word_of_int (Rep_felt a)) \<mapsto> w)))"
proof -
  have al: "(word_of_int (Rep_felt a) :: u32) mod 4 = 0 \<longleftrightarrow> 4 dvd Rep_felt a" if "Rep_felt a < 2 ^ 32"
    using that aligned_address by blast
  show ?thesis
    by (auto simp: mem.rd_w mem_write_word_def enforce_word_aligned_addr_def WORD_SIZE_def clean_addr_eq al)
qed

end
