(* ===== verification/Advice.thy ===== *)
theory Advice
  imports Vm_Errors
begin

text \<open>
  The advice provider, \<open>processor/src/host/advice/mod.rs\<close>, with the advice map of
  \<open>core/src/advice/map.rs\<close>: a LIFO stack bounded by \<open>2 ^ 17\<close> elements, a map from words to element
  lists, a Merkle store and the deferred precompile requests.  The Merkle store, Merkle paths and
  the Poseidon2 permutation come from a package outside the repository; they are the fields of the
  record \<open>crypto_lib\<close>, an argument of the definitions that use them.  The map passed to
  \<open>extend_map\<close> is the list of its entries in iteration order.
\<close>

section \<open>External cryptography\<close>

type_synonym hasher_state = "fword \<times> fword \<times> fword"
type_synonym node_index = "8 word \<times> u64"
type_synonym inner_node_info = "fword \<times> fword \<times> fword"

record ('m, 'q) crypto_lib =
  apply_permutation :: "hasher_state \<Rightarrow> hasher_state"
  node_index_from_elements :: "felt \<Rightarrow> felt \<Rightarrow> node_index option"
  node_index_root :: node_index
  store_get_node :: "'m \<Rightarrow> fword \<Rightarrow> node_index \<Rightarrow> merkle_error + fword"
  store_has_path :: "'m \<Rightarrow> fword \<Rightarrow> node_index \<Rightarrow> bool"
  store_get_path :: "'m \<Rightarrow> fword \<Rightarrow> node_index \<Rightarrow> merkle_error + 'q"
  store_set_node :: "'m \<Rightarrow> fword \<Rightarrow> node_index \<Rightarrow> fword \<Rightarrow> merkle_error + ('q \<times> fword \<times> 'm)"
  store_merge_roots :: "'m \<Rightarrow> fword \<Rightarrow> fword \<Rightarrow> merkle_error + (fword \<times> 'm)"
  store_extend :: "'m \<Rightarrow> inner_node_info list \<Rightarrow> 'm"
  path_verify :: "'q \<Rightarrow> u64 \<Rightarrow> fword \<Rightarrow> fword \<Rightarrow> bool"
  path_compute_root :: "'q \<Rightarrow> u64 \<Rightarrow> fword \<Rightarrow> merkle_error + fword"
  path_len :: "'q \<Rightarrow> nat"

section \<open>Model\<close>

definition MAX_ADVICE_STACK_SIZE :: nat where
  "MAX_ADVICE_STACK_SIZE = 2 ^ 17"

definition USIZE_MAX :: nat where
  "USIZE_MAX = 2 ^ 64 - 1"

datatype precompile_request = PrecompileRequest (req_event_id: u64) (req_calldata: "8 word list")

type_synonym advice_map = "fword \<Rightarrow> felt list option"
type_synonym advice_map_entries = "(fword \<times> felt list) list"

record 'm advice_provider =
  adv_stack :: "felt list"
  adv_map :: advice_map
  adv_store :: 'm
  adv_pc_requests :: "precompile_request list"

record 'm advice_inputs =
  inputs_stack :: "felt list"
  inputs_map :: advice_map_entries
  inputs_store :: 'm

datatype advice_mutation =
    ExtendStack "felt list"
  | ExtendMap advice_map_entries
  | ExtendMerkleStore "inner_node_info list"
  | ExtendPrecompileRequests "precompile_request list"

subsection \<open>Advice stack\<close>

definition adv_pop_stack :: "'m advice_provider \<Rightarrow> advice_error + felt \<times> 'm advice_provider" where
  "adv_pop_stack p = (case adv_stack p of
      [] \<Rightarrow> Inl StackReadFailed
    | x # xs \<Rightarrow> Inr (x, p\<lparr>adv_stack := xs\<rparr>))"

definition adv_pop_stack_word :: "'m advice_provider \<Rightarrow> advice_error + fword \<times> 'm advice_provider" where
  "adv_pop_stack_word p = (case adv_stack p of
      a # b # c # d # xs \<Rightarrow> Inr (FWord a b c d, p\<lparr>adv_stack := xs\<rparr>)
    | _ \<Rightarrow> Inl StackReadFailed)"

definition adv_pop_stack_dword ::
    "'m advice_provider \<Rightarrow> advice_error + (fword \<times> fword) \<times> 'm advice_provider" where
  "adv_pop_stack_dword p =
     res_bind (adv_pop_stack_word p) (\<lambda>(word0, p).
     res_bind (adv_pop_stack_word p) (\<lambda>(word1, p).
     Inr ((word0, word1), p)))"

definition check_stack_capacity :: "'m advice_provider \<Rightarrow> nat \<Rightarrow> advice_error + unit" where
  "check_stack_capacity p count =
     (let resulting_size = length (adv_stack p) + count in
      if resulting_size > USIZE_MAX then Inl (StackSizeExceeded count MAX_ADVICE_STACK_SIZE)
      else if resulting_size > MAX_ADVICE_STACK_SIZE
      then Inl (StackSizeExceeded count MAX_ADVICE_STACK_SIZE)
      else Inr ())"

definition push_front :: "felt \<Rightarrow> 'm advice_provider \<Rightarrow> 'm advice_provider" where
  "push_front v p = p\<lparr>adv_stack := v # adv_stack p\<rparr>"

definition push_stack :: "'m advice_provider \<Rightarrow> felt \<Rightarrow> advice_error + 'm advice_provider" where
  "push_stack p v = res_bind (check_stack_capacity p 1) (\<lambda>_. Inr (push_front v p))"

definition push_stack_word :: "'m advice_provider \<Rightarrow> fword \<Rightarrow> advice_error + 'm advice_provider" where
  "push_stack_word p w =
     res_bind (check_stack_capacity p 4) (\<lambda>_. Inr (fold push_front (rev (word_elements w)) p))"

definition next_multiple_of :: "nat \<Rightarrow> nat \<Rightarrow> nat" where
  "next_multiple_of n k = (if n mod k = 0 then n else n + (k - n mod k))"

definition push_from_map ::
    "'m advice_provider \<Rightarrow> fword \<Rightarrow> bool \<Rightarrow> 8 word \<Rightarrow> advice_error + 'm advice_provider" where
  "push_from_map p key include_len pad_to =
     res_bind (ok_or (adv_map p key) (MapKeyNotFound key)) (\<lambda>values.
     let num_pad_elements =
           (if pad_to \<noteq> 0 then next_multiple_of (length values) (unat pad_to) - length values else 0);
         total_push = length values + num_pad_elements + (if include_len then 1 else 0) in
     res_bind (ensure (total_push \<le> USIZE_MAX) (StackSizeExceeded USIZE_MAX MAX_ADVICE_STACK_SIZE)) (\<lambda>_.
     res_bind (check_stack_capacity p total_push) (\<lambda>_.
     let p = (push_front 0 ^^ num_pad_elements) p;
         p = fold push_front (rev values) p in
     Inr (if include_len then push_front (felt_from_u64 (of_nat (length values))) p else p))))"

definition extend_stack :: "'m advice_provider \<Rightarrow> felt list \<Rightarrow> advice_error + 'm advice_provider" where
  "extend_stack p values =
     res_bind (check_stack_capacity p (length values)) (\<lambda>_. Inr (fold push_front (rev values) p))"

subsection \<open>Advice map\<close>

definition contains_map_key :: "'m advice_provider \<Rightarrow> fword \<Rightarrow> bool" where
  "contains_map_key p key = (adv_map p key \<noteq> None)"

definition get_mapped_values :: "'m advice_provider \<Rightarrow> fword \<Rightarrow> felt list option" where
  "get_mapped_values p key = adv_map p key"

definition insert_into_map ::
    "'m advice_provider \<Rightarrow> fword \<Rightarrow> felt list \<Rightarrow> advice_error + 'm advice_provider" where
  "insert_into_map p key values = (case adv_map p key of
      None \<Rightarrow> Inr (p\<lparr>adv_map := (adv_map p)(key \<mapsto> values)\<rparr>)
    | Some existing \<Rightarrow>
        if existing \<noteq> values then Inl (MapKeyAlreadyPresent key existing values) else Inr p)"

fun find_conflicting_entry ::
    "advice_map \<Rightarrow> advice_map_entries \<Rightarrow> ((fword \<times> felt list) \<times> felt list) option" where
  "find_conflicting_entry m [] = None"
| "find_conflicting_entry m ((key, new_value) # other) = (case m key of
      Some existing_value \<Rightarrow>
        if existing_value \<noteq> new_value then Some ((key, existing_value), new_value)
        else find_conflicting_entry m other
    | None \<Rightarrow> find_conflicting_entry m other)"

fun merge_new :: "advice_map \<Rightarrow> advice_map_entries \<Rightarrow> advice_map" where
  "merge_new m [] = m"
| "merge_new m ((key, v) # other) = merge_new (if m key = None then m(key \<mapsto> v) else m) other"

definition merge_map ::
    "advice_map \<Rightarrow> advice_map_entries \<Rightarrow> ((fword \<times> felt list) \<times> felt list) + advice_map" where
  "merge_map m other = (case find_conflicting_entry m other of
      Some conflict \<Rightarrow> Inl conflict
    | None \<Rightarrow> Inr (merge_new m other))"

definition extend_map ::
    "'m advice_provider \<Rightarrow> advice_map_entries \<Rightarrow> advice_error + 'm advice_provider" where
  "extend_map p other = (case merge_map (adv_map p) other of
      Inl ((key, prev_values), new_values) \<Rightarrow> Inl (MapKeyAlreadyPresent key prev_values new_values)
    | Inr m \<Rightarrow> Inr (p\<lparr>adv_map := m\<rparr>))"

subsection \<open>Merkle store\<close>

definition get_tree_node ::
    "('m, 'q) crypto_lib \<Rightarrow> 'm advice_provider \<Rightarrow> fword \<Rightarrow> felt \<Rightarrow> felt \<Rightarrow> advice_error + fword" where
  "get_tree_node X p root depth index =
     res_bind (ok_or (node_index_from_elements X depth index) (InvalidMerkleTreeNodeIndex depth index)) (\<lambda>i.
     res_map_err MerkleStoreLookupFailed (store_get_node X (adv_store p) root i))"

definition has_merkle_path ::
    "('m, 'q) crypto_lib \<Rightarrow> 'm advice_provider \<Rightarrow> fword \<Rightarrow> felt \<Rightarrow> felt \<Rightarrow> advice_error + bool" where
  "has_merkle_path X p root depth index =
     res_bind (ok_or (node_index_from_elements X depth index) (InvalidMerkleTreeNodeIndex depth index)) (\<lambda>i.
     Inr (store_has_path X (adv_store p) root i))"

definition adv_get_merkle_path ::
    "('m, 'q) crypto_lib \<Rightarrow> 'm advice_provider \<Rightarrow> fword \<Rightarrow> felt \<Rightarrow> felt \<Rightarrow> advice_error + 'q" where
  "adv_get_merkle_path X p root depth index =
     res_bind (ok_or (node_index_from_elements X depth index) (InvalidMerkleTreeNodeIndex depth index)) (\<lambda>i.
     res_map_err MerkleStoreLookupFailed (store_get_path X (adv_store p) root i))"

definition adv_update_merkle_node ::
    "('m, 'q) crypto_lib \<Rightarrow> 'm advice_provider \<Rightarrow> fword \<Rightarrow> felt \<Rightarrow> felt \<Rightarrow> fword \<Rightarrow>
     advice_error + ('q \<times> fword) \<times> 'm advice_provider" where
  "adv_update_merkle_node X p root depth index v =
     res_bind (ok_or (node_index_from_elements X depth index) (InvalidMerkleTreeNodeIndex depth index)) (\<lambda>i.
     res_bind (res_map_err MerkleStoreUpdateFailed (store_set_node X (adv_store p) root i v)) (\<lambda>(path, new_root, store).
     Inr ((path, new_root), p\<lparr>adv_store := store\<rparr>)))"

definition merge_roots ::
    "('m, 'q) crypto_lib \<Rightarrow> 'm advice_provider \<Rightarrow> fword \<Rightarrow> fword \<Rightarrow>
     advice_error + fword \<times> 'm advice_provider" where
  "merge_roots X p lhs rhs =
     res_bind (res_map_err MerkleStoreMergeFailed (store_merge_roots X (adv_store p) lhs rhs)) (\<lambda>(root, store).
     Inr (root, p\<lparr>adv_store := store\<rparr>))"

definition has_merkle_root :: "('m, 'q) crypto_lib \<Rightarrow> 'm advice_provider \<Rightarrow> fword \<Rightarrow> bool" where
  "has_merkle_root X p root = is_ok (store_get_node X (adv_store p) root (node_index_root X))"

definition extend_merkle_store ::
    "('m, 'q) crypto_lib \<Rightarrow> 'm advice_provider \<Rightarrow> inner_node_info list \<Rightarrow> 'm advice_provider" where
  "extend_merkle_store X p infos = p\<lparr>adv_store := store_extend X (adv_store p) infos\<rparr>"

subsection \<open>Precompile requests, inputs and mutations\<close>

definition extend_precompile_requests ::
    "'m advice_provider \<Rightarrow> precompile_request list \<Rightarrow> 'm advice_provider" where
  "extend_precompile_requests p reqs = p\<lparr>adv_pc_requests := adv_pc_requests p @ reqs\<rparr>"

definition take_precompile_requests ::
    "'m advice_provider \<Rightarrow> precompile_request list \<times> 'm advice_provider" where
  "take_precompile_requests p = (adv_pc_requests p, p\<lparr>adv_pc_requests := []\<rparr>)"

definition advice_from_inputs :: "'m advice_inputs \<Rightarrow> 'm advice_provider" where
  "advice_from_inputs inp =
     \<lparr>adv_stack = inputs_stack inp, adv_map = map_of (inputs_map inp),
      adv_store = inputs_store inp, adv_pc_requests = []\<rparr>"

definition apply_mutation ::
    "('m, 'q) crypto_lib \<Rightarrow> 'm advice_provider \<Rightarrow> advice_mutation \<Rightarrow> advice_error + 'm advice_provider" where
  "apply_mutation X p mutation = (case mutation of
      ExtendStack values \<Rightarrow> extend_stack p values
    | ExtendMap other \<Rightarrow> extend_map p other
    | ExtendMerkleStore infos \<Rightarrow> Inr (extend_merkle_store X p infos)
    | ExtendPrecompileRequests data \<Rightarrow> Inr (extend_precompile_requests p data))"

primrec apply_mutations ::
    "('m, 'q) crypto_lib \<Rightarrow> 'm advice_provider \<Rightarrow> advice_mutation list \<Rightarrow> advice_error + 'm advice_provider" where
  "apply_mutations X p [] = Inr p"
| "apply_mutations X p (mutation # ms) =
     res_bind (apply_mutation X p mutation) (\<lambda>p. apply_mutations X p ms)"

section \<open>Lemmas\<close>

lemma fold_push_front [simp]:
  "fold push_front (rev xs) p = p\<lparr>adv_stack := xs @ adv_stack p\<rparr>"
  by (induction xs arbitrary: p) (auto simp: push_front_def fold_append)

lemma funpow_push_front [simp]:
  "(push_front v ^^ n) p = p\<lparr>adv_stack := replicate n v @ adv_stack p\<rparr>"
  by (induction n) (auto simp: push_front_def)

lemma check_stack_capacity_eq:
  "check_stack_capacity p n =
     (if length (adv_stack p) + n \<le> MAX_ADVICE_STACK_SIZE then Inr ()
      else Inl (StackSizeExceeded n MAX_ADVICE_STACK_SIZE))"
  by (auto simp: check_stack_capacity_def USIZE_MAX_def MAX_ADVICE_STACK_SIZE_def Let_def)

lemma extend_stack_eq:
  "extend_stack p xs =
     (if length (adv_stack p) + length xs \<le> MAX_ADVICE_STACK_SIZE
      then Inr (p\<lparr>adv_stack := xs @ adv_stack p\<rparr>)
      else Inl (StackSizeExceeded (length xs) MAX_ADVICE_STACK_SIZE))"
  by (simp add: extend_stack_def check_stack_capacity_eq)

lemma push_stack_word_eq: "push_stack_word p w = extend_stack p (word_elements w)"
  unfolding push_stack_word_def extend_stack_def by simp

lemma push_stack_eq: "push_stack p v = extend_stack p [v]"
  by (simp add: push_stack_def extend_stack_eq check_stack_capacity_eq push_front_def)

lemma next_multiple_of_props:
  assumes "0 < k"
  shows "n \<le> next_multiple_of n k" "next_multiple_of n k < n + k" "k dvd next_multiple_of n k"
proof -
  define r where "r = n mod k"
  have less: "r < k" using assms by (simp add: r_def)
  have dvd: "k dvd n + (k - n mod k)"
  proof -
    have "n mod k < k" using assms by simp
    then have "n + (k - n mod k) = n div k * k + k"
      by (metis (no_types) add_diff_inverse_nat div_mult_mod_eq group_cancel.add1 less_imp_le_nat not_less)
    then show ?thesis by simp
  qed
  show "n \<le> next_multiple_of n k" "next_multiple_of n k < n + k"
    using less assms unfolding next_multiple_of_def r_def [symmetric] by auto
  show "k dvd next_multiple_of n k"
    using dvd by (simp add: next_multiple_of_def mod_0_imp_dvd)
qed

definition map_padding :: "nat \<Rightarrow> 8 word \<Rightarrow> nat" where
  "map_padding n pad_to = (if pad_to \<noteq> 0 then next_multiple_of n (unat pad_to) - n else 0)"

lemma map_padding_le: "map_padding n pad_to < 256"
proof -
  have u: "unat pad_to < 256" using unsigned_less [of pad_to] by simp
  show ?thesis
  proof (cases "pad_to = 0")
    case False
    then have "0 < unat pad_to" by (simp add: unat_gt_0)
    from next_multiple_of_props(2) [OF this, of n] u show ?thesis
      unfolding map_padding_def by auto
  qed (simp add: map_padding_def)
qed

lemma push_from_map_eq:
  assumes "adv_map p key = Some values" "length values < 2 ^ 63"
  shows "push_from_map p key include_len pad_to =
    extend_stack p ((if include_len then [felt_from_u64 (of_nat (length values))] else [])
                    @ values @ replicate (map_padding (length values) pad_to) 0)"
proof -
  have "length values + map_padding (length values) pad_to + 1 \<le> USIZE_MAX"
    using assms(2) map_padding_le [of "length values" pad_to] by (simp add: USIZE_MAX_def)
  then show ?thesis
    using assms(1)
    by (simp add: push_from_map_def Let_def extend_stack_eq check_stack_capacity_eq push_front_def
        flip: map_padding_def)
qed

lemma least_padding:
  assumes "pad_to \<noteq> 0"
  shows "next_multiple_of n (unat pad_to) - n = (LEAST k. unat pad_to dvd n + k)"
proof (rule Least_equality [symmetric])
  have pos: "0 < unat pad_to" using assms by (simp add: unat_gt_0)
  note P = next_multiple_of_props [OF pos, of n]
  show "unat pad_to dvd n + (next_multiple_of n (unat pad_to) - n)" using P by simp
  show "next_multiple_of n (unat pad_to) - n \<le> k" if "unat pad_to dvd n + k" for k
  proof (rule ccontr)
    assume "\<not> ?thesis"
    then have "0 < next_multiple_of n (unat pad_to) - (n + k)" "next_multiple_of n (unat pad_to) - (n + k) < unat pad_to"
      using P(2) by linarith+
    moreover have "unat pad_to dvd next_multiple_of n (unat pad_to) - (n + k)"
      using P(3) that by (rule dvd_diff_nat)
    ultimately show False by (simp add: nat_dvd_not_less)
  qed
qed

subsection \<open>Bound on the advice stack\<close>

definition adv_bounded :: "'m advice_provider \<Rightarrow> bool" where
  "adv_bounded p = (length (adv_stack p) \<le> MAX_ADVICE_STACK_SIZE)"

lemma extend_stack_bounded: "extend_stack p xs = Inr p' \<Longrightarrow> adv_bounded p'"
  by (auto simp: extend_stack_eq adv_bounded_def split: if_splits)

lemma extend_map_stack: "extend_map p other = Inr p' \<Longrightarrow> adv_stack p' = adv_stack p"
  by (auto simp: extend_map_def split: sum.splits)

lemma apply_mutations_bounded:
  "adv_bounded p \<Longrightarrow> apply_mutations X p ms = Inr p' \<Longrightarrow> adv_bounded p'"
proof (induction ms arbitrary: p)
  case (Cons m ms)
  from Cons.prems(2) obtain q where q: "apply_mutation X p m = Inr q" "apply_mutations X q ms = Inr p'"
    by (auto elim: res_bindE)
  have "adv_bounded q"
    using q(1) Cons.prems(1) extend_stack_bounded extend_map_stack [of p _ q]
    by (cases m) (auto simp: apply_mutation_def extend_merkle_store_def extend_precompile_requests_def adv_bounded_def)
  with Cons.IH q(2) show ?case by blast
qed simp

subsection \<open>The advice map only grows\<close>

lemma merge_new_eq: "merge_new m other = map_of other ++ m"
  by (induction m other rule: merge_new.induct) (auto simp: map_add_def fun_eq_iff split: option.splits)

lemma find_conflicting_entry_None:
  "find_conflicting_entry m other = None \<longleftrightarrow>
     (\<forall>(key, v) \<in> set other. \<forall>v'. m key = Some v' \<longrightarrow> v' = v)"
  by (induction m other rule: find_conflicting_entry.induct) (auto split: option.splits)

lemma find_conflicting_entry_Some:
  "find_conflicting_entry m other = Some ((key, v), v') \<Longrightarrow>
     m key = Some v \<and> (key, v') \<in> set other \<and> v \<noteq> v'"
  by (induction m other rule: find_conflicting_entry.induct) (auto split: option.splits if_splits)

lemma merge_map_Inr:
  assumes "merge_map m other = Inr m'" "distinct (map fst other)"
  shows "m' = m ++ map_of other" "m \<subseteq>\<^sub>m m'"
proof -
  have none: "find_conflicting_entry m other = None" and m': "m' = map_of other ++ m"
    using assms(1) by (auto simp: merge_map_def merge_new_eq split: option.splits)
  have "v' = v" if "m key = Some v'" "map_of other key = Some v" for key v v'
    using none that by (auto simp: find_conflicting_entry_None dest: map_of_SomeD)
  then show "m' = m ++ map_of other"
    by (auto simp: m' map_add_def fun_eq_iff split: option.splits)
  show "m \<subseteq>\<^sub>m m'" by (simp add: m')
qed

section \<open>The LIFO contract of the advice stack\<close>

locale advice_lifo =
  fixes pop :: "'a \<Rightarrow> advice_error + felt \<times> 'a"
    and extend :: "'a \<Rightarrow> felt list \<Rightarrow> advice_error + 'a"
    and contents :: "'a \<Rightarrow> felt list"
  assumes pop_Nil: "contents a = [] \<Longrightarrow> pop a = Inl StackReadFailed"
    and pop_Cons: "contents a = x # xs \<Longrightarrow> \<exists>b. pop a = Inr (x, b) \<and> contents b = xs"
    and extend_contents: "extend a xs = Inr b \<Longrightarrow> contents b = xs @ contents a"
begin

primrec pops :: "nat \<Rightarrow> 'a \<Rightarrow> advice_error + felt list \<times> 'a" where
  "pops 0 a = Inr ([], a)"
| "pops (Suc n) a =
     res_bind (pop a) (\<lambda>(x, a). res_bind (pops n a) (\<lambda>(xs, a). Inr (x # xs, a)))"

lemma pops_prefix:
  "contents a = xs @ ys \<Longrightarrow> \<exists>b. pops (length xs) a = Inr (xs, b) \<and> contents b = ys"
proof (induction xs arbitrary: a)
  case (Cons x xs)
  obtain b where b: "pop a = Inr (x, b)" "contents b = xs @ ys"
    using pop_Cons [of a x "xs @ ys"] Cons.prems by auto
  with Cons.IH [of b] show ?case by auto
qed simp

lemma pops_exhausted:
  "length (contents a) < n \<Longrightarrow> pops n a = Inl StackReadFailed"
proof (induction n arbitrary: a)
  case (Suc n)
  show ?case
  proof (cases "contents a")
    case (Cons x xs)
    then obtain b where "pop a = Inr (x, b)" "contents b = xs" using pop_Cons by blast
    with Suc Cons show ?thesis by auto
  qed (simp add: pop_Nil)
qed simp

lemma pops_after_extend:
  assumes "extend a xs = Inr b"
  shows "\<exists>c. pops (length xs) b = Inr (xs, c) \<and> contents c = contents a"
  using pops_prefix [of b xs "contents a"] extend_contents [OF assms] by simp

end

interpretation adv: advice_lifo adv_pop_stack extend_stack adv_stack
  by unfold_locales (auto simp: adv_pop_stack_def extend_stack_eq split: if_splits)

section \<open>Properties\<close>

text \<open>A concrete cryptographic library for the examples: a permutation that rotates the three words of its
  state and a Merkle store with a single, empty tree.\<close>

definition sample_lib :: "(unit, unit) crypto_lib" where
  "sample_lib = \<lparr>apply_permutation = (\<lambda>(a, b, c). (b, c, a)),
     node_index_from_elements = (\<lambda>d i. if Rep_felt d \<le> 64 then Some (of_int (Rep_felt d), as_canonical_u64 i) else None),
     node_index_root = (0, 0),
     store_get_node = (\<lambda>_ root i. if root = EMPTY_WORD then Inr EMPTY_WORD else Inl ''root not in store''),
     store_has_path = (\<lambda>_ root i. root = EMPTY_WORD),
     store_get_path = (\<lambda>_ root i. if root = EMPTY_WORD then Inr () else Inl ''root not in store''),
     store_set_node = (\<lambda>_ root i w. if root = EMPTY_WORD then Inr ((), root, ()) else Inl ''root not in store''),
     store_merge_roots = (\<lambda>_ l r. Inr (EMPTY_WORD, ())),
     store_extend = (\<lambda>_ _. ()),
     path_verify = (\<lambda>_ i w root. root = EMPTY_WORD),
     path_compute_root = (\<lambda>_ i w. Inr EMPTY_WORD),
     path_len = (\<lambda>_. 0)\<rparr>"

lemma apply_mutation_map: "apply_mutation X p m = Inr q \<Longrightarrow> adv_map p \<subseteq>\<^sub>m adv_map q"
  by (cases m)
     (auto simp: apply_mutation_def extend_stack_eq extend_map_def merge_map_def merge_new_eq extend_merkle_store_def
       extend_precompile_requests_def split: sum.splits option.splits if_splits)

text \<open>C20. Mutations returned by the host keep the advice stack within its bound and never remove or change an
  entry of the advice map.\<close>

theorem apply_mutations_invariant:
  assumes "length (adv_stack p) \<le> MAX_ADVICE_STACK_SIZE" "apply_mutations X p ms = Inr p'"
  shows "length (adv_stack p') \<le> MAX_ADVICE_STACK_SIZE \<and> adv_map p \<subseteq>\<^sub>m adv_map p'"
proof
  show "length (adv_stack p') \<le> MAX_ADVICE_STACK_SIZE"
    using apply_mutations_bounded [of p X ms p'] assms by (simp add: adv_bounded_def)
  from assms(2) show "adv_map p \<subseteq>\<^sub>m adv_map p'"
  proof (induction ms arbitrary: p)
    case (Cons m ms)
    then obtain q where "apply_mutation X p m = Inr q" "apply_mutations X q ms = Inr p'"
      by (auto elim: res_bindE)
    with Cons.IH [of q] apply_mutation_map show ?case using map_le_trans by blast
  qed simp
qed

theorem apply_mutations_invariant_witness:
  "\<exists>p'. apply_mutations sample_lib
      \<lparr>adv_stack = [], adv_map = [EMPTY_WORD \<mapsto> [1]], adv_store = (), adv_pc_requests = []\<rparr>
      [ExtendStack [7, 8], ExtendMap [(FWord 1 0 0 0, [2])]] = Inr p' \<and>
    length (adv_stack p') \<le> MAX_ADVICE_STACK_SIZE \<and> [EMPTY_WORD \<mapsto> [1]] \<subseteq>\<^sub>m adv_map p'"
proof -
  let ?p = "\<lparr>adv_stack = [], adv_map = [EMPTY_WORD \<mapsto> [1]], adv_store = (), adv_pc_requests = []\<rparr>"
  let ?p' = "\<lparr>adv_stack = [7, 8], adv_map = [EMPTY_WORD \<mapsto> [1], FWord 1 0 0 0 \<mapsto> [2]], adv_store = (), adv_pc_requests = []\<rparr>"
  have "apply_mutations sample_lib ?p
      [ExtendStack [7, 8], ExtendMap [(FWord 1 0 0 0, [2])]] = Inr ?p'"
    by (simp add: apply_mutation_def extend_stack_eq extend_map_def merge_map_def MAX_ADVICE_STACK_SIZE_def EMPTY_WORD_def)
  with apply_mutations_invariant [OF _ this] show ?thesis by simp
qed

text \<open>C22. Merging a map into the advice map succeeds exactly when no key gets a different value, and then yields
  the union of both; otherwise the first conflicting entry is reported with both values and the provider
  is not changed.\<close>

theorem extend_map_exact:
  assumes "distinct (map fst other)"
  shows "case extend_map p other of
      Inr p' \<Rightarrow> p' = p\<lparr>adv_map := adv_map p ++ map_of other\<rparr> \<and> adv_map p \<subseteq>\<^sub>m adv_map p' \<and> map_of other \<subseteq>\<^sub>m adv_map p'
    | Inl e \<Rightarrow> \<exists>key v v'. e = MapKeyAlreadyPresent key v v' \<and> adv_map p key = Some v \<and> map_of other key = Some v' \<and> v \<noteq> v'"
proof (cases "merge_map (adv_map p) other")
  case (Inl c)
  then obtain key v v' where "c = ((key, v), v')" "find_conflicting_entry (adv_map p) other = Some ((key, v), v')"
    by (cases c) (auto simp: merge_map_def split: option.splits)
  with Inl find_conflicting_entry_Some [OF this(2)] assms show ?thesis by (auto simp: extend_map_def)
next
  case (Inr m)
  with merge_map_Inr [OF Inr assms] show ?thesis by (simp add: extend_map_def)
qed

theorem extend_map_exact_witness:
  "distinct (map fst [(EMPTY_WORD, [2 :: felt])]) \<and>
   extend_map \<lparr>adv_stack = [], adv_map = [EMPTY_WORD \<mapsto> [1]], adv_store = (), adv_pc_requests = []\<rparr> [(EMPTY_WORD, [2])] =
     Inl (MapKeyAlreadyPresent EMPTY_WORD [1] [2])"
  using extend_map_exact [of "[(EMPTY_WORD, [2])]" "\<lparr>adv_stack = [], adv_map = [EMPTY_WORD \<mapsto> [1]], adv_store = (), adv_pc_requests = []\<rparr>"]
  by (simp add: extend_map_def merge_map_def)

text \<open>C21. \<open>push_from_map\<close> puts, from the top, the number of values when asked for, the values in order and the
  least number of zeros that makes their count a multiple of \<open>pad_to\<close>; when the stack would exceed its bound
  nothing is pushed and the requested size is reported.\<close>

theorem push_from_map_layout:
  assumes "adv_map p key = Some values" "length values < 2 ^ 63"
    and "k = (LEAST k. unat pad_to dvd length values + k)"
    and "xs = (if include_len then [felt_from_u64 (of_nat (length values))] else []) @ values @
              replicate (if pad_to = 0 then 0 else k) 0"
  shows "push_from_map p key include_len pad_to =
    (if length (adv_stack p) + length xs \<le> MAX_ADVICE_STACK_SIZE then Inr (p\<lparr>adv_stack := xs @ adv_stack p\<rparr>)
     else Inl (StackSizeExceeded (length xs) MAX_ADVICE_STACK_SIZE))"
proof -
  have "map_padding (length values) pad_to = (if pad_to = 0 then 0 else k)"
    using assms(3) least_padding [of pad_to "length values"] by (simp add: map_padding_def)
  then show ?thesis
    using push_from_map_eq [OF assms(1,2), of include_len pad_to] assms(4) by (simp add: extend_stack_eq)
qed

theorem push_from_map_layout_witness:
  "push_from_map \<lparr>adv_stack = [9], adv_map = [EMPTY_WORD \<mapsto> [5, 6, 7]], adv_store = (), adv_pc_requests = []\<rparr>
     EMPTY_WORD False 2 =
   Inr \<lparr>adv_stack = [5, 6, 7, 0, 9], adv_map = [EMPTY_WORD \<mapsto> [5, 6, 7]], adv_store = (), adv_pc_requests = []\<rparr>"
proof -
  let ?p = "\<lparr>adv_stack = [9], adv_map = [EMPTY_WORD \<mapsto> [5, 6, 7]], adv_store = (), adv_pc_requests = []\<rparr>"
  have k: "1 = (LEAST k. unat (2 :: 8 word) dvd length [5 :: felt, 6, 7] + k)"
  proof (rule Least_equality [symmetric])
    show "1 \<le> y" if "unat (2 :: 8 word) dvd length [5 :: felt, 6, 7] + y" for y
      using that by (cases y) simp_all
  qed simp
  have xs: "[5, 6, 7, 0] = (if False then [felt_from_u64 (of_nat (length [5 :: felt, 6, 7]))] else []) @ [5, 6, 7] @
      replicate (if (2 :: 8 word) = 0 then 0 else 1) 0" by simp
  show ?thesis
    using push_from_map_layout [OF _ _ k xs, of ?p EMPTY_WORD] by (simp add: MAX_ADVICE_STACK_SIZE_def)
qed

end
