(* ===== verification/Program_Types.thy ===== *)
theory Program_Types
  imports Vm_Errors "HOL-Library.List_Lexorder" "HOL-Library.Multiset"
begin

text \<open>
  The values a program run starts from and ends with: stack inputs and outputs
  (\<open>core/src/program/stack\<close>), the kernel, an ordered set of procedure hashes
  (\<open>core/src/program/kernel.rs\<close>), and the execution options (\<open>processor/src/execution_options.rs\<close>).
  The byte encoding of words, by which the kernel orders its hashes, comes from a package outside the
  repository and is an argument of the constructor.
\<close>

section \<open>Stack inputs and outputs\<close>

definition MIN_STACK_DEPTH :: nat where
  "MIN_STACK_DEPTH = 16"

text \<open>An error carries the permitted and the actual number of values.\<close>

definition stack_inputs_new :: "felt list \<Rightarrow> (nat \<times> nat) + felt list" where
  "stack_inputs_new values =
     (if length values > MIN_STACK_DEPTH then Inl (MIN_STACK_DEPTH, length values)
      else Inr (values @ replicate (MIN_STACK_DEPTH - length values) 0))"

definition stack_outputs_new :: "felt list \<Rightarrow> (nat \<times> nat) + felt list" where
  "stack_outputs_new values =
     (if length values > MIN_STACK_DEPTH then Inl (MIN_STACK_DEPTH, length values)
      else Inr (values @ replicate (MIN_STACK_DEPTH - length values) 0))"

definition outputs_get_element :: "felt list \<Rightarrow> nat \<Rightarrow> felt option" where
  "outputs_get_element elements idx = (if idx < length elements then Some (elements ! idx) else None)"

definition outputs_get_word :: "felt list \<Rightarrow> nat \<Rightarrow> fword option" where
  "outputs_get_word elements idx =
     (if idx > MIN_STACK_DEPTH - 4 then None
      else Some (FWord (elements ! idx) (elements ! (idx + 1)) (elements ! (idx + 2)) (elements ! (idx + 3))))"

definition get_num_elements :: "felt list \<Rightarrow> nat \<Rightarrow> felt list" where
  "get_num_elements elements num_outputs = take (min (length elements) num_outputs) elements"

fun num_trailing_zeros :: "felt list \<Rightarrow> nat" where
  "num_trailing_zeros [] = 0"
| "num_trailing_zeros (v # vs) = (if as_canonical_u64 v = 0 then 1 + num_trailing_zeros vs else 0)"

definition get_num_stack_values :: "felt list \<Rightarrow> 8 word" where
  "get_num_stack_values values = of_nat (MIN_STACK_DEPTH - num_trailing_zeros (rev values))"

section \<open>Kernel\<close>

datatype kernel_error = DuplicatedProcedures | TooManyProcedures nat nat

definition MAX_NUM_PROCEDURES :: nat where
  "MAX_NUM_PROCEDURES = 255"

fun adjacent_equal :: "'a list \<Rightarrow> bool" where
  "adjacent_equal (x # y # xs) = (x = y \<or> adjacent_equal (y # xs))"
| "adjacent_equal _ = False"

definition kernel_from_hashes :: "(fword \<Rightarrow> 8 word list) \<Rightarrow> fword list \<Rightarrow> kernel_error + fword list" where
  "kernel_from_hashes as_bytes hashes =
     (if length hashes > MAX_NUM_PROCEDURES then Inl (TooManyProcedures MAX_NUM_PROCEDURES (length hashes))
      else let hashes = sort_key as_bytes hashes in
        if adjacent_equal hashes then Inl DuplicatedProcedures else Inr hashes)"

definition contains_proc :: "fword list \<Rightarrow> fword \<Rightarrow> bool" where
  "contains_proc hashes proc_hash = (proc_hash \<in> set hashes)"

section \<open>Execution options\<close>

record execution_options =
  max_cycles :: u32
  expected_cycles :: u32
  core_trace_fragment_size :: nat
  enable_tracing :: bool
  enable_debugging :: bool
  max_adv_map_value_size :: nat
  max_hash_len_bytes :: nat
  max_num_continuations :: nat

text \<open>\<open>CyclesOverflow\<close> stands for the overflow of \<open>u32::next_power_of_two\<close>, a panic in builds with overflow
  checks.\<close>

datatype options_error =
    MaxCycleNumTooBig u32 u32
  | MaxCycleNumTooSmall u32 nat
  | ExpectedCyclesTooBig u32 u32
  | CoreTraceFragmentSizeTooSmall
  | CyclesOverflow

definition MAX_CYCLES :: u32 where
  "MAX_CYCLES = push_bit 29 1"

definition MIN_TRACE_LEN :: nat where
  "MIN_TRACE_LEN = 64"

definition DEFAULT_CORE_TRACE_FRAGMENT_SIZE :: nat where
  "DEFAULT_CORE_TRACE_FRAGMENT_SIZE = 4096"

definition DEFAULT_MAX_ADV_MAP_VALUE_SIZE :: nat where
  "DEFAULT_MAX_ADV_MAP_VALUE_SIZE = 2 ^ 17"

definition DEFAULT_MAX_HASH_LEN_BYTES :: nat where
  "DEFAULT_MAX_HASH_LEN_BYTES = 2 ^ 20"

definition DEFAULT_MAX_NUM_CONTINUATIONS :: nat where
  "DEFAULT_MAX_NUM_CONTINUATIONS = 2 ^ 16"

definition default_options :: execution_options where
  "default_options = \<lparr>max_cycles = MAX_CYCLES, expected_cycles = of_nat MIN_TRACE_LEN,
     core_trace_fragment_size = DEFAULT_CORE_TRACE_FRAGMENT_SIZE, enable_tracing = False,
     enable_debugging = False, max_adv_map_value_size = DEFAULT_MAX_ADV_MAP_VALUE_SIZE,
     max_hash_len_bytes = DEFAULT_MAX_HASH_LEN_BYTES,
     max_num_continuations = DEFAULT_MAX_NUM_CONTINUATIONS\<rparr>"

text \<open>\<open>u32::next_power_of_two\<close>, by trying the exponents from the bottom.\<close>

fun power_from :: "nat \<Rightarrow> nat \<Rightarrow> nat \<Rightarrow> nat option" where
  "power_from 0 k n = None"
| "power_from (Suc fuel) k n = (if n \<le> 2 ^ k then Some (2 ^ k) else power_from fuel (k + 1) n)"

definition next_power_of_two :: "u32 \<Rightarrow> u32 option" where
  "next_power_of_two n = map_option of_nat (power_from 32 0 (unat n))"

definition validated_max_cycles :: "u32 option \<Rightarrow> options_error + u32" where
  "validated_max_cycles mc = (case mc of
      Some mc \<Rightarrow>
        if mc > MAX_CYCLES then Inl (MaxCycleNumTooBig mc MAX_CYCLES)
        else if mc < of_nat MIN_TRACE_LEN then Inl (MaxCycleNumTooSmall mc MIN_TRACE_LEN)
        else Inr mc
    | None \<Rightarrow> Inr MAX_CYCLES)"

definition execution_options_new ::
    "u32 option \<Rightarrow> u32 \<Rightarrow> nat \<Rightarrow> bool \<Rightarrow> bool \<Rightarrow> options_error + execution_options" where
  "execution_options_new mc ec fragment tracing debugging =
     res_bind (validated_max_cycles mc) (\<lambda>mc.
     res_bind (ok_or (next_power_of_two ec) CyclesOverflow) (\<lambda>ec.
     let ec = max ec (of_nat MIN_TRACE_LEN) in
     if mc < ec then Inl (ExpectedCyclesTooBig mc ec)
     else if fragment = 0 then Inl CoreTraceFragmentSizeTooSmall
     else Inr \<lparr>max_cycles = mc, expected_cycles = ec, core_trace_fragment_size = fragment,
       enable_tracing = tracing, enable_debugging = debugging,
       max_adv_map_value_size = DEFAULT_MAX_ADV_MAP_VALUE_SIZE,
       max_hash_len_bytes = DEFAULT_MAX_HASH_LEN_BYTES,
       max_num_continuations = DEFAULT_MAX_NUM_CONTINUATIONS\<rparr>))"

definition with_core_trace_fragment_size :: "execution_options \<Rightarrow> nat \<Rightarrow> options_error + execution_options" where
  "with_core_trace_fragment_size opts n =
     (if n = 0 then Inl CoreTraceFragmentSizeTooSmall else Inr (opts\<lparr>core_trace_fragment_size := n\<rparr>))"

section \<open>Lemmas\<close>

lemma adjacent_equal_sorted:
  assumes "sorted (map f xs)" "inj f"
  shows "adjacent_equal xs \<longleftrightarrow> \<not> distinct xs"
  using assms(1)
proof (induction xs rule: adjacent_equal.induct)
  case (1 x y xs)
  have "x \<in> set xs \<longrightarrow> x = y"
  proof
    assume "x \<in> set xs"
    then have "f y \<le> f x" using 1(2) by auto
    moreover have "f x \<le> f y" using 1(2) by simp
    ultimately show "x = y" using assms(2) by (simp add: inj_eq antisym)
  qed
  with 1 show ?case by auto
qed simp_all

lemma kernel_canonical:
  assumes "inj as_bytes" "mset hs = mset hs'"
  shows "sort_key as_bytes hs = sort_key as_bytes hs'"
proof (rule properties_for_sort_key)
  have eq: "(\<lambda>x. as_bytes k = as_bytes x) = (=) k" for k using assms(1) by (auto simp: inj_def)
  show "filter (\<lambda>x. as_bytes k = as_bytes x) (sort_key as_bytes hs') = filter (\<lambda>x. as_bytes k = as_bytes x) hs" for k
    unfolding eq replicate_count_mset_eq_filter_eq [symmetric] using assms(2) by simp
qed (use assms(2) in simp_all)

lemma power_from_spec:
  assumes "power_from fuel k n = Some v"
  shows "n \<le> v \<and> (\<exists>j. v = 2 ^ j \<and> k \<le> j \<and> j < k + fuel) \<and> (v = 2 ^ k \<or> v < 2 * n)"
  using assms
proof (induction fuel k n rule: power_from.induct)
  case (2 fuel k n)
  show ?case
  proof (cases "n \<le> 2 ^ k")
    case False
    with 2 have IH: "n \<le> v" "\<exists>j. v = 2 ^ j \<and> k + 1 \<le> j \<and> j < k + 1 + fuel" "v = 2 ^ (k + 1) \<or> v < 2 * n" by auto
    from IH(3) False have "v < 2 * n" by auto
    with IH(1,2) show ?thesis by auto
  qed (use 2 in auto)
qed simp

lemma power_from_None: "power_from fuel k n = None \<Longrightarrow> fuel = 0 \<or> 2 ^ (k + fuel - 1) < n"
proof (induction fuel k n rule: power_from.induct)
  case (2 fuel k n)
  then show ?case by (cases "fuel = 0") (auto split: if_splits)
qed simp

lemma next_power_of_two_spec:
  "next_power_of_two n = Some v \<Longrightarrow> unat n \<le> unat v \<and> (\<exists>j < 32. unat v = 2 ^ j) \<and> (unat v = 1 \<or> unat v < 2 * unat n)"
  "next_power_of_two n = None \<longleftrightarrow> 2 ^ 31 < unat n"
proof -
  have S: "unat n \<le> unat v \<and> (\<exists>j < 32. unat v = 2 ^ j) \<and> (unat v = 1 \<or> unat v < 2 * unat n)"
    if some: "next_power_of_two n = Some v" for v
  proof -
    obtain w where w: "power_from 32 0 (unat n) = Some w" "v = of_nat w"
      using some unfolding next_power_of_two_def map_option_eq_Some by blast
    note P = power_from_spec [OF w(1)]
    then obtain j where j: "w = 2 ^ j" "j < 32" by auto
    have "w < 2 ^ 32" unfolding j(1) by (rule power_strict_increasing [OF j(2)]) simp
    then have "unat v = w" by (simp add: w(2) unat_of_nat)
    with P j show ?thesis by auto
  qed
  then show "next_power_of_two n = Some v \<Longrightarrow> unat n \<le> unat v \<and> (\<exists>j < 32. unat v = 2 ^ j) \<and> (unat v = 1 \<or> unat v < 2 * unat n)"
    by blast
  show "next_power_of_two n = None \<longleftrightarrow> 2 ^ 31 < unat n"
  proof
    show "2 ^ 31 < unat n" if "next_power_of_two n = None"
      using that power_from_None [of 32 0 "unat n"] by (simp add: next_power_of_two_def)
    show "next_power_of_two n = None" if big: "2 ^ 31 < unat n"
    proof (rule ccontr)
      assume "next_power_of_two n \<noteq> None"
      then obtain v where "next_power_of_two n = Some v" by blast
      with S obtain j where j: "unat n \<le> 2 ^ j" "j < 32" by metis
      then have "(2::nat) ^ j \<le> 2 ^ 31" by (intro power_increasing) simp_all
      with big j(1) show False by linarith
    qed
  qed
qed

lemma numeral_64_eq_power: "(64::nat) = 2 ^ 6"
  by simp

section \<open>Properties\<close>

text \<open>C26. When the byte encoding of words is injective, a kernel is built exactly from at most 255 pairwise different
  hashes; it contains just these hashes, in an order that does not depend on the order they were given in.
  Duplicates and too many hashes are reported.\<close>

theorem kernel_construction:
  assumes "inj as_bytes"
  shows "case kernel_from_hashes as_bytes hashes of
      Inr kn \<Rightarrow> length hashes \<le> 255 \<and> distinct hashes \<and> set kn = set hashes \<and> length kn = length hashes \<and>
        (\<forall>h. contains_proc kn h = (h \<in> set hashes)) \<and>
        (\<forall>other. mset other = mset hashes \<longrightarrow> kernel_from_hashes as_bytes other = Inr kn)
    | Inl DuplicatedProcedures \<Rightarrow> length hashes \<le> 255 \<and> \<not> distinct hashes
    | Inl (TooManyProcedures allowed given) \<Rightarrow> allowed = 255 \<and> given = length hashes \<and> 255 < length hashes"
proof -
  have adj: "adjacent_equal (sort_key as_bytes hashes) \<longleftrightarrow> \<not> distinct hashes"
    by (subst adjacent_equal_sorted [OF sorted_sort_key assms]) simp
  show ?thesis
  proof (cases "length hashes \<le> 255 \<and> distinct hashes")
    case True
    have "kernel_from_hashes as_bytes other = Inr (sort_key as_bytes hashes)" if "mset other = mset hashes" for other
      using kernel_canonical [OF assms that] mset_eq_length [OF that] True adj
      by (simp add: kernel_from_hashes_def MAX_NUM_PROCEDURES_def)
    from this [OF refl] this True show ?thesis by (simp add: contains_proc_def)
  qed (auto simp: kernel_from_hashes_def MAX_NUM_PROCEDURES_def adj Let_def)
qed

definition felt_bytes :: "felt \<Rightarrow> 8 word list" where
  "felt_bytes x = map (\<lambda>i. ucast (drop_bit (8 * i) (as_canonical_u64 x))) [7, 6, 5, 4, 3, 2, 1, 0]"

definition word_bytes :: "fword \<Rightarrow> 8 word list" where
  "word_bytes w = felt_bytes (w0 w) @ felt_bytes (w1 w) @ felt_bytes (w2 w) @ felt_bytes (w3 w)"

lemma felt_bytes_inj: "felt_bytes x = felt_bytes y \<Longrightarrow> x = y"
proof -
  assume eq: "felt_bytes x = felt_bytes y"
  have byte: "ucast (drop_bit (8 * i) (as_canonical_u64 x)) = (ucast (drop_bit (8 * i) (as_canonical_u64 y)) :: 8 word)"
    if "i < 8" for i
    using that eq by (auto simp: felt_bytes_def less_Suc_eq eval_nat_numeral)
  have "bit (as_canonical_u64 x) n = bit (as_canonical_u64 y) n" if "n < 64" for n
  proof -
    have "n div 8 < 8" using that by linarith
    from arg_cong [OF byte [OF this], of "\<lambda>w. bit w (n mod 8)"] show ?thesis
      by (simp add: bit_ucast_iff bit_drop_bit_eq)
  qed
  then have "as_canonical_u64 x = as_canonical_u64 y"
    by (intro bit_word_eqI) simp
  then show "x = y" by simp
qed

lemma word_bytes_inj: "inj word_bytes"
proof (rule injI)
  fix v w assume "word_bytes v = word_bytes w"
  moreover have "length (felt_bytes x) = 8" for x by (simp add: felt_bytes_def)
  ultimately have "felt_bytes (w0 v) = felt_bytes (w0 w)" "felt_bytes (w1 v) = felt_bytes (w1 w)"
      "felt_bytes (w2 v) = felt_bytes (w2 w)" "felt_bytes (w3 v) = felt_bytes (w3 w)"
    by (auto simp: word_bytes_def)
  then show "v = w" by (auto intro!: fword.expand dest!: felt_bytes_inj)
qed

theorem kernel_construction_witness:
  "inj word_bytes \<and> kernel_from_hashes word_bytes [FWord 2 0 0 0, FWord 1 0 0 0] = kernel_from_hashes word_bytes [FWord 1 0 0 0, FWord 2 0 0 0] \<and>
   kernel_from_hashes word_bytes [FWord 1 0 0 0, FWord 1 0 0 0] = Inl DuplicatedProcedures"
proof -
  have "\<exists>kn. kernel_from_hashes word_bytes [FWord 1 0 0 0, FWord 2 0 0 0] = Inr kn"
    using kernel_construction [OF word_bytes_inj, of "[FWord 1 0 0 0, FWord 2 0 0 0]"]
    by (auto split: sum.splits kernel_error.splits)
  moreover have "kernel_from_hashes word_bytes [FWord 1 0 0 0, FWord 1 0 0 0] = Inl DuplicatedProcedures"
    using kernel_construction [OF word_bytes_inj, of "[FWord 1 0 0 0, FWord 1 0 0 0]"]
    by (auto split: sum.splits kernel_error.splits)
  ultimately show ?thesis
    using kernel_construction [OF word_bytes_inj, of "[FWord 1 0 0 0, FWord 2 0 0 0]"] word_bytes_inj
    by (auto split: sum.splits)
qed


end
