(* ===== verification/Processor.thy ===== *)
theory Processor
  imports Memory Advice Program_Types
begin

text \<open>
  The traits of \<open>processor/src/processor.rs\<close> over which the operation handlers and the execution
  engine are generic.  A Rust trait is a record of functions on the state type \<open>'s\<close> (a dictionary);
  generic code takes the dictionary as its first argument.  The methods of \<open>Processor\<close> that run
  decorators are modelled with the execution engine, in theory \<open>Engine\<close>.

  What the callers of the traits rely on is stated by locales, one per trait, against the abstract
  machine state \<open>vm\<close>: the operand stack is a stream that continues with zeros below its depth.
  \<open>processor_laws\<close> combines them; a dictionary that satisfies it may be used by every handler.
\<close>

section \<open>The traits\<close>

record 's system_interface =
  caller_hash :: "'s \<Rightarrow> fword"
  clock :: "'s \<Rightarrow> u32"
  ctx :: "'s \<Rightarrow> ctx_id"
  set_caller_hash :: "'s \<Rightarrow> fword \<Rightarrow> 's"
  set_ctx :: "'s \<Rightarrow> ctx_id \<Rightarrow> 's"
  increment_clock :: "'s \<Rightarrow> 's"

record 's stack_interface = "'s system_interface" +
  get :: "'s \<Rightarrow> nat \<Rightarrow> felt res"
  get_word :: "'s \<Rightarrow> nat \<Rightarrow> fword res"
  depth :: "'s \<Rightarrow> u32 res"
  set_at :: "'s \<Rightarrow> nat \<Rightarrow> felt \<Rightarrow> 's res"
  set_word :: "'s \<Rightarrow> nat \<Rightarrow> fword \<Rightarrow> 's res"
  swap :: "'s \<Rightarrow> nat \<Rightarrow> nat \<Rightarrow> 's res"
  swapw_nth :: "'s \<Rightarrow> nat \<Rightarrow> 's res"
  rotate_left :: "'s \<Rightarrow> nat \<Rightarrow> 's res"
  rotate_right :: "'s \<Rightarrow> nat \<Rightarrow> 's res"
  increment_size :: "'s \<Rightarrow> 's res"
  decrement_size :: "'s \<Rightarrow> 's res"

record 's memory_interface = "'s stack_interface" +
  read_element :: "'s \<Rightarrow> ctx_id \<Rightarrow> felt \<Rightarrow> memory_error + felt \<times> 's"
  read_word :: "'s \<Rightarrow> ctx_id \<Rightarrow> felt \<Rightarrow> u32 \<Rightarrow> memory_error + fword \<times> 's"
  write_element :: "'s \<Rightarrow> ctx_id \<Rightarrow> felt \<Rightarrow> felt \<Rightarrow> memory_error + 's"
  write_word :: "'s \<Rightarrow> ctx_id \<Rightarrow> felt \<Rightarrow> u32 \<Rightarrow> fword \<Rightarrow> memory_error + 's"

record ('s, 'q) advice_interface = "'s memory_interface" +
  pop_stack :: "'s \<Rightarrow> advice_error + felt \<times> 's"
  pop_stack_word :: "'s \<Rightarrow> advice_error + fword \<times> 's"
  pop_stack_dword :: "'s \<Rightarrow> advice_error + (fword \<times> fword) \<times> 's"
  get_merkle_path :: "'s \<Rightarrow> fword \<Rightarrow> felt \<Rightarrow> felt \<Rightarrow> advice_error + 'q option"
  update_merkle_node :: "'s \<Rightarrow> fword \<Rightarrow> felt \<Rightarrow> felt \<Rightarrow> fword \<Rightarrow> advice_error + 'q option \<times> 's"

record ('s, 'q) hasher_interface = "('s, 'q) advice_interface" +
  permute :: "'s \<Rightarrow> hasher_state \<Rightarrow> (hasher_state \<times> 's) res"
  verify_merkle_root ::
    "'s \<Rightarrow> fword \<Rightarrow> fword \<Rightarrow> 'q option \<Rightarrow> felt \<Rightarrow> operation_error \<Rightarrow> 's res"
  update_merkle_root ::
    "'s \<Rightarrow> fword \<Rightarrow> fword \<Rightarrow> fword \<Rightarrow> 'q option \<Rightarrow> felt \<Rightarrow> operation_error \<Rightarrow> (fword \<times> 's) res"

record ('s, 'q) processor = "('s, 'q) hasher_interface" +
  save_context_and_truncate_stack :: "'s \<Rightarrow> 's res"
  restore_context :: "'s \<Rightarrow> 's res"
  precompile_transcript_state :: "'s \<Rightarrow> fword"
  set_precompile_transcript_state :: "'s \<Rightarrow> fword \<Rightarrow> 's"

text \<open>\<open>StackInterface::get_double_word\<close> is a provided method of the trait.\<close>

definition get_double_word :: "('s, 'q) processor \<Rightarrow> 's \<Rightarrow> nat \<Rightarrow> (fword \<times> fword) res" where
  "get_double_word P s i =
     res_bind (get P s i) (\<lambda>a. res_bind (get P s (i + 1)) (\<lambda>b.
     res_bind (get P s (i + 2)) (\<lambda>c. res_bind (get P s (i + 3)) (\<lambda>d.
     res_bind (get P s (i + 4)) (\<lambda>e. res_bind (get P s (i + 5)) (\<lambda>f.
     res_bind (get P s (i + 6)) (\<lambda>g. res_bind (get P s (i + 7)) (\<lambda>h.
     Inr (FWord a b c d, FWord e f g h)))))))))"

section \<open>The abstract machine state\<close>

text \<open>A frame of a suspended context: the elements below the top sixteen and their number, the
  context and the caller hash to return to.\<close>

record frame =
  fr_rest :: "felt stream"
  fr_count :: nat
  fr_ctx :: ctx_id
  fr_hash :: fword

record 'm vm =
  v_stack :: "felt stream"
  v_depth :: nat
  v_clk :: u32
  v_ctx :: ctx_id
  v_caller :: fword
  v_mem :: memory
  v_adv :: "'m advice_provider"
  v_calls :: "frame list"
  v_transcript :: fword
  v_options :: execution_options

definition vpush :: "felt \<Rightarrow> 'm vm \<Rightarrow> 'm vm" where
  "vpush x \<sigma> = \<sigma>\<lparr>v_stack := x ## v_stack \<sigma>, v_depth := v_depth \<sigma> + 1\<rparr>"

definition vpop :: "'m vm \<Rightarrow> 'm vm" where
  "vpop \<sigma> = \<sigma>\<lparr>v_stack := stl (v_stack \<sigma>), v_depth := max 16 (v_depth \<sigma> - 1)\<rparr>"

text \<open>New contents of the operand stack with the depth kept, grown or shrunk by one.\<close>

definition vkeep :: "felt stream \<Rightarrow> 'm vm \<Rightarrow> 'm vm" where
  "vkeep s \<sigma> = \<sigma>\<lparr>v_stack := s\<rparr>"

definition vgrow :: "felt stream \<Rightarrow> 'm vm \<Rightarrow> 'm vm" where
  "vgrow s \<sigma> = \<sigma>\<lparr>v_stack := s, v_depth := v_depth \<sigma> + 1\<rparr>"

definition vshrink :: "felt stream \<Rightarrow> 'm vm \<Rightarrow> 'm vm" where
  "vshrink s \<sigma> = \<sigma>\<lparr>v_stack := s, v_depth := max 16 (v_depth \<sigma> - 1)\<rparr>"

definition vset :: "nat \<Rightarrow> felt \<Rightarrow> 'm vm \<Rightarrow> 'm vm" where
  "vset i x \<sigma> = \<sigma>\<lparr>v_stack := supd i x (v_stack \<sigma>)\<rparr>"

definition vset_word :: "nat \<Rightarrow> fword \<Rightarrow> 'm vm \<Rightarrow> 'm vm" where
  "vset_word i w \<sigma> = vset i (w0 w) (vset (i + 1) (w1 w) (vset (i + 2) (w2 w) (vset (i + 3) (w3 w) \<sigma>)))"

lemmas vm_defs = vpush_def vpop_def vkeep_def vgrow_def vshrink_def vset_def vset_word_def

definition stack_word :: "felt stream \<Rightarrow> nat \<Rightarrow> fword" where
  "stack_word s i = FWord (s !! i) (s !! (i + 1)) (s !! (i + 2)) (s !! (i + 3))"

text \<open>Exchange of the words at positions 0 and 4n, and rotations of the top n elements.\<close>

definition swap_words :: "nat \<Rightarrow> felt stream \<Rightarrow> felt stream" where
  "swap_words n s = to_stream (\<lambda>i. if i < 4 then s !! (i + 4 * n)
     else if 4 * n \<le> i \<and> i < 4 * n + 4 then s !! (i - 4 * n) else s !! i)"

definition rotl :: "nat \<Rightarrow> felt stream \<Rightarrow> felt stream" where
  "rotl n s = s !! (n - 1) ## (stake (n - 1) s @- sdrop n s)"

definition rotr :: "nat \<Rightarrow> felt stream \<Rightarrow> felt stream" where
  "rotr n s = stake (n - 1) (stl s) @- shd s ## sdrop n s"

lemma snth_shift: "(xs @- s) !! i = (if i < length xs then xs ! i else s !! (i - length xs))"
  by simp

lemma snth_rotl: "1 \<le> n \<Longrightarrow> rotl n s !! i = (if i = 0 then s !! (n - 1) else if i < n then s !! (i - 1) else s !! i)"
  by (cases i) (auto simp: rotl_def snth_shift sdrop_snth)

lemma snth_rotr: "1 \<le> n \<Longrightarrow> rotr n s !! i = (if i < n - 1 then s !! (i + 1) else if i = n - 1 then s !! 0 else s !! i)"
  by (cases "i - (n - 1)") (auto simp: rotr_def snth_shift sdrop_snth intro!: arg_cong [of _ _ "(!!) s"])

definition vsave :: "'m vm \<Rightarrow> 'm vm" where
  "vsave \<sigma> = \<sigma>\<lparr>v_stack := stake 16 (v_stack \<sigma>) @- zeros, v_depth := 16,
     v_calls := \<lparr>fr_rest = sdrop 16 (v_stack \<sigma>), fr_count = v_depth \<sigma> - 16,
                 fr_ctx = v_ctx \<sigma>, fr_hash = v_caller \<sigma>\<rparr> # v_calls \<sigma>\<rparr>"

definition vrestore :: "'m vm \<Rightarrow> 'm vm res" where
  "vrestore \<sigma> =
     (if v_depth \<sigma> > 16 then Inl (OperationErr (InvalidStackDepthOnReturn (v_depth \<sigma>)))
      else case v_calls \<sigma> of
        [] \<Rightarrow> Inl (Panic ''call stack is empty'')
      | fr # frs \<Rightarrow> Inr (\<sigma>\<lparr>v_stack := stake 16 (v_stack \<sigma>) @- fr_rest fr,
          v_depth := 16 + fr_count fr, v_ctx := fr_ctx fr, v_caller := fr_hash fr, v_calls := frs\<rparr>))"

section \<open>Simulation of results\<close>

text \<open>\<open>sim_val\<close> relates results with a value exactly; \<open>yields\<close> says that a call succeeds in a given
  abstract state; \<open>sim\<close> relates the outcome of an operation with the outcome of the abstract machine,
  where the concrete operation may fail in addition when its stack buffer is full.\<close>

definition sim_val :: "('s \<Rightarrow> bool) \<Rightarrow> ('s \<Rightarrow> 'v) \<Rightarrow> 'e + 'a \<times> 's \<Rightarrow> 'e + 'a \<times> 'v \<Rightarrow> bool" where
  "sim_val good view m am = (case m of
      Inl e \<Rightarrow> am = Inl e
    | Inr (x, s) \<Rightarrow> good s \<and> am = Inr (x, view s))"

definition sim_state :: "('s \<Rightarrow> bool) \<Rightarrow> ('s \<Rightarrow> 'v) \<Rightarrow> 'e + 's \<Rightarrow> 'e + 'v \<Rightarrow> bool" where
  "sim_state good view m am = (case m of Inl e \<Rightarrow> am = Inl e | Inr s \<Rightarrow> good s \<and> am = Inr (view s))"

definition sim :: "('s \<Rightarrow> bool) \<Rightarrow> ('s \<Rightarrow> 'v) \<Rightarrow> 's res \<Rightarrow> 'v res \<Rightarrow> bool" where
  "sim good view m am = (case m of
      Inl e \<Rightarrow> am = Inl e \<or> e = stack_overflow
    | Inr s \<Rightarrow> good s \<and> am = Inr (view s))"

definition yields :: "('s \<Rightarrow> bool) \<Rightarrow> ('s \<Rightarrow> 'v) \<Rightarrow> 's res \<Rightarrow> 'v \<Rightarrow> bool" where
  "yields good view m \<sigma> = (\<exists>s. m = Inr s \<and> good s \<and> view s = \<sigma>)"

lemma sim_Inr: "good s \<Longrightarrow> am = Inr (view s) \<Longrightarrow> sim good view (Inr s) am"
  by (simp add: sim_def)

lemma sim_Inl: "am = Inl e \<Longrightarrow> sim good view (Inl e) am"
  by (simp add: sim_def)

lemma sim_bind_yields:
  assumes "yields good view m \<sigma>" "\<And>s. good s \<Longrightarrow> view s = \<sigma> \<Longrightarrow> sim good view (f s) am"
  shows "sim good view (res_bind m f) am"
  using assms by (auto simp: yields_def)

lemma sim_yields: "yields good view m \<sigma> \<Longrightarrow> am = Inr \<sigma> \<Longrightarrow> sim good view m am"
  by (auto simp: yields_def sim_def)

lemma sim_bind:
  assumes "sim good view m am" "\<And>s. good s \<Longrightarrow> m = Inr s \<Longrightarrow> am = Inr (view s) \<Longrightarrow> sim good view (f s) (af (view s))"
  shows "sim good view (res_bind m f) (res_bind am af)"
  using assms by (cases m) (auto simp: sim_def)

lemma sim_bind_val:
  assumes "sim_val good view m am"
    and "\<And>x s. good s \<Longrightarrow> m = Inr (x, s) \<Longrightarrow> am = Inr (x, view s) \<Longrightarrow> sim good view (f (x, s)) (af (x, view s))"
  shows "sim good view (res_bind (res_map_err h m) f) (res_bind (res_map_err h am) af)"
proof (cases m)
  case (Inr y)
  then obtain x s where "m = Inr (x, s)" by (cases y) simp
  with assms show ?thesis by (simp add: sim_val_def)
qed (use assms(1) in \<open>simp add: sim_def sim_val_def\<close>)

lemma sim_bind_state:
  assumes "sim_state good view m am"
    and "\<And>s. good s \<Longrightarrow> m = Inr s \<Longrightarrow> am = Inr (view s) \<Longrightarrow> sim good view (f s) (af (view s))"
  shows "sim good view (res_bind (res_map_err h m) f) (res_bind (res_map_err h am) af)"
  using assms by (cases m) (simp_all add: sim_def [of _ _ "Inl _"] sim_state_def)

section \<open>The contracts of the traits\<close>

locale system_laws =
  fixes P :: "('s, 'q) processor" and good :: "'s \<Rightarrow> bool" and view :: "'s \<Rightarrow> 'm vm"
  assumes clock_law: "good s \<Longrightarrow> clock P s = v_clk (view s)"
    and ctx_law: "good s \<Longrightarrow> ctx P s = v_ctx (view s)"
    and caller_hash_law: "good s \<Longrightarrow> caller_hash P s = v_caller (view s)"
    and set_caller_hash_law:
      "good s \<Longrightarrow> good (set_caller_hash P s w) \<and> view (set_caller_hash P s w) = (view s)\<lparr>v_caller := w\<rparr>"
    and set_ctx_law: "good s \<Longrightarrow> good (set_ctx P s c) \<and> view (set_ctx P s c) = (view s)\<lparr>v_ctx := c\<rparr>"
    and increment_clock_law:
      "good s \<Longrightarrow> good (increment_clock P s) \<and> view (increment_clock P s) = (view s)\<lparr>v_clk := v_clk (view s) + 1\<rparr>"
begin

lemmas system_simps = clock_law ctx_law caller_hash_law

end

locale stack_laws =
  fixes P :: "('s, 'q) processor" and good :: "'s \<Rightarrow> bool" and view :: "'s \<Rightarrow> 'm vm"
  assumes get_law: "good s \<Longrightarrow> i < 16 \<Longrightarrow> get P s i = Inr (v_stack (view s) !! i)"
    and get_word_law: "good s \<Longrightarrow> i \<le> 12 \<Longrightarrow> get_word P s i = Inr (stack_word (v_stack (view s)) i)"
    and depth_law: "good s \<Longrightarrow> depth P s = Inr (of_nat (v_depth (view s)))"
    and depth_min: "good s \<Longrightarrow> 16 \<le> v_depth (view s)"
    and set_law: "good s \<Longrightarrow> i < 16 \<Longrightarrow> yields good view (set_at P s i x) (vset i x (view s))"
    and set_word_law: "good s \<Longrightarrow> i \<le> 12 \<Longrightarrow> yields good view (set_word P s i w) (vset_word i w (view s))"
    and swap_law: "good s \<Longrightarrow> i < 16 \<Longrightarrow> j < 16 \<Longrightarrow> yields good view (swap P s i j)
        (vset j (v_stack (view s) !! i) (vset i (v_stack (view s) !! j) (view s)))"
    and swapw_nth_law: "good s \<Longrightarrow> 1 \<le> n \<Longrightarrow> n \<le> 3 \<Longrightarrow>
        yields good view (swapw_nth P s n) ((view s)\<lparr>v_stack := swap_words n (v_stack (view s))\<rparr>)"
    and rotate_left_law: "good s \<Longrightarrow> 1 \<le> n \<Longrightarrow> n \<le> 16 \<Longrightarrow>
        yields good view (rotate_left P s n) ((view s)\<lparr>v_stack := rotl n (v_stack (view s))\<rparr>)"
    and rotate_right_law: "good s \<Longrightarrow> 1 \<le> n \<Longrightarrow> n \<le> 16 \<Longrightarrow>
        yields good view (rotate_right P s n) ((view s)\<lparr>v_stack := rotr n (v_stack (view s))\<rparr>)"
    and increment_law: "good s \<Longrightarrow> increment_size P s = Inl stack_overflow \<or>
        (\<exists>g. yields good view (increment_size P s) (vpush g (view s)))"
    and decrement_law: "good s \<Longrightarrow> yields good view (decrement_size P s) (vpop (view s))"
begin

text \<open>A push is an increment followed by a write of the new top element.\<close>

lemma sim_increment:
  assumes "good s" "\<And>s' g. good s' \<Longrightarrow> view s' = vpush g (view s) \<Longrightarrow> sim good view (f s') am"
  shows "sim good view (res_bind (increment_size P s) f) am"
  using increment_law [OF assms(1)] assms(2) by (auto simp: yields_def sim_def)

lemma get_double_word_law:
  "good s \<Longrightarrow> i \<le> 8 \<Longrightarrow>
     get_double_word P s i = Inr (stack_word (v_stack (view s)) i, stack_word (v_stack (view s)) (i + 4))"
  by (simp add: get_double_word_def get_law stack_word_def add_ac)

lemmas sim_set = sim_bind_yields [OF set_law]
lemmas sim_set_tail = sim_yields [OF set_law]
lemmas sim_set_word = sim_bind_yields [OF set_word_law]
lemmas sim_set_word_tail = sim_yields [OF set_word_law]
lemmas sim_swap = sim_bind_yields [OF swap_law]
lemmas sim_swap_tail = sim_yields [OF swap_law]
lemmas sim_decrement = sim_bind_yields [OF decrement_law]
lemmas sim_decrement_tail = sim_yields [OF decrement_law]
lemmas sim_stack_intros = sim_increment sim_decrement sim_set sim_set_word sim_swap
  sim_set_tail sim_set_word_tail sim_swap_tail sim_decrement_tail sim_Inr
lemmas stack_simps = get_law get_word_law depth_law

end

locale memory_laws =
  fixes P :: "('s, 'q) processor" and good :: "'s \<Rightarrow> bool" and view :: "'s \<Rightarrow> 'm vm"
  assumes read_element_law: "good s \<Longrightarrow> sim_val good view (read_element P s c a)
        (res_map (\<lambda>x. (x, view s)) (mem_read_element (v_mem (view s)) c a))"
    and read_word_law: "good s \<Longrightarrow> sim_val good view (read_word P s c a k)
        (res_map (\<lambda>x. (x, view s)) (mem_read_word (v_mem (view s)) c a))"
    and write_element_law: "good s \<Longrightarrow> sim_state good view (write_element P s c a x)
        (res_map (\<lambda>m. (view s)\<lparr>v_mem := m\<rparr>) (mem_write_element (v_mem (view s)) c a x))"
    and write_word_law: "good s \<Longrightarrow> sim_state good view (write_word P s c a k w)
        (res_map (\<lambda>m. (view s)\<lparr>v_mem := m\<rparr>) (mem_write_word (v_mem (view s)) c a w))"
begin

lemma sim_read_element:
  assumes "good s" "v_mem (view s) = \<mu>" "\<And>x s'. good s' \<Longrightarrow> view s' = view s \<Longrightarrow> mem_read_element \<mu> c a = Inr x \<Longrightarrow>
      sim good view (f (x, s')) (af x)"
  shows "sim good view (res_bind (res_map_err h (read_element P s c a)) f)
           (res_bind (res_map_err h (mem_read_element \<mu> c a)) af)"
  using read_element_law [OF assms(1), of c a] assms(2,3)
  by (cases "mem_read_element \<mu> c a") (auto simp: sim_val_def sim_def [of _ _ "Inl _"] split: sum.splits)

lemma sim_read_word:
  assumes "good s" "v_mem (view s) = \<mu>" "\<And>x s'. good s' \<Longrightarrow> view s' = view s \<Longrightarrow> mem_read_word \<mu> c a = Inr x \<Longrightarrow>
      sim good view (f (x, s')) (af x)"
  shows "sim good view (res_bind (res_map_err h (read_word P s c a k)) f)
           (res_bind (res_map_err h (mem_read_word \<mu> c a)) af)"
  using read_word_law [OF assms(1), of c a k] assms(2,3)
  by (cases "mem_read_word \<mu> c a") (auto simp: sim_val_def sim_def [of _ _ "Inl _"] split: sum.splits)

lemma sim_write_element:
  assumes "good s" "v_mem (view s) = \<mu>" "\<And>m s'. good s' \<Longrightarrow> view s' = (view s)\<lparr>v_mem := m\<rparr> \<Longrightarrow>
      mem_write_element \<mu> c a x = Inr m \<Longrightarrow> sim good view (f s') (af m)"
  shows "sim good view (res_bind (res_map_err h (write_element P s c a x)) f)
           (res_bind (res_map_err h (mem_write_element \<mu> c a x)) af)"
  using write_element_law [OF assms(1), of c a x] assms(2,3)
  by (cases "mem_write_element \<mu> c a x") (auto simp: sim_state_def sim_def [of _ _ "Inl _"] split: sum.splits)

lemma sim_write_word:
  assumes "good s" "v_mem (view s) = \<mu>" "\<And>m s'. good s' \<Longrightarrow> view s' = (view s)\<lparr>v_mem := m\<rparr> \<Longrightarrow>
      mem_write_word \<mu> c a x = Inr m \<Longrightarrow> sim good view (f s') (af m)"
  shows "sim good view (res_bind (res_map_err h (write_word P s c a k x)) f)
           (res_bind (res_map_err h (mem_write_word \<mu> c a x)) af)"
  using write_word_law [OF assms(1), of c a k x] assms(2,3)
  by (cases "mem_write_word \<mu> c a x") (auto simp: sim_state_def sim_def [of _ _ "Inl _"] split: sum.splits)

lemmas sim_memory_intros = sim_read_element sim_read_word sim_write_element sim_write_word

end

locale advice_laws =
  fixes X :: "('m, 'q) crypto_lib"
    and P :: "('s, 'q) processor" and good :: "'s \<Rightarrow> bool" and view :: "'s \<Rightarrow> 'm vm"
  assumes pop_stack_law: "good s \<Longrightarrow> sim_val good view (pop_stack P s)
        (res_map (\<lambda>(x, a). (x, (view s)\<lparr>v_adv := a\<rparr>)) (adv_pop_stack (v_adv (view s))))"
    and pop_stack_word_law: "good s \<Longrightarrow> sim_val good view (pop_stack_word P s)
        (res_map (\<lambda>(x, a). (x, (view s)\<lparr>v_adv := a\<rparr>)) (adv_pop_stack_word (v_adv (view s))))"
    and pop_stack_dword_law: "good s \<Longrightarrow> sim_val good view (pop_stack_dword P s)
        (res_map (\<lambda>(x, a). (x, (view s)\<lparr>v_adv := a\<rparr>)) (adv_pop_stack_dword (v_adv (view s))))"
    and get_merkle_path_law: "good s \<Longrightarrow> get_merkle_path P s r d i =
        res_map Some (adv_get_merkle_path X (v_adv (view s)) r d i)"
    and update_merkle_node_law: "good s \<Longrightarrow> sim_val good view (update_merkle_node P s r d i w)
        (res_map (\<lambda>((q, _), a). (Some q, (view s)\<lparr>v_adv := a\<rparr>))
          (adv_update_merkle_node X (v_adv (view s)) r d i w))"
begin

lemma sim_pop_stack:
  assumes "good s" "v_adv (view s) = \<alpha>" "\<And>x a s'. good s' \<Longrightarrow> view s' = (view s)\<lparr>v_adv := a\<rparr> \<Longrightarrow>
      adv_pop_stack \<alpha> = Inr (x, a) \<Longrightarrow> sim good view (f (x, s')) (af (x, a))"
  shows "sim good view (res_bind (res_map_err h (pop_stack P s)) f) (res_bind (res_map_err h (adv_pop_stack \<alpha>)) af)"
  using pop_stack_law [OF assms(1)] assms(2,3)
  by (cases "adv_pop_stack \<alpha>") (auto simp: sim_val_def sim_def [of _ _ "Inl _"] split: sum.splits)

lemma sim_pop_stack_word:
  assumes "good s" "v_adv (view s) = \<alpha>" "\<And>x a s'. good s' \<Longrightarrow> view s' = (view s)\<lparr>v_adv := a\<rparr> \<Longrightarrow>
      adv_pop_stack_word \<alpha> = Inr (x, a) \<Longrightarrow> sim good view (f (x, s')) (af (x, a))"
  shows "sim good view (res_bind (res_map_err h (pop_stack_word P s)) f)
           (res_bind (res_map_err h (adv_pop_stack_word \<alpha>)) af)"
  using pop_stack_word_law [OF assms(1)] assms(2,3)
  by (cases "adv_pop_stack_word \<alpha>") (auto simp: sim_val_def sim_def [of _ _ "Inl _"] split: sum.splits)

lemma sim_pop_stack_dword:
  assumes "good s" "v_adv (view s) = \<alpha>" "\<And>x y a s'. good s' \<Longrightarrow> view s' = (view s)\<lparr>v_adv := a\<rparr> \<Longrightarrow>
      adv_pop_stack_dword \<alpha> = Inr ((x, y), a) \<Longrightarrow> sim good view (f ((x, y), s')) (af ((x, y), a))"
  shows "sim good view (res_bind (res_map_err h (pop_stack_dword P s)) f)
           (res_bind (res_map_err h (adv_pop_stack_dword \<alpha>)) af)"
  using pop_stack_dword_law [OF assms(1)] assms(2,3)
  by (cases "adv_pop_stack_dword \<alpha>") (auto simp: sim_val_def sim_def [of _ _ "Inl _"] split: sum.splits)

lemmas sim_advice_intros = sim_pop_stack sim_pop_stack_word sim_pop_stack_dword

lemma sim_update_merkle_node:
  assumes "good s" "v_adv (view s) = \<alpha>" "\<And>q w' a s'. good s' \<Longrightarrow> view s' = (view s)\<lparr>v_adv := a\<rparr> \<Longrightarrow>
      adv_update_merkle_node X \<alpha> r d i w = Inr ((q, w'), a) \<Longrightarrow>
      sim good view (f (Some q, s')) (af ((q, w'), a))"
  shows "sim good view (res_bind (res_map_err h (update_merkle_node P s r d i w)) f)
           (res_bind (res_map_err h (adv_update_merkle_node X \<alpha> r d i w)) af)"
  using update_merkle_node_law [OF assms(1), of r d i w] assms(2,3)
  by (cases "adv_update_merkle_node X \<alpha> r d i w")
     (auto simp: sim_val_def sim_def [of _ _ "Inl _"] split: sum.splits)

end

text \<open>The hasher applies the permutation of the cryptographic library and checks paths with it.\<close>

definition hash_verify ::
    "('m, 'q) crypto_lib \<Rightarrow> fword \<Rightarrow> fword \<Rightarrow> 'q \<Rightarrow> felt \<Rightarrow> operation_error \<Rightarrow> unit res" where
  "hash_verify X root v q i err =
     (if path_verify X q (as_canonical_u64 i) v root then Inr () else Inl (OperationErr err))"

definition hash_update ::
    "('m, 'q) crypto_lib \<Rightarrow> fword \<Rightarrow> fword \<Rightarrow> fword \<Rightarrow> 'q \<Rightarrow> felt \<Rightarrow> operation_error \<Rightarrow> fword res" where
  "hash_update X root old new q i err =
     (if path_verify X q (as_canonical_u64 i) old root
      then res_map_err (\<lambda>_. OperationErr err) (path_compute_root X q (as_canonical_u64 i) new)
      else Inl (OperationErr err))"

locale hasher_laws =
  fixes X :: "('m, 'q) crypto_lib"
    and P :: "('s, 'q) processor" and good :: "'s \<Rightarrow> bool" and view :: "'s \<Rightarrow> 'm vm"
  assumes permute_law: "good s \<Longrightarrow> \<exists>s'. permute P s h = Inr (apply_permutation X h, s') \<and> good s' \<and> view s' = view s"
    and verify_merkle_root_law: "good s \<Longrightarrow> sim_state good view (verify_merkle_root P s r w (Some q) i err)
        (res_map (\<lambda>_. view s) (hash_verify X r w q i err))"
    and update_merkle_root_law: "good s \<Longrightarrow> sim_val good view (update_merkle_root P s r w w' (Some q) i err)
        (res_map (\<lambda>x. (x, view s)) (hash_update X r w w' q i err))"
begin

lemma sim_permute:
  assumes "good s" "\<And>s'. good s' \<Longrightarrow> view s' = view s \<Longrightarrow> sim good view (f (apply_permutation X h, s')) am"
  shows "sim good view (res_bind (permute P s h) f) am"
  using permute_law [OF assms(1), of h] assms(2) by auto

lemma sim_verify_merkle_root:
  assumes "good s" "\<And>s'. good s' \<Longrightarrow> view s' = view s \<Longrightarrow> sim good view (f s') am"
  shows "sim good view (res_bind (verify_merkle_root P s r w (Some q) i err) f)
           (res_bind (hash_verify X r w q i err) (\<lambda>_. am))"
  using verify_merkle_root_law [OF assms(1), of r w q i err] assms(2)
  by (cases "hash_verify X r w q i err") (auto simp: sim_state_def sim_def [of _ _ "Inl _"] split: sum.splits)

lemma sim_update_merkle_root:
  assumes "good s" "\<And>x s'. good s' \<Longrightarrow> view s' = view s \<Longrightarrow> hash_update X r w w' q i err = Inr x \<Longrightarrow>
      sim good view (f (x, s')) (af x)"
  shows "sim good view (res_bind (update_merkle_root P s r w w' (Some q) i err) f)
           (res_bind (hash_update X r w w' q i err) af)"
  using update_merkle_root_law [OF assms(1), of r w w' q i err] assms(2)
  by (cases "hash_update X r w w' q i err") (auto simp: sim_val_def sim_def [of _ _ "Inl _"] split: sum.splits)

end

locale context_laws =
  fixes P :: "('s, 'q) processor" and good :: "'s \<Rightarrow> bool" and view :: "'s \<Rightarrow> 'm vm"
  assumes save_law: "good s \<Longrightarrow> yields good view (save_context_and_truncate_stack P s) (vsave (view s))"
    and restore_law: "good s \<Longrightarrow> sim_state good view (restore_context P s) (vrestore (view s))"
    and transcript_law: "good s \<Longrightarrow> precompile_transcript_state P s = v_transcript (view s)"
    and set_transcript_law: "good s \<Longrightarrow> good (set_precompile_transcript_state P s w) \<and>
        view (set_precompile_transcript_state P s w) = (view s)\<lparr>v_transcript := w\<rparr>"

locale processor_laws =
  system_laws P good view + stack_laws P good view + memory_laws P good view + advice_laws X P good view +
  hasher_laws X P good view + context_laws P good view
  for X :: "('m, 'q) crypto_lib" and P :: "('s, 'q) processor"
    and good :: "'s \<Rightarrow> bool" and view :: "'s \<Rightarrow> 'm vm"

end
