(* ===== verification/Io_Ops.thy ===== *)
theory Io_Ops
  imports Processor
begin

text \<open>
  Memory and advice operations, \<open>processor/src/execution/operations/io_ops/mod.rs\<close>.  The \<open>isa_\<close>
  definitions say what an instruction does to the abstract machine; the \<open>_sim\<close> lemmas show that the
  handlers do exactly that, errors and their order included.
\<close>

section \<open>Model\<close>

definition WORD_SIZE_FELT :: felt where
  "WORD_SIZE_FELT = 4"

definition DOUBLE_WORD_SIZE :: felt where
  "DOUBLE_WORD_SIZE = 8"

definition op_advpop :: "('s, 'q) processor \<Rightarrow> 's \<Rightarrow> 's res" where
  "op_advpop P s =
     res_bind (res_map_err AdviceErr (pop_stack P s)) (\<lambda>(value, s).
     res_bind (increment_size P s) (\<lambda>s.
     set_at P s 0 value))"

definition op_advpopw :: "('s, 'q) processor \<Rightarrow> 's \<Rightarrow> 's res" where
  "op_advpopw P s =
     res_bind (res_map_err AdviceErr (pop_stack_word P s)) (\<lambda>(word, s).
     set_word P s 0 word)"

definition op_mloadw :: "('s, 'q) processor \<Rightarrow> 's \<Rightarrow> 's res" where
  "op_mloadw P s =
     res_bind (get P s 0) (\<lambda>addr.
     let c = ctx P s; clk = clock P s in
     res_bind (decrement_size P s) (\<lambda>s.
     res_bind (res_map_err MemoryErr (read_word P s c addr clk)) (\<lambda>(word, s).
     set_word P s 0 word)))"

definition op_mstorew :: "('s, 'q) processor \<Rightarrow> 's \<Rightarrow> 's res" where
  "op_mstorew P s =
     res_bind (get P s 0) (\<lambda>addr.
     res_bind (get P s 1) (\<lambda>e0.
     res_bind (get P s 2) (\<lambda>e1.
     res_bind (get P s 3) (\<lambda>e2.
     res_bind (get P s 4) (\<lambda>e3.
     let word = FWord e0 e1 e2 e3; c = ctx P s; clk = clock P s in
     res_bind (decrement_size P s) (\<lambda>s.
     res_bind (res_map_err MemoryErr (write_word P s c addr clk word)) (\<lambda>s.
     Inr s)))))))"

definition op_mload :: "('s, 'q) processor \<Rightarrow> 's \<Rightarrow> 's res" where
  "op_mload P s =
     (let c = ctx P s in
      res_bind (get P s 0) (\<lambda>addr.
      res_bind (res_map_err MemoryErr (read_element P s c addr)) (\<lambda>(element, s).
      set_at P s 0 element)))"

definition op_mstore :: "('s, 'q) processor \<Rightarrow> 's \<Rightarrow> 's res" where
  "op_mstore P s =
     res_bind (get P s 0) (\<lambda>addr.
     res_bind (get P s 1) (\<lambda>value.
     let c = ctx P s in
     res_bind (decrement_size P s) (\<lambda>s.
     res_bind (res_map_err MemoryErr (write_element P s c addr value)) (\<lambda>s.
     Inr s))))"

definition op_mstream :: "('s, 'q) processor \<Rightarrow> 's \<Rightarrow> 's res" where
  "op_mstream P s =
     (let c = ctx P s; clk = clock P s in
      res_bind (get P s 12) (\<lambda>addr_first_word.
      let addr_second_word = addr_first_word + WORD_SIZE_FELT in
      res_bind (res_map_err MemoryErr (read_word P s c addr_first_word clk)) (\<lambda>(first_word, s).
      res_bind (res_map_err MemoryErr (read_word P s c addr_second_word clk)) (\<lambda>(second_word, s).
      res_bind (set_word P s 0 first_word) (\<lambda>s.
      res_bind (set_word P s 4 second_word) (\<lambda>s.
      set_at P s 12 (addr_first_word + DOUBLE_WORD_SIZE)))))))"

definition op_pipe :: "('s, 'q) processor \<Rightarrow> 's \<Rightarrow> 's res" where
  "op_pipe P s =
     (let clk = clock P s; c = ctx P s in
      res_bind (get P s 12) (\<lambda>addr_first_word.
      let addr_second_word = addr_first_word + WORD_SIZE_FELT in
      res_bind (res_map_err AdviceErr (pop_stack_dword P s)) (\<lambda>((word0, word1), s).
      res_bind (res_map_err MemoryErr (write_word P s c addr_first_word clk word0)) (\<lambda>s.
      res_bind (res_map_err MemoryErr (write_word P s c addr_second_word clk word1)) (\<lambda>s.
      res_bind (set_word P s 0 word0) (\<lambda>s.
      res_bind (set_word P s 4 word1) (\<lambda>s.
      set_at P s 12 (addr_first_word + DOUBLE_WORD_SIZE))))))))"

section \<open>The instructions on the abstract machine\<close>

abbreviation mem_res :: "memory_error + 'a \<Rightarrow> 'a res" where
  "mem_res \<equiv> res_map_err MemoryErr"

abbreviation adv_res :: "advice_error + 'a \<Rightarrow> 'a res" where
  "adv_res \<equiv> res_map_err AdviceErr"

definition isa_advpop :: "'m vm \<Rightarrow> 'm vm res" where
  "isa_advpop \<sigma> = res_bind (adv_res (adv_pop_stack (v_adv \<sigma>))) (\<lambda>(x, a).
     Inr (vpush x (\<sigma>\<lparr>v_adv := a\<rparr>)))"

definition isa_advpopw :: "'m vm \<Rightarrow> 'm vm res" where
  "isa_advpopw \<sigma> = res_bind (adv_res (adv_pop_stack_word (v_adv \<sigma>))) (\<lambda>(w, a).
     Inr (vset_word 0 w (\<sigma>\<lparr>v_adv := a\<rparr>)))"

definition isa_mloadw :: "'m vm \<Rightarrow> 'm vm res" where
  "isa_mloadw \<sigma> = res_bind (mem_res (mem_read_word (v_mem \<sigma>) (v_ctx \<sigma>) (v_stack \<sigma> !! 0))) (\<lambda>w.
     Inr (vset_word 0 w (vpop \<sigma>)))"

definition isa_mstorew :: "'m vm \<Rightarrow> 'm vm res" where
  "isa_mstorew \<sigma> =
     res_bind (mem_res (mem_write_word (v_mem \<sigma>) (v_ctx \<sigma>) (v_stack \<sigma> !! 0) (stack_word (v_stack \<sigma>) 1))) (\<lambda>m.
     Inr ((vpop \<sigma>)\<lparr>v_mem := m\<rparr>))"

definition isa_mload :: "'m vm \<Rightarrow> 'm vm res" where
  "isa_mload \<sigma> = res_bind (mem_res (mem_read_element (v_mem \<sigma>) (v_ctx \<sigma>) (v_stack \<sigma> !! 0))) (\<lambda>x.
     Inr (vset 0 x \<sigma>))"

definition isa_mstore :: "'m vm \<Rightarrow> 'm vm res" where
  "isa_mstore \<sigma> =
     res_bind (mem_res (mem_write_element (v_mem \<sigma>) (v_ctx \<sigma>) (v_stack \<sigma> !! 0) (v_stack \<sigma> !! 1))) (\<lambda>m.
     Inr ((vpop \<sigma>)\<lparr>v_mem := m\<rparr>))"

definition isa_mstream :: "'m vm \<Rightarrow> 'm vm res" where
  "isa_mstream \<sigma> = (let a = v_stack \<sigma> !! 12 in
     res_bind (mem_res (mem_read_word (v_mem \<sigma>) (v_ctx \<sigma>) a)) (\<lambda>w.
     res_bind (mem_res (mem_read_word (v_mem \<sigma>) (v_ctx \<sigma>) (a + 4))) (\<lambda>w'.
     Inr (vset 12 (a + 8) (vset_word 4 w' (vset_word 0 w \<sigma>))))))"

definition isa_pipe :: "'m vm \<Rightarrow> 'm vm res" where
  "isa_pipe \<sigma> = (let a = v_stack \<sigma> !! 12 in
     res_bind (adv_res (adv_pop_stack_dword (v_adv \<sigma>))) (\<lambda>((w, w'), adv).
     res_bind (mem_res (mem_write_word (v_mem \<sigma>) (v_ctx \<sigma>) a w)) (\<lambda>m.
     res_bind (mem_res (mem_write_word m (v_ctx \<sigma>) (a + 4) w')) (\<lambda>m.
     Inr (vset 12 (a + 8) (vset_word 4 w' (vset_word 0 w (\<sigma>\<lparr>v_adv := adv, v_mem := m\<rparr>))))))))"

declare op_advpop_def [op_defs] and op_advpopw_def [op_defs] and op_mloadw_def [op_defs]
  and op_mstorew_def [op_defs] and op_mload_def [op_defs] and op_mstore_def [op_defs]
  and op_mstream_def [op_defs] and op_pipe_def [op_defs]

declare isa_advpop_def [isa_defs] and isa_advpopw_def [isa_defs] and isa_mloadw_def [isa_defs]
  and isa_mstorew_def [isa_defs] and isa_mload_def [isa_defs] and isa_mstore_def [isa_defs]
  and isa_mstream_def [isa_defs] and isa_pipe_def [isa_defs]

lemmas io_isa_defs = isa_advpop_def isa_advpopw_def isa_mloadw_def isa_mstorew_def isa_mload_def
  isa_mstore_def isa_mstream_def isa_pipe_def

section \<open>Behaviour\<close>

context processor_laws
begin

lemmas machine_intros = sim_stack_intros sim_memory_intros sim_advice_intros sim_Inl
lemmas machine_simps = stack_simps system_simps

lemma op_advpop_sim: "good s \<Longrightarrow> sim good view (op_advpop P s) (isa_advpop (view s))"
  unfolding op_advpop_def isa_advpop_def
  by (auto simp: machine_simps vm_defs intro!: machine_intros)

lemma op_advpopw_sim: "good s \<Longrightarrow> sim good view (op_advpopw P s) (isa_advpopw (view s))"
  unfolding op_advpopw_def isa_advpopw_def
  by (auto simp: machine_simps intro!: machine_intros)

lemma op_mloadw_sim: "good s \<Longrightarrow> sim good view (op_mloadw P s) (isa_mloadw (view s))"
  unfolding op_mloadw_def isa_mloadw_def
  by (auto simp: machine_simps vm_defs stack_word_def Let_def WORD_SIZE_FELT_def DOUBLE_WORD_SIZE_def
      simp del: res_bind_Inr_right intro!: machine_intros)

lemma op_mstorew_sim: "good s \<Longrightarrow> sim good view (op_mstorew P s) (isa_mstorew (view s))"
  unfolding op_mstorew_def isa_mstorew_def
  by (auto simp: machine_simps vm_defs stack_word_def Let_def WORD_SIZE_FELT_def DOUBLE_WORD_SIZE_def
      simp del: res_bind_Inr_right intro!: machine_intros)

lemma op_mload_sim: "good s \<Longrightarrow> sim good view (op_mload P s) (isa_mload (view s))"
  unfolding op_mload_def isa_mload_def
  by (auto simp: machine_simps intro!: machine_intros)

lemma op_mstore_sim: "good s \<Longrightarrow> sim good view (op_mstore P s) (isa_mstore (view s))"
  unfolding op_mstore_def isa_mstore_def
  by (auto simp: machine_simps vm_defs stack_word_def Let_def WORD_SIZE_FELT_def DOUBLE_WORD_SIZE_def
      simp del: res_bind_Inr_right intro!: machine_intros)

lemma op_mstream_sim: "good s \<Longrightarrow> sim good view (op_mstream P s) (isa_mstream (view s))"
  unfolding op_mstream_def isa_mstream_def
  by (auto simp: machine_simps vm_defs stack_word_def Let_def WORD_SIZE_FELT_def DOUBLE_WORD_SIZE_def
      simp del: res_bind_Inr_right intro!: machine_intros)

lemma op_pipe_sim: "good s \<Longrightarrow> sim good view (op_pipe P s) (isa_pipe (view s))"
  unfolding op_pipe_def isa_pipe_def
  by (auto simp: machine_simps vm_defs stack_word_def Let_def WORD_SIZE_FELT_def DOUBLE_WORD_SIZE_def
      simp del: res_bind_Inr_right intro!: machine_intros)

end

end
