(* ===== verification/Quad_Felt.thy ===== *)
theory Quad_Felt
  imports Miden_Prelude
begin

text \<open>
  The quadratic extension \<open>QuadFelt\<close> (\<open>core/src/lib.rs\<close>): pairs of field elements modulo
  \<open>x ^ 2 - 7\<close>, the polynomial the documentation of \<open>Operation::Ext2Mul\<close> names, as a commutative
  ring, and Horner evaluation over it.
\<close>

datatype quad = Quad (q0: felt) (q1: felt)

instantiation quad :: comm_ring_1
begin

definition zero_quad :: quad where
  "0 = Quad 0 0"

definition one_quad :: quad where
  "1 = Quad 1 0"

definition plus_quad :: "quad \<Rightarrow> quad \<Rightarrow> quad" where
  "a + b = Quad (q0 a + q0 b) (q1 a + q1 b)"

definition uminus_quad :: "quad \<Rightarrow> quad" where
  "- a = Quad (- q0 a) (- q1 a)"

definition minus_quad :: "quad \<Rightarrow> quad \<Rightarrow> quad" where
  "a - b = Quad (q0 a - q0 b) (q1 a - q1 b)"

definition times_quad :: "quad \<Rightarrow> quad \<Rightarrow> quad" where
  "a * b = Quad (q0 a * q0 b + 7 * (q1 a * q1 b)) (q0 a * q1 b + q1 a * q0 b)"

lemmas quad_defs = zero_quad_def one_quad_def plus_quad_def uminus_quad_def minus_quad_def times_quad_def

instance
  by standard (auto simp: quad_defs algebra_simps)

end

definition quad_of :: "felt \<Rightarrow> quad" where
  "quad_of x = Quad x 0"

text \<open>Product with an element of the base field.\<close>

definition qscale :: "quad \<Rightarrow> felt \<Rightarrow> quad" where
  "qscale a x = Quad (q0 a * x) (q1 a * x)"

lemma qscale_eq: "qscale a x = a * quad_of x"
  by (simp add: qscale_def quad_of_def times_quad_def)

lemma quad_of_simps [simp]: "quad_of 0 = 0" "quad_of 1 = 1" "quad_of (x + y) = quad_of x + quad_of y"
    "quad_of (x * y) = quad_of x * quad_of y" "quad_of (- x) = - quad_of x" "quad_of (x - y) = quad_of x - quad_of y"
  by (simp_all add: quad_of_def quad_defs)

lemma quad_of_inject [simp]: "quad_of x = quad_of y \<longleftrightarrow> x = y"
  by (simp add: quad_of_def)

section \<open>Horner evaluation\<close>

definition horner_step :: "quad \<Rightarrow> quad \<Rightarrow> quad \<Rightarrow> quad" where
  "horner_step \<alpha> c acc = acc * \<alpha> + c"

definition horner :: "quad \<Rightarrow> quad list \<Rightarrow> quad \<Rightarrow> quad" where
  "horner \<alpha> cs acc = fold (horner_step \<alpha>) cs acc"

text \<open>The value of the polynomial with coefficients \<open>cs\<close>, the leading one first.\<close>

primrec poly_value :: "quad list \<Rightarrow> quad \<Rightarrow> quad" where
  "poly_value [] x = 0"
| "poly_value (c # cs) x = c * x ^ length cs + poly_value cs x"

lemma horner_append: "horner \<alpha> (cs @ ds) acc = horner \<alpha> ds (horner \<alpha> cs acc)"
  by (simp add: horner_def)

lemma horner_poly: "horner \<alpha> cs acc = acc * \<alpha> ^ length cs + poly_value cs \<alpha>"
  by (induction cs arbitrary: acc) (simp_all add: horner_def horner_step_def algebra_simps)

end
