(* ===== verification/Crypto_Ops.thy ===== *)
theory Crypto_Ops
  imports Io_Ops Quad_Felt
begin

text \<open>
  Cryptographic operations, \<open>processor/src/execution/operations/crypto_ops/mod.rs\<close>: the Poseidon2
  permutation, Merkle path checks and updates, Horner evaluation, precompile logging and the stream
  cipher step.  The permutation, Merkle paths and the Merkle store are the parameters of
  \<open>crypto_lib\<close>.  The twelve elements of the hasher state are kept as its three words
  \<open>(RATE0, RATE1, CAPACITY)\<close>, the ranges \<open>STATE_RATE_0_RANGE\<close>, \<open>STATE_RATE_1_RANGE\<close> and
  \<open>STATE_CAP_RANGE\<close>.
\<close>

section \<open>Model\<close>

definition op_hperm :: "('s, 'q) processor \<Rightarrow> 's \<Rightarrow> 's res" where
  "op_hperm P s =
     res_bind (get_double_word P s 0) (\<lambda>(w0, w1).
     res_bind (get_word P s 8) (\<lambda>w2.
     res_bind (permute P s (w0, w1, w2)) (\<lambda>((r0, r1, cap), s).
     res_bind (set_word P s 0 r0) (\<lambda>s.
     res_bind (set_word P s 4 r1) (\<lambda>s.
     set_word P s 8 cap)))))"

definition op_mpverify :: "('s, 'q) processor \<Rightarrow> (felt \<Rightarrow> string option) \<Rightarrow> 's \<Rightarrow> felt \<Rightarrow> 's res" where
  "op_mpverify P resolve_error_message s err_code =
     res_bind (get_word P s 0) (\<lambda>node.
     res_bind (get P s 4) (\<lambda>dep.
     res_bind (get P s 5) (\<lambda>index.
     res_bind (get_word P s 6) (\<lambda>root.
     res_bind (adv_res (get_merkle_path P s root dep index)) (\<lambda>path.
     verify_merkle_root P s root node path index
       (MerklePathVerificationFailed node index root err_code (resolve_error_message err_code)))))))"

definition op_mrupdate :: "('m, 'q) crypto_lib \<Rightarrow> ('s, 'q) processor \<Rightarrow> 's \<Rightarrow> 's res" where
  "op_mrupdate X P s =
     res_bind (get_word P s 0) (\<lambda>old_value.
     res_bind (get P s 4) (\<lambda>dep.
     res_bind (get P s 5) (\<lambda>index.
     res_bind (get_word P s 6) (\<lambda>claimed_old_root.
     res_bind (get_word P s 10) (\<lambda>new_value.
     res_bind (adv_res (update_merkle_node P s claimed_old_root dep index new_value)) (\<lambda>(path, s).
     res_bind (case path of
         Some q \<Rightarrow> if path_len X q \<noteq> unat (as_canonical_u64 dep)
                   then Inl (OperationErr (InvalidMerklePathLength (path_len X q) dep)) else Inr ()
       | None \<Rightarrow> Inr ()) (\<lambda>_.
     res_bind (update_merkle_root P s claimed_old_root old_value new_value path index
         (MerklePathVerificationFailed old_value index claimed_old_root 0 None)) (\<lambda>(new_root, s).
     set_word P s 0 new_root))))))))"

definition op_horner_eval_base :: "('s, 'q) processor \<Rightarrow> 's \<Rightarrow> 's res" where
  "op_horner_eval_base P s =
     (let c = ctx P s in
      res_bind (get P s 13) (\<lambda>addr.
      res_bind (mem_res (read_element P s c addr)) (\<lambda>(eval_point_0, s).
      res_bind (mem_res (read_element P s c (addr + 1))) (\<lambda>(eval_point_1, s).
      let alpha = Quad eval_point_0 eval_point_1 in
      res_bind (get_double_word P s 0) (\<lambda>coef. case coef of (FWord a0 a1 a2 a3, FWord a4 a5 a6 a7) \<Rightarrow>
      let c0 = quad_of a0; c1 = quad_of a1; c2 = quad_of a2; c3 = quad_of a3;
          c4 = quad_of a4; c5 = quad_of a5; c6 = quad_of a6; c7 = quad_of a7 in
      res_bind (get P s 14) (\<lambda>acc_low.
      res_bind (get P s 15) (\<lambda>acc_high.
      let acc = Quad acc_low acc_high;
          tmp0 = (acc * alpha + c0) * alpha + c1;
          tmp1 = ((tmp0 * alpha + c2) * alpha + c3) * alpha + c4;
          acc_new = ((tmp1 * alpha + c5) * alpha + c6) * alpha + c7 in
      res_bind (set_at P s 15 (q1 acc_new)) (\<lambda>s.
      set_at P s 14 (q0 acc_new)))))))))"

definition op_horner_eval_ext :: "('s, 'q) processor \<Rightarrow> 's \<Rightarrow> 's res" where
  "op_horner_eval_ext P s =
     (let clk = clock P s; c = ctx P s in
      res_bind (get P s 0) (\<lambda>lo0. res_bind (get P s 1) (\<lambda>hi0.
      res_bind (get P s 2) (\<lambda>lo1. res_bind (get P s 3) (\<lambda>hi1.
      res_bind (get P s 4) (\<lambda>lo2. res_bind (get P s 5) (\<lambda>hi2.
      res_bind (get P s 6) (\<lambda>lo3. res_bind (get P s 7) (\<lambda>hi3.
      let coef = [Quad lo0 hi0, Quad lo1 hi1, Quad lo2 hi2, Quad lo3 hi3] in
      res_bind (get P s 13) (\<lambda>addr.
      res_bind (mem_res (read_word P s c addr clk)) (\<lambda>(word, s).
      let alpha = Quad (w0 word) (w1 word) in
      res_bind (get P s 14) (\<lambda>acc_low.
      res_bind (get P s 15) (\<lambda>acc_high.
      let acc_old = Quad acc_low acc_high;
          acc_tmp = fold (\<lambda>coef acc. coef + alpha * acc) (take 2 coef) acc_old;
          acc_new = fold (\<lambda>coef acc. coef + alpha * acc) (drop 2 coef) acc_tmp in
      res_bind (set_at P s 15 (q1 acc_new)) (\<lambda>s.
      set_at P s 14 (q0 acc_new)))))))))))))))"

definition op_log_precompile :: "('s, 'q) processor \<Rightarrow> 's \<Rightarrow> 's res" where
  "op_log_precompile P s =
     res_bind (get_word P s 0) (\<lambda>comm.
     res_bind (get_word P s 4) (\<lambda>tag.
     let cap_prev = precompile_transcript_state P s in
     res_bind (permute P s (comm, tag, cap_prev)) (\<lambda>((r0, r1, cap_next), s).
     let s = set_precompile_transcript_state P s cap_next in
     res_bind (set_word P s 0 r0) (\<lambda>s.
     res_bind (set_word P s 4 r1) (\<lambda>s.
     set_word P s 8 cap_next)))))"

definition u32_checked_add :: "u32 \<Rightarrow> u32 \<Rightarrow> u32 option" where
  "u32_checked_add a b = (if unat a + unat b < 2 ^ 32 then Some (a + b) else None)"

definition validate_dual_word_stream_addrs ::
    "felt \<Rightarrow> felt \<Rightarrow> ctx_id \<Rightarrow> u32 \<Rightarrow> memory_error + unit" where
  "validate_dual_word_stream_addrs src_addr dst_addr c clk =
     res_bind (clean_addr src_addr) (\<lambda>src_addr_u32.
     res_bind (ok_or (u32_checked_add src_addr_u32 8) (AddressOutOfBounds (as_canonical_u64 src_addr))) (\<lambda>src_end.
     res_bind (clean_addr dst_addr) (\<lambda>dst_addr_u32.
     res_bind (ok_or (u32_checked_add dst_addr_u32 8) (AddressOutOfBounds (as_canonical_u64 dst_addr))) (\<lambda>dst_end.
     if src_addr_u32 < dst_end \<and> dst_addr_u32 < src_end
     then let dst_word2 = dst_addr_u32 + 4;
              overlap_first = (dst_addr_u32 \<ge> src_addr_u32 \<and> dst_addr_u32 < src_end);
              offending_addr = (if overlap_first then dst_addr_u32 else dst_word2) in
          Inl (IllegalMemoryAccess c offending_addr (felt_from_u32 clk))
     else Inr ()))))"

definition op_crypto_stream :: "('s, 'q) processor \<Rightarrow> 's \<Rightarrow> 's res" where
  "op_crypto_stream P s =
     (let c = ctx P s; clk = clock P s in
      res_bind (get P s 12) (\<lambda>src_addr.
      res_bind (get P s 13) (\<lambda>dst_addr.
      res_bind (mem_res (validate_dual_word_stream_addrs src_addr dst_addr c clk)) (\<lambda>_.
      let src_addr_word2 = src_addr + WORD_SIZE_FELT in
      res_bind (mem_res (read_word P s c src_addr clk)) (\<lambda>(plaintext_word1, s).
      res_bind (mem_res (read_word P s c src_addr_word2 clk)) (\<lambda>(plaintext_word2, s).
      res_bind (get_double_word P s 0) (\<lambda>(rate0, rate1).
      let ciphertext_word1 = FWord (w0 plaintext_word1 + w0 rate0) (w1 plaintext_word1 + w1 rate0)
            (w2 plaintext_word1 + w2 rate0) (w3 plaintext_word1 + w3 rate0);
          ciphertext_word2 = FWord (w0 plaintext_word2 + w0 rate1) (w1 plaintext_word2 + w1 rate1)
            (w2 plaintext_word2 + w2 rate1) (w3 plaintext_word2 + w3 rate1);
          dst_addr_word2 = dst_addr + WORD_SIZE_FELT in
      res_bind (mem_res (write_word P s c dst_addr clk ciphertext_word1)) (\<lambda>s.
      res_bind (mem_res (write_word P s c dst_addr_word2 clk ciphertext_word2)) (\<lambda>s.
      res_bind (set_word P s 0 ciphertext_word1) (\<lambda>s.
      res_bind (set_word P s 4 ciphertext_word2) (\<lambda>s.
      res_bind (set_at P s 12 (src_addr + DOUBLE_WORD_SIZE)) (\<lambda>s.
      set_at P s 13 (dst_addr + DOUBLE_WORD_SIZE)))))))))))))"

section \<open>The instructions on the abstract machine\<close>

definition isa_hperm :: "('m, 'q) crypto_lib \<Rightarrow> 'm vm \<Rightarrow> 'm vm res" where
  "isa_hperm X \<sigma> = (let st = v_stack \<sigma> in
     case apply_permutation X (stack_word st 0, stack_word st 4, stack_word st 8) of (r0, r1, cap) \<Rightarrow>
     Inr (vset_word 8 cap (vset_word 4 r1 (vset_word 0 r0 \<sigma>))))"

definition isa_mpverify :: "('m, 'q) crypto_lib \<Rightarrow> (felt \<Rightarrow> string option) \<Rightarrow> felt \<Rightarrow> 'm vm \<Rightarrow> 'm vm res" where
  "isa_mpverify X resolve err_code \<sigma> =
     (let st = v_stack \<sigma>; node = stack_word st 0; index = st !! 5; root = stack_word st 6 in
      res_bind (adv_res (adv_get_merkle_path X (v_adv \<sigma>) root (st !! 4) index)) (\<lambda>q.
      res_bind (hash_verify X root node q index
        (MerklePathVerificationFailed node index root err_code (resolve err_code))) (\<lambda>_.
      Inr \<sigma>)))"

definition isa_mrupdate :: "('m, 'q) crypto_lib \<Rightarrow> 'm vm \<Rightarrow> 'm vm res" where
  "isa_mrupdate X \<sigma> =
     (let st = v_stack \<sigma>; old = stack_word st 0; dep = st !! 4; index = st !! 5; root = stack_word st 6 in
      res_bind (adv_res (adv_update_merkle_node X (v_adv \<sigma>) root dep index (stack_word st 10))) (\<lambda>((q, _), a).
      if path_len X q \<noteq> unat (as_canonical_u64 dep)
      then Inl (OperationErr (InvalidMerklePathLength (path_len X q) dep))
      else res_bind (hash_update X root old (stack_word st 10) q index
             (MerklePathVerificationFailed old index root 0 None)) (\<lambda>new_root.
           Inr (vset_word 0 new_root (\<sigma>\<lparr>v_adv := a\<rparr>)))))"

definition isa_horner_base :: "'m vm \<Rightarrow> 'm vm res" where
  "isa_horner_base \<sigma> = (let st = v_stack \<sigma> in
     res_bind (mem_res (mem_read_element (v_mem \<sigma>) (v_ctx \<sigma>) (st !! 13))) (\<lambda>\<alpha>0.
     res_bind (mem_res (mem_read_element (v_mem \<sigma>) (v_ctx \<sigma>) (st !! 13 + 1))) (\<lambda>\<alpha>1.
     let acc = horner (Quad \<alpha>0 \<alpha>1) (map quad_of (stake 8 st)) (Quad (st !! 14) (st !! 15)) in
     Inr (vset 14 (q0 acc) (vset 15 (q1 acc) \<sigma>)))))"

definition isa_horner_ext :: "'m vm \<Rightarrow> 'm vm res" where
  "isa_horner_ext \<sigma> = (let st = v_stack \<sigma> in
     res_bind (mem_res (mem_read_word (v_mem \<sigma>) (v_ctx \<sigma>) (st !! 13))) (\<lambda>w.
     let acc = horner (Quad (w0 w) (w1 w))
           [Quad (st !! 0) (st !! 1), Quad (st !! 2) (st !! 3), Quad (st !! 4) (st !! 5), Quad (st !! 6) (st !! 7)]
           (Quad (st !! 14) (st !! 15)) in
     Inr (vset 14 (q0 acc) (vset 15 (q1 acc) \<sigma>))))"

definition isa_log_precompile :: "('m, 'q) crypto_lib \<Rightarrow> 'm vm \<Rightarrow> 'm vm res" where
  "isa_log_precompile X \<sigma> = (let st = v_stack \<sigma> in
     case apply_permutation X (stack_word st 0, stack_word st 4, v_transcript \<sigma>) of (r0, r1, cap) \<Rightarrow>
     Inr (vset_word 8 cap (vset_word 4 r1 (vset_word 0 r0 (\<sigma>\<lparr>v_transcript := cap\<rparr>)))))"

definition word_add :: "fword \<Rightarrow> fword \<Rightarrow> fword" where
  "word_add a b = FWord (w0 a + w0 b) (w1 a + w1 b) (w2 a + w2 b) (w3 a + w3 b)"

definition isa_crypto_stream :: "'m vm \<Rightarrow> 'm vm res" where
  "isa_crypto_stream \<sigma> = (let st = v_stack \<sigma>; src = st !! 12; dst = st !! 13; c = v_ctx \<sigma> in
     res_bind (mem_res (validate_dual_word_stream_addrs src dst c (v_clk \<sigma>))) (\<lambda>_.
     res_bind (mem_res (mem_read_word (v_mem \<sigma>) c src)) (\<lambda>p.
     res_bind (mem_res (mem_read_word (v_mem \<sigma>) c (src + 4))) (\<lambda>p'.
     let e = word_add p (stack_word st 0); e' = word_add p' (stack_word st 4) in
     res_bind (mem_res (mem_write_word (v_mem \<sigma>) c dst e)) (\<lambda>m.
     res_bind (mem_res (mem_write_word m c (dst + 4) e')) (\<lambda>m.
     Inr (vset 13 (dst + 8) (vset 12 (src + 8) (vset_word 4 e' (vset_word 0 e (\<sigma>\<lparr>v_mem := m\<rparr>)))))))))))"

declare op_hperm_def [op_defs] and op_mpverify_def [op_defs] and op_mrupdate_def [op_defs]
  and op_horner_eval_base_def [op_defs] and op_horner_eval_ext_def [op_defs]
  and op_log_precompile_def [op_defs] and op_crypto_stream_def [op_defs]

declare isa_hperm_def [isa_defs] and isa_mpverify_def [isa_defs] and isa_mrupdate_def [isa_defs]
  and isa_horner_base_def [isa_defs] and isa_horner_ext_def [isa_defs]
  and isa_log_precompile_def [isa_defs] and isa_crypto_stream_def [isa_defs]

section \<open>Behaviour\<close>

lemma sim_bind_pure:
  assumes "\<And>x. m = Inr x \<Longrightarrow> sim good view (f x) (af x)"
  shows "sim good view (res_bind m f) (res_bind m af)"
  using assms by (cases m) (simp_all add: sim_Inl)

context processor_laws
begin

lemma op_hperm_sim: "good s \<Longrightarrow> sim good view (op_hperm P s) (isa_hperm X (view s))"
  unfolding op_hperm_def isa_hperm_def
  by (auto simp: machine_simps get_double_word_law Let_def intro!: sim_permute machine_intros split: prod.split)

lemma op_mpverify_sim: "good s \<Longrightarrow> sim good view (op_mpverify P resolve s e) (isa_mpverify X resolve e (view s))"
proof -
  assume g: "good s"
  let ?st = "v_stack (view s)"
  show ?thesis
  proof (cases "adv_get_merkle_path X (v_adv (view s)) (stack_word ?st 6) (?st !! 4) (?st !! 5)")
    case (Inl e)
    with g show ?thesis
      by (simp add: op_mpverify_def isa_mpverify_def machine_simps get_merkle_path_law Let_def sim_Inl del: snth.simps)
  next
    case (Inr q)
    with g show ?thesis
      by (auto simp: op_mpverify_def isa_mpverify_def machine_simps get_merkle_path_law Let_def sim_def
          simp del: snth.simps intro!: sim_verify_merkle_root [where f = Inr, simplified])
  qed
qed

lemma op_mrupdate_sim: "good s \<Longrightarrow> sim good view (op_mrupdate X P s) (isa_mrupdate X (view s))"
  unfolding op_mrupdate_def isa_mrupdate_def
  by (auto simp: machine_simps Let_def simp del: snth.simps
      intro!: sim_update_merkle_node sim_update_merkle_root machine_intros)

lemma op_horner_eval_base_sim: "good s \<Longrightarrow> sim good view (op_horner_eval_base P s) (isa_horner_base (view s))"
  unfolding op_horner_eval_base_def isa_horner_base_def
  by (auto simp: machine_simps get_double_word_law stack_word_def Let_def horner_def horner_step_def eval_nat_numeral
      intro!: machine_intros)

lemma op_horner_eval_ext_sim: "good s \<Longrightarrow> sim good view (op_horner_eval_ext P s) (isa_horner_ext (view s))"
  unfolding op_horner_eval_ext_def isa_horner_ext_def
  by (auto simp: machine_simps Let_def horner_def horner_step_def algebra_simps simp del: snth.simps
      intro!: machine_intros)

lemma op_log_precompile_sim: "good s \<Longrightarrow> sim good view (op_log_precompile P s) (isa_log_precompile X (view s))"
  unfolding op_log_precompile_def isa_log_precompile_def
  by (auto simp: machine_simps transcript_law set_transcript_law Let_def
      intro!: sim_permute machine_intros split: prod.split)

lemma op_crypto_stream_sim: "good s \<Longrightarrow> sim good view (op_crypto_stream P s) (isa_crypto_stream (view s))"
  unfolding op_crypto_stream_def isa_crypto_stream_def
  by (auto simp: machine_simps get_double_word_law Let_def word_add_def WORD_SIZE_FELT_def DOUBLE_WORD_SIZE_def
      simp del: snth.simps intro!: sim_bind_pure machine_intros)

end

section \<open>Stream encryption\<close>

lemma stream_range:
  "res_bind (clean_addr a) (\<lambda>x. ok_or (u32_checked_add x 8) (AddressOutOfBounds (as_canonical_u64 a))) =
     (if Rep_felt a + 8 < 2 ^ 32 then Inr (word_of_int (Rep_felt a) + 8)
      else Inl (AddressOutOfBounds (as_canonical_u64 a)))"
proof -
  have "unat (word_of_int (Rep_felt a) :: u32) = nat (Rep_felt a)" if "Rep_felt a < 2 ^ 32"
    using that by (simp add: unat_eq_nat_uint uint_word_of_int take_bit_int_eq_self)
  moreover have "nat (Rep_felt a) + 8 < 2 ^ 32 \<longleftrightarrow> Rep_felt a + 8 < 2 ^ 32" by (simp add: nat_less_iff)
  ultimately show ?thesis by (auto simp: clean_addr_eq u32_checked_add_def)
qed

lemma uint_stream_range:
  assumes "Rep_felt a + 8 < 2 ^ 32"
  shows "uint (word_of_int (Rep_felt a) :: u32) = Rep_felt a"
    "uint ((word_of_int (Rep_felt a) :: u32) + 8) = Rep_felt a + 8"
  using assms by (simp_all add: uint_word_ariths uint_word_of_int take_bit_int_eq_self)

lemma validate_ok:
  "validate_dual_word_stream_addrs src dst c clk = Inr () \<longleftrightarrow>
     Rep_felt src + 8 < 2 ^ 32 \<and> Rep_felt dst + 8 < 2 ^ 32 \<and>
     (Rep_felt src + 8 \<le> Rep_felt dst \<or> Rep_felt dst + 8 \<le> Rep_felt src)"
proof -
  let ?x = "word_of_int (Rep_felt src) :: u32" and ?y = "word_of_int (Rep_felt dst) :: u32"
  have "validate_dual_word_stream_addrs src dst c clk = Inr () \<longleftrightarrow>
      Rep_felt src + 8 < 2 ^ 32 \<and> Rep_felt dst + 8 < 2 ^ 32 \<and> \<not> (?x < ?y + 8 \<and> ?y < ?x + 8)"
    using stream_range [of src] stream_range [of dst]
    by (auto simp: validate_dual_word_stream_addrs_def clean_addr_eq Let_def split: if_splits)
  then show ?thesis
    using uint_stream_range [of src] uint_stream_range [of dst] by (auto simp: word_less_def)
qed

lemma snth_vset: "v_stack (vset j x \<sigma>) !! k = (if k = j then x else v_stack \<sigma> !! k)"
  by (simp add: vset_def)

lemma snth_vset_word:
  "v_stack (vset_word j w \<sigma>) !! k = (if j \<le> k \<and> k < j + 4 then word_nth w (k - j) else v_stack \<sigma> !! k)"
proof -
  consider "k < j" | "k = j" | "k = j + 1" | "k = j + 2" | "k = j + 3" | "j + 4 \<le> k" by linarith
  then show ?thesis
    unfolding vset_word_def snth_vset by cases (simp_all add: word_nth_def word_elements_def del: snth.simps)
qed

text \<open>The operation reads eight elements, adds the rate part of the state to them and writes them back;
  it leaves the rest of the memory alone.\<close>

lemma crypto_stream_memory:
  assumes "isa_crypto_stream \<sigma> = Inr \<sigma>'"
  defines "src \<equiv> v_stack \<sigma> !! 12" and "dst \<equiv> v_stack \<sigma> !! 13" and "c \<equiv> v_ctx \<sigma>"
  shows "i < 8 \<Longrightarrow> \<exists>x. mem_read_element (v_mem \<sigma>) c (src + of_nat i) = Inr x \<and>
      mem_read_element (v_mem \<sigma>') c (dst + of_nat i) = Inr (x + v_stack \<sigma> !! i) \<and>
      v_stack \<sigma>' !! i = x + v_stack \<sigma> !! i"
    and "v_stack \<sigma>' !! 12 = src + 8" "v_stack \<sigma>' !! 13 = dst + 8"
    and "d \<noteq> c \<or> (\<forall>i < 8. b \<noteq> dst + of_nat i) \<Longrightarrow>
      mem_read_element (v_mem \<sigma>') d b = mem_read_element (v_mem \<sigma>) d b"
proof -
  obtain p p' m m' where r: "mem_read_word (v_mem \<sigma>) c src = Inr p" "mem_read_word (v_mem \<sigma>) c (src + 4) = Inr p'"
    and w: "mem_write_word (v_mem \<sigma>) c dst (word_add p (stack_word (v_stack \<sigma>) 0)) = Inr m"
      "mem_write_word m c (dst + 4) (word_add p' (stack_word (v_stack \<sigma>) 4)) = Inr m'"
    and \<sigma>': "\<sigma>' = vset 13 (dst + 8) (vset 12 (src + 8) (vset_word 4 (word_add p' (stack_word (v_stack \<sigma>) 4))
      (vset_word 0 (word_add p (stack_word (v_stack \<sigma>) 0)) (\<sigma>\<lparr>v_mem := m'\<rparr>))))"
    using assms(1) by (auto simp: isa_crypto_stream_def Let_def src_def dst_def c_def res_bind_eq_Inr
        simp del: snth.simps dest!: res_map_err_Inr)
  have nth: "word_nth (word_add u v) j = word_nth u j + word_nth v j" if "j < 4" for u v j
    using that by (cases u; cases v) (auto simp: word_add_def word_nth_def less_Suc_eq eval_nat_numeral)
  have st: "word_nth (stack_word s j) k = s !! (j + k)" if "k < 4" for s j k
    using that by (auto simp: stack_word_def word_nth_def less_Suc_eq eval_nat_numeral simp del: snth.simps)
  have disj: "(a :: felt) + of_nat j \<noteq> (a + 4) + of_nat k" if "j < 4" "k < 4" for a j k
    using that by (auto simp: less_Suc_eq eval_nat_numeral)
  have m': "v_mem \<sigma>' = m'" by (simp add: \<sigma>' vset_def vset_word_def)
  show "v_stack \<sigma>' !! 12 = src + 8" "v_stack \<sigma>' !! 13 = dst + 8"
    unfolding \<sigma>' by (simp_all add: vset_def vset_word_def)
  have stk: "v_stack \<sigma>' !! i = (if i < 4 then word_nth (word_add p (stack_word (v_stack \<sigma>) 0)) i
      else word_nth (word_add p' (stack_word (v_stack \<sigma>) 4)) (i - 4))" if "i < 8" for i
    using that unfolding \<sigma>' by (auto simp: snth_vset snth_vset_word simp del: snth.simps snth_numeral)
  show "mem_read_element (v_mem \<sigma>') d b = mem_read_element (v_mem \<sigma>) d b"
    if "d \<noteq> c \<or> (\<forall>i < 8. b \<noteq> dst + of_nat i)" for d b
  proof -
    have "d \<noteq> c \<or> (\<forall>i < 4. b \<noteq> dst + of_nat i)" using that by auto
    moreover have "d \<noteq> c \<or> (\<forall>i < 4. b \<noteq> dst + 4 + of_nat i)"
      using that by (metis add.assoc nat_add_left_cancel_less numeral_Bit0 of_nat_add of_nat_numeral)
    ultimately show ?thesis using write_word_frame [OF w(1)] write_word_frame [OF w(2)] m' by metis
  qed
  show "\<exists>x. mem_read_element (v_mem \<sigma>) c (src + of_nat i) = Inr x \<and>
      mem_read_element (v_mem \<sigma>') c (dst + of_nat i) = Inr (x + v_stack \<sigma> !! i) \<and>
      v_stack \<sigma>' !! i = x + v_stack \<sigma> !! i" if "i < 8"
  proof (cases "i < 4")
    case True
    have "mem_read_element m' c (dst + of_nat i) = mem_read_element m c (dst + of_nat i)"
      by (rule write_word_frame [OF w(2)]) (use disj True in blast)
    then show ?thesis
      using write_word_element [OF w(1) True] read_word_element [OF r(1) True] m' True stk [of i]
      by (simp add: nth st del: snth.simps)
  next
    case False
    define k where "k = i - 4"
    have k: "i = 4 + k" "k < 4" using False that by (simp_all add: k_def)
    then show ?thesis
      using write_word_element [OF w(2) k(2)] read_word_element [OF r(2) k(2)] m' stk [of i]
      by (simp add: nth st add.assoc del: snth.simps)
  qed
qed

end
