(* ===== verification/Precompile.thy ===== *)
theory Precompile
  imports Crypto_Ops
begin

text \<open>
  The precompile transcript and the registry of verifiers, \<open>core/src/precompile.rs\<close>: a sponge whose
  capacity word commits to all recorded precompile calls.  The prover side records a call with the
  operation \<open>LogPrecompile\<close>, the verifier side by replaying the deferred requests.  A verifier of the
  registry (\<open>dyn PrecompileVerifier\<close>) is a function from call data to a commitment.
\<close>

section \<open>Model\<close>

record precompile_commitment =
  commitment_tag :: fword
  commitment_comm :: fword

type_synonym precompile_error = string
type_synonym precompile_verifier = "8 word list \<Rightarrow> precompile_error + precompile_commitment"

datatype precompile_verification_error =
    VerifierNotFound nat u64
  | PrecompileError nat string precompile_error

record precompile_transcript =
  transcript_state :: fword

definition transcript_new :: precompile_transcript where
  "transcript_new = \<lparr>transcript_state = EMPTY_WORD\<rparr>"

definition transcript_from_state :: "fword \<Rightarrow> precompile_transcript" where
  "transcript_from_state s = \<lparr>transcript_state = s\<rparr>"

definition transcript_record ::
    "('m, 'q) crypto_lib \<Rightarrow> precompile_transcript \<Rightarrow> precompile_commitment \<Rightarrow> precompile_transcript" where
  "transcript_record X t commitment =
     (let comm = commitment_comm commitment; tag = commitment_tag commitment in
      case apply_permutation X (comm, tag, transcript_state t) of (_, _, capacity) \<Rightarrow>
        t\<lparr>transcript_state := capacity\<rparr>)"

definition transcript_finalize :: "('m, 'q) crypto_lib \<Rightarrow> precompile_transcript \<Rightarrow> fword" where
  "transcript_finalize X t =
     (case apply_permutation X (EMPTY_WORD, EMPTY_WORD, transcript_state t) of (digest, _, _) \<Rightarrow> digest)"

record precompile_registry =
  verifiers :: "u64 \<Rightarrow> (string \<times> precompile_verifier) option"

definition registry_new :: precompile_registry where
  "registry_new = \<lparr>verifiers = (\<lambda>_. None)\<rparr>"

text \<open>\<open>EventName::to_event_id\<close> hashes the name with a package outside the repository; it is an argument.\<close>

definition with_verifier ::
    "(string \<Rightarrow> u64) \<Rightarrow> precompile_registry \<Rightarrow> string \<Rightarrow> precompile_verifier \<Rightarrow> precompile_registry" where
  "with_verifier to_event_id r event_name verifier =
     r\<lparr>verifiers := (verifiers r)(to_event_id event_name \<mapsto> (event_name, verifier))\<rparr>"

definition registry_merge :: "precompile_registry \<Rightarrow> precompile_registry \<Rightarrow> precompile_registry" where
  "registry_merge r other = r\<lparr>verifiers := verifiers r ++ verifiers other\<rparr>"

fun transcript_loop ::
    "('m, 'q) crypto_lib \<Rightarrow> precompile_registry \<Rightarrow> nat \<Rightarrow> precompile_request list \<Rightarrow> precompile_transcript \<Rightarrow>
     precompile_verification_error + precompile_transcript" where
  "transcript_loop X r index [] t = Inr t"
| "transcript_loop X r index (PrecompileRequest event_id calldata # requests) t =
     res_bind (ok_or (verifiers r event_id) (VerifierNotFound index event_id)) (\<lambda>(event_name, verifier).
     res_bind (res_map_err (PrecompileError index event_name) (verifier calldata)) (\<lambda>commitment.
     transcript_loop X r (index + 1) requests (transcript_record X t commitment)))"

definition requests_transcript ::
    "('m, 'q) crypto_lib \<Rightarrow> precompile_registry \<Rightarrow> precompile_request list \<Rightarrow>
     precompile_verification_error + precompile_transcript" where
  "requests_transcript X r requests = transcript_loop X r 0 requests transcript_new"

section \<open>Lemmas\<close>

text \<open>The commitment the registry computes for one request.\<close>

definition verify_request :: "precompile_registry \<Rightarrow> precompile_request \<Rightarrow> precompile_commitment option" where
  "verify_request r req = (case verifiers r (req_event_id req) of
      None \<Rightarrow> None
    | Some (_, verifier) \<Rightarrow> (case verifier (req_calldata req) of Inl _ \<Rightarrow> None | Inr c \<Rightarrow> Some c))"

definition failed_at :: "precompile_registry \<Rightarrow> precompile_request \<Rightarrow> nat \<Rightarrow> precompile_verification_error \<Rightarrow> bool" where
  "failed_at r req i e = (case verifiers r (req_event_id req) of
      None \<Rightarrow> e = VerifierNotFound i (req_event_id req)
    | Some (name, verifier) \<Rightarrow> \<exists>err. verifier (req_calldata req) = Inl err \<and> e = PrecompileError i name err)"

lemma transcript_loop_spec:
  "case transcript_loop X r k reqs t of
     Inr t' \<Rightarrow> \<exists>cs. map (verify_request r) reqs = map Some cs \<and> t' = fold (\<lambda>c t. transcript_record X t c) cs t
   | Inl e \<Rightarrow> \<exists>i < length reqs. (\<forall>j < i. verify_request r (reqs ! j) \<noteq> None) \<and> failed_at r (reqs ! i) (k + i) e"
proof (induction X r k reqs t rule: transcript_loop.induct)
  case (2 X r k ev cd reqs t)
  show ?case
  proof (cases "verifiers r ev")
    case None
    then show ?thesis by (intro sum.case_eq_if [THEN iffD2]) (auto simp: failed_at_def)
  next
    case (Some v)
    obtain name f where v: "v = (name, f)" by (cases v)
    show ?thesis
    proof (cases "f cd")
      case (Inl err)
      with Some v show ?thesis by (auto simp: failed_at_def intro!: exI [of _ 0])
    next
      case (Inr c)
      have step: "transcript_loop X r k (PrecompileRequest ev cd # reqs) t =
          transcript_loop X r (k + 1) reqs (transcript_record X t c)"
        using Some v Inr by simp
      have vr: "verify_request r (PrecompileRequest ev cd) = Some c" using Some v Inr by (simp add: verify_request_def)
      note IH = "2.IH" [of v name f c, unfolded Some v Inr, simplified]
      show ?thesis
      proof (cases "transcript_loop X r (k + 1) reqs (transcript_record X t c)")
        case (Inl e)
        with IH obtain i where "i < length reqs" "\<forall>j < i. verify_request r (reqs ! j) \<noteq> None"
            "failed_at r (reqs ! i) (Suc k + i) e" by auto
        then show ?thesis
          unfolding step Inl by (auto simp: vr nth_Cons split: nat.split intro!: exI [of _ "Suc i"])
      next
        case (Inr t')
        with IH obtain cs where "map (verify_request r) reqs = map Some cs"
            "t' = fold (\<lambda>c t. transcript_record X t c) cs (transcript_record X t c)" by auto
        then show ?thesis
          unfolding step Inr by (auto simp: vr intro!: exI [of _ "c # cs"])
      qed
    qed
  qed
qed simp

section \<open>Properties\<close>

text \<open>C25. Replaying the deferred requests yields the transcript that records, in order, the commitments of all
  requests; if some request has no verifier or is rejected, the error names the first such request.\<close>

theorem requests_transcript_exact:
  "case requests_transcript X r reqs of
     Inr t \<Rightarrow> \<exists>cs. map (verify_request r) reqs = map Some cs \<and>
       t = fold (\<lambda>c t. transcript_record X t c) cs transcript_new
   | Inl e \<Rightarrow> \<exists>i < length reqs. (\<forall>j < i. verify_request r (reqs ! j) \<noteq> None) \<and> failed_at r (reqs ! i) i e"
  using transcript_loop_spec [where X = X and r = r and k = 0 and reqs = reqs and t = transcript_new] unfolding requests_transcript_def add_0 .

theorem requests_transcript_exact_witness:
  "requests_transcript sample_lib \<lparr>verifiers = [1 \<mapsto> (''hash'', \<lambda>bs. Inr \<lparr>commitment_tag = EMPTY_WORD, commitment_comm = EMPTY_WORD\<rparr>)]\<rparr>
     [PrecompileRequest 1 [7], PrecompileRequest 2 []] = Inl (VerifierNotFound 1 2)"
proof -
  let ?r = "\<lparr>verifiers = [1 \<mapsto> (''hash'', \<lambda>bs. Inr \<lparr>commitment_tag = EMPTY_WORD, commitment_comm = EMPTY_WORD\<rparr>)]\<rparr>"
  have none: "verify_request ?r (PrecompileRequest 2 []) = None" and some: "verify_request ?r (PrecompileRequest 1 [7]) \<noteq> None"
    by (simp_all add: verify_request_def)
  have E: "e = VerifierNotFound 1 2"
    if "failed_at ?r ([PrecompileRequest 1 [7], PrecompileRequest 2 []] ! i) i e" "i < 2" for i e
    using that by (auto simp: failed_at_def less_Suc_eq eval_nat_numeral)
  show ?thesis
    using requests_transcript_exact [where X = sample_lib and r = ?r and reqs = "[PrecompileRequest 1 [7], PrecompileRequest 2 []]"]
      none E by (auto split: sum.splits)
qed

end
