(* ===== verification/Stack_Ops.thy ===== *)
theory Stack_Ops
  imports Processor
begin

text \<open>
  Stack and system operations, \<open>processor/src/execution/operations/stack_ops/mod.rs\<close> and
  \<open>sys_ops/mod.rs\<close>.  Handlers are generic in the processor dictionary \<open>P\<close>; the value a handler
  returns for trace generation (\<open>OperationHelperRegisters\<close>) and the calls of the tracer are left
  out, so a handler is a function from state to result.  Each \<open>_sim\<close> lemma states the complete
  behaviour of a handler on the abstract machine for every processor that satisfies the contracts.
\<close>

section \<open>Model\<close>

definition op_push :: "('s, 'q) processor \<Rightarrow> 's \<Rightarrow> felt \<Rightarrow> 's res" where
  "op_push P s element =
     res_bind (increment_size P s) (\<lambda>s.
     set_at P s 0 element)"

definition op_pad :: "('s, 'q) processor \<Rightarrow> 's \<Rightarrow> 's res" where
  "op_pad P s =
     res_bind (increment_size P s) (\<lambda>s.
     set_at P s 0 0)"

definition op_swap :: "('s, 'q) processor \<Rightarrow> 's \<Rightarrow> 's res" where
  "op_swap P s = swap P s 0 1"

definition op_swap_double_word :: "('s, 'q) processor \<Rightarrow> 's \<Rightarrow> 's res" where
  "op_swap_double_word P s =
     res_bind (swap P s 0 8) (\<lambda>s.
     res_bind (swap P s 1 9) (\<lambda>s.
     res_bind (swap P s 2 10) (\<lambda>s.
     res_bind (swap P s 3 11) (\<lambda>s.
     res_bind (swap P s 4 12) (\<lambda>s.
     res_bind (swap P s 5 13) (\<lambda>s.
     res_bind (swap P s 6 14) (\<lambda>s.
     swap P s 7 15)))))))"

definition dup_nth :: "('s, 'q) processor \<Rightarrow> 's \<Rightarrow> nat \<Rightarrow> 's res" where
  "dup_nth P s n =
     res_bind (get P s n) (\<lambda>to_dup.
     res_bind (increment_size P s) (\<lambda>s.
     set_at P s 0 to_dup))"

definition op_cswap :: "('s, 'q) processor \<Rightarrow> 's \<Rightarrow> 's res" where
  "op_cswap P s =
     res_bind (get P s 0) (\<lambda>condition.
     res_bind (decrement_size P s) (\<lambda>s.
     if as_canonical_u64 condition = 0 then Inr s
     else if as_canonical_u64 condition = 1 then swap P s 0 1
     else Inl (OperationErr (NotBinaryValue condition))))"

definition op_cswapw :: "('s, 'q) processor \<Rightarrow> 's \<Rightarrow> 's res" where
  "op_cswapw P s =
     res_bind (get P s 0) (\<lambda>condition.
     res_bind (decrement_size P s) (\<lambda>s.
     if as_canonical_u64 condition = 0 then Inr s
     else if as_canonical_u64 condition = 1
     then res_bind (swap P s 0 4) (\<lambda>s.
          res_bind (swap P s 1 5) (\<lambda>s.
          res_bind (swap P s 2 6) (\<lambda>s.
          swap P s 3 7)))
     else Inl (OperationErr (NotBinaryValue condition))))"

text \<open>\<open>resolve_error_message\<close> looks an error code up in the debug information of the MAST forest.\<close>

definition op_assert :: "('s, 'q) processor \<Rightarrow> (felt \<Rightarrow> string option) \<Rightarrow> 's \<Rightarrow> felt \<Rightarrow> 's res" where
  "op_assert P resolve_error_message s err_code =
     res_bind (get P s 0) (\<lambda>top_elem.
     if top_elem \<noteq> 1
     then Inl (OperationErr (FailedAssertion err_code (resolve_error_message err_code)))
     else decrement_size P s)"

definition op_sdepth :: "('s, 'q) processor \<Rightarrow> 's \<Rightarrow> 's res" where
  "op_sdepth P s =
     res_bind (depth P s) (\<lambda>d.
     res_bind (increment_size P s) (\<lambda>s.
     set_at P s 0 (felt_from_u32 d)))"

definition op_caller :: "('s, 'q) processor \<Rightarrow> 's \<Rightarrow> 's res" where
  "op_caller P s = set_word P s 0 (caller_hash P s)"

definition op_clk :: "('s, 'q) processor \<Rightarrow> 's \<Rightarrow> 's res" where
  "op_clk P s =
     (let clk = felt_from_u32 (clock P s) in
      res_bind (increment_size P s) (\<lambda>s.
      set_at P s 0 clk))"

declare op_push_def [op_defs] and op_pad_def [op_defs] and op_swap_def [op_defs]
  and op_swap_double_word_def [op_defs] and dup_nth_def [op_defs] and op_cswap_def [op_defs]
  and op_cswapw_def [op_defs] and op_assert_def [op_defs] and op_sdepth_def [op_defs]
  and op_caller_def [op_defs] and op_clk_def [op_defs]

section \<open>Behaviour\<close>

context processor_laws
begin

lemma op_push_sim: "good s \<Longrightarrow> sim good view (op_push P s x) (Inr (vpush x (view s)))"
  by (auto simp: op_push_def vm_defs intro!: sim_stack_intros)

lemma op_pad_sim: "good s \<Longrightarrow> sim good view (op_pad P s) (Inr (vpush 0 (view s)))"
  by (auto simp: op_pad_def vm_defs intro!: sim_stack_intros)

lemma dup_nth_sim: "good s \<Longrightarrow> n < 16 \<Longrightarrow> sim good view (dup_nth P s n) (Inr (vpush (v_stack (view s) !! n) (view s)))"
  by (auto simp: dup_nth_def vm_defs stack_simps intro!: sim_stack_intros)

lemma op_swap_sim:
  assumes "good s" "v_stack (view s) = b ## a ## t"
  shows "sim good view (op_swap P s) (Inr (vkeep (a ## b ## t) (view s)))"
  using assms by (auto simp: op_swap_def vm_defs intro!: sim_stack_intros)

lemma op_swap_double_word_sim:
  assumes "good s" "v_stack (view s) = a0 ## a1 ## a2 ## a3 ## a4 ## a5 ## a6 ## a7 ##
      b0 ## b1 ## b2 ## b3 ## b4 ## b5 ## b6 ## b7 ## t"
  shows "sim good view (op_swap_double_word P s) (Inr (vkeep (b0 ## b1 ## b2 ## b3 ## b4 ## b5 ## b6 ## b7 ##
      a0 ## a1 ## a2 ## a3 ## a4 ## a5 ## a6 ## a7 ## t) (view s)))"
  using assms by (auto simp: op_swap_double_word_def vm_defs intro!: sim_stack_intros)

lemma op_cswap_sim:
  assumes "good s" "v_stack (view s) = c ## b ## a ## t"
  shows "sim good view (op_cswap P s)
     (if c = 0 then Inr (vshrink (b ## a ## t) (view s))
      else if c = 1 then Inr (vshrink (a ## b ## t) (view s))
      else Inl (OperationErr (NotBinaryValue c)))"
  using assms by (auto simp: op_cswap_def vm_defs stack_simps intro!: sim_stack_intros sim_Inl)

lemma op_cswapw_sim:
  assumes "good s" "v_stack (view s) = c ## b0 ## b1 ## b2 ## b3 ## a0 ## a1 ## a2 ## a3 ## t"
  shows "sim good view (op_cswapw P s)
     (if c = 0 then Inr (vshrink (b0 ## b1 ## b2 ## b3 ## a0 ## a1 ## a2 ## a3 ## t) (view s))
      else if c = 1 then Inr (vshrink (a0 ## a1 ## a2 ## a3 ## b0 ## b1 ## b2 ## b3 ## t) (view s))
      else Inl (OperationErr (NotBinaryValue c)))"
  using assms by (auto simp: op_cswapw_def vm_defs stack_simps intro!: sim_stack_intros sim_Inl)

lemma op_drop_sim: "good s \<Longrightarrow> sim good view (decrement_size P s) (Inr (vpop (view s)))"
  by (auto intro!: sim_stack_intros)

lemma op_assert_sim:
  assumes "good s" "v_stack (view s) = a ## t"
  shows "sim good view (op_assert P resolve s err_code)
     (if a = 1 then Inr (vshrink t (view s))
      else Inl (OperationErr (FailedAssertion err_code (resolve err_code))))"
  using assms by (auto simp: op_assert_def vm_defs stack_simps intro!: sim_stack_intros sim_Inl)

lemma op_sdepth_sim:
  "good s \<Longrightarrow> sim good view (op_sdepth P s) (Inr (vpush (felt_from_u32 (of_nat (v_depth (view s)))) (view s)))"
  by (auto simp: op_sdepth_def vm_defs stack_simps intro!: sim_stack_intros)

lemma op_caller_sim:
  "good s \<Longrightarrow> sim good view (op_caller P s) (Inr (vset_word 0 (v_caller (view s)) (view s)))"
  by (auto simp: op_caller_def system_simps intro!: sim_stack_intros)

lemma op_clk_sim:
  "good s \<Longrightarrow> sim good view (op_clk P s) (Inr (vpush (felt_from_u32 (v_clk (view s))) (view s)))"
  by (auto simp: op_clk_def vm_defs system_simps intro!: sim_stack_intros)

lemma movup_sim:
  "good s \<Longrightarrow> 1 \<le> n \<Longrightarrow> n \<le> 16 \<Longrightarrow> sim good view (rotate_left P s n) (Inr (vkeep (rotl n (v_stack (view s))) (view s)))"
  by (rule sim_yields [OF rotate_left_law]) (auto simp: vm_defs)

lemma movdn_sim:
  "good s \<Longrightarrow> 1 \<le> n \<Longrightarrow> n \<le> 16 \<Longrightarrow> sim good view (rotate_right P s n) (Inr (vkeep (rotr n (v_stack (view s))) (view s)))"
  by (rule sim_yields [OF rotate_right_law]) (auto simp: vm_defs)

lemma swapw_sim:
  "good s \<Longrightarrow> 1 \<le> n \<Longrightarrow> n \<le> 3 \<Longrightarrow> sim good view (swapw_nth P s n) (Inr (vkeep (swap_words n (v_stack (view s))) (view s)))"
  by (rule sim_yields [OF swapw_nth_law]) (auto simp: vm_defs)

end

end
