(* ===== verification/Field_Ops.thy ===== *)
theory Field_Ops
  imports Processor
begin

text \<open>
  Field operations, \<open>processor/src/execution/operations/field_ops/mod.rs\<close>.  The results are stated
  with the field operations of \<open>felt\<close>; for the exponentiation step \<open>op_expacc\<close> the loop built from
  it is shown to compute powers, and \<open>op_ext2mul\<close> is multiplication in the quadratic extension
  \<open>x ^ 2 = 7\<close>.
\<close>

unbundle bit_operations_syntax

section \<open>Model\<close>

definition pop2_applyfn_push :: "('s, 'q) processor \<Rightarrow> 's \<Rightarrow> (felt \<Rightarrow> felt \<Rightarrow> felt) \<Rightarrow> 's res" where
  "pop2_applyfn_push P s f =
     res_bind (get P s 0) (\<lambda>b.
     res_bind (get P s 1) (\<lambda>a.
     res_bind (decrement_size P s) (\<lambda>s.
     set_at P s 0 (f a b))))"

definition pop2_applyfn_push_op ::
    "('s, 'q) processor \<Rightarrow> 's \<Rightarrow> (felt \<Rightarrow> felt \<Rightarrow> operation_error + felt) \<Rightarrow> 's res" where
  "pop2_applyfn_push_op P s f =
     res_bind (get P s 0) (\<lambda>b.
     res_bind (get P s 1) (\<lambda>a.
     res_bind (decrement_size P s) (\<lambda>s.
     res_bind (res_map_err OperationErr (f a b)) (\<lambda>x.
     set_at P s 0 x))))"

definition assert_binary :: "felt \<Rightarrow> operation_error + unit" where
  "assert_binary v = (if v \<noteq> 0 \<and> v \<noteq> 1 then Inl (NotBinaryValue v) else Inr ())"

definition op_add :: "('s, 'q) processor \<Rightarrow> 's \<Rightarrow> 's res" where
  "op_add P s = pop2_applyfn_push P s (\<lambda>a b. a + b)"

definition op_neg :: "('s, 'q) processor \<Rightarrow> 's \<Rightarrow> 's res" where
  "op_neg P s =
     res_bind (get P s 0) (\<lambda>element.
     set_at P s 0 (- element))"

definition op_mul :: "('s, 'q) processor \<Rightarrow> 's \<Rightarrow> 's res" where
  "op_mul P s = pop2_applyfn_push P s (\<lambda>a b. a * b)"

definition op_inv :: "('s, 'q) processor \<Rightarrow> 's \<Rightarrow> 's res" where
  "op_inv P s =
     res_bind (get P s 0) (\<lambda>top_elem.
     if top_elem = 0 then Inl (OperationErr DivideByZero)
     else set_at P s 0 (inverse top_elem))"

definition op_incr :: "('s, 'q) processor \<Rightarrow> 's \<Rightarrow> 's res" where
  "op_incr P s =
     res_bind (get P s 0) (\<lambda>top_elem.
     set_at P s 0 (top_elem + 1))"

definition op_and :: "('s, 'q) processor \<Rightarrow> 's \<Rightarrow> 's res" where
  "op_and P s = pop2_applyfn_push_op P s (\<lambda>a b.
     res_bind (assert_binary b) (\<lambda>_.
     res_bind (assert_binary a) (\<lambda>_.
     if a = 1 \<and> b = 1 then Inr 1 else Inr 0)))"

definition op_or :: "('s, 'q) processor \<Rightarrow> 's \<Rightarrow> 's res" where
  "op_or P s = pop2_applyfn_push_op P s (\<lambda>a b.
     res_bind (assert_binary b) (\<lambda>_.
     res_bind (assert_binary a) (\<lambda>_.
     if a = 1 \<or> b = 1 then Inr 1 else Inr 0)))"

definition op_not :: "('s, 'q) processor \<Rightarrow> 's \<Rightarrow> 's res" where
  "op_not P s =
     res_bind (get P s 0) (\<lambda>top_elem.
     if top_elem = 0 then set_at P s 0 1
     else if top_elem = 1 then set_at P s 0 0
     else Inl (OperationErr (NotBinaryValue top_elem)))"

definition op_eq :: "('s, 'q) processor \<Rightarrow> 's \<Rightarrow> 's res" where
  "op_eq P s =
     res_bind (get P s 0) (\<lambda>b.
     res_bind (get P s 1) (\<lambda>a.
     res_bind (decrement_size P s) (\<lambda>s.
     set_at P s 0 (if a = b then 1 else 0))))"

definition op_eqz :: "('s, 'q) processor \<Rightarrow> 's \<Rightarrow> 's res" where
  "op_eqz P s =
     res_bind (get P s 0) (\<lambda>old_top.
     if old_top = 0 then set_at P s 0 1 else set_at P s 0 0)"

definition op_expacc :: "('s, 'q) processor \<Rightarrow> 's \<Rightarrow> 's res" where
  "op_expacc P s =
     res_bind (get P s 1) (\<lambda>old_base.
     res_bind (get P s 2) (\<lambda>old_acc.
     res_bind (get P s 3) (\<lambda>old_exp.
     let old_exp_int = as_canonical_u64 old_exp;
         new_exp = felt_from_u64 (drop_bit 1 old_exp_int);
         exp_lsb = old_exp_int AND 1;
         acc_update_val = (if exp_lsb = 1 then old_base else 1);
         new_acc = old_acc * acc_update_val;
         new_base = old_base * old_base in
     res_bind (set_at P s 0 (felt_from_u64 exp_lsb)) (\<lambda>s.
     res_bind (set_at P s 1 new_base) (\<lambda>s.
     res_bind (set_at P s 2 new_acc) (\<lambda>s.
     set_at P s 3 new_exp))))))"

definition op_ext2mul :: "('s, 'q) processor \<Rightarrow> 's \<Rightarrow> 's res" where
  "op_ext2mul P s =
     res_bind (get_word P s 0) (\<lambda>w. case w of FWord b0 b1 a0 a1 \<Rightarrow>
     let b0_times_a0 = b0 * a0;
         b1_times_a1 = b1 * a1;
         c1 = (b0 + b1) * (a1 + a0) - b0_times_a0 - b1_times_a1;
         c0 = b0_times_a0 + 7 * b1_times_a1 in
     res_bind (set_at P s 2 c0) (\<lambda>s.
     set_at P s 3 c1))"

declare pop2_applyfn_push_def [op_defs] and pop2_applyfn_push_op_def [op_defs]
  and assert_binary_def [op_defs] and op_add_def [op_defs] and op_neg_def [op_defs]
  and op_mul_def [op_defs] and op_inv_def [op_defs] and op_incr_def [op_defs] and op_and_def [op_defs]
  and op_or_def [op_defs] and op_not_def [op_defs] and op_eq_def [op_defs] and op_eqz_def [op_defs]
  and op_expacc_def [op_defs] and op_ext2mul_def [op_defs]

section \<open>Behaviour\<close>

lemma expacc_lsb: "as_canonical_u64 x AND 1 = of_bool (odd (Rep_felt x))"
proof -
  have "uint (as_canonical_u64 x AND 1) = Rep_felt x mod 2"
    by (simp add: and_one_eq uint_mod)
  then show ?thesis
    by (cases "odd (Rep_felt x)") (simp_all add: word_uint_eq_iff odd_iff_mod_2_eq_one even_iff_mod_2_eq_zero)
qed

lemma felt_from_u64_of_bool: "felt_from_u64 (of_bool b) = felt_from_bool b"
  by (cases b) (simp_all add: felt_from_u64_def)

lemma expacc_shift: "felt_from_u64 (drop_bit 1 (as_canonical_u64 x)) = of_int (Rep_felt x div 2)"
  by (simp add: felt_from_u64_def drop_bit_Suc uint_div)

context processor_laws
begin

lemma op_add_sim:
  assumes "good s" "v_stack (view s) = b ## a ## t"
  shows "sim good view (op_add P s) (Inr (vshrink ((a + b) ## t) (view s)))"
  using assms by (auto simp: op_add_def pop2_applyfn_push_def vm_defs stack_simps intro!: sim_stack_intros)

lemma op_mul_sim:
  assumes "good s" "v_stack (view s) = b ## a ## t"
  shows "sim good view (op_mul P s) (Inr (vshrink ((a * b) ## t) (view s)))"
  using assms by (auto simp: op_mul_def pop2_applyfn_push_def vm_defs stack_simps intro!: sim_stack_intros)

lemma op_neg_sim:
  assumes "good s" "v_stack (view s) = a ## t"
  shows "sim good view (op_neg P s) (Inr (vkeep ((- a) ## t) (view s)))"
  using assms by (auto simp: op_neg_def vm_defs stack_simps intro!: sim_stack_intros)

lemma op_inv_sim:
  assumes "good s" "v_stack (view s) = a ## t"
  shows "sim good view (op_inv P s)
     (if a = 0 then Inl (OperationErr DivideByZero) else Inr (vkeep (inverse a ## t) (view s)))"
  using assms by (auto simp: op_inv_def vm_defs stack_simps intro!: sim_stack_intros sim_Inl)

lemma op_incr_sim:
  assumes "good s" "v_stack (view s) = a ## t"
  shows "sim good view (op_incr P s) (Inr (vkeep ((a + 1) ## t) (view s)))"
  using assms by (auto simp: op_incr_def vm_defs stack_simps intro!: sim_stack_intros)

lemma op_and_sim:
  assumes "good s" "v_stack (view s) = b ## a ## t"
  shows "sim good view (op_and P s)
     (if b \<noteq> 0 \<and> b \<noteq> 1 then Inl (OperationErr (NotBinaryValue b))
      else if a \<noteq> 0 \<and> a \<noteq> 1 then Inl (OperationErr (NotBinaryValue a))
      else Inr (vshrink (felt_from_bool (a = 1 \<and> b = 1) ## t) (view s)))"
  using assms
  by (auto simp: op_and_def pop2_applyfn_push_op_def assert_binary_def vm_defs stack_simps
      intro!: sim_stack_intros sim_Inl)

lemma op_or_sim:
  assumes "good s" "v_stack (view s) = b ## a ## t"
  shows "sim good view (op_or P s)
     (if b \<noteq> 0 \<and> b \<noteq> 1 then Inl (OperationErr (NotBinaryValue b))
      else if a \<noteq> 0 \<and> a \<noteq> 1 then Inl (OperationErr (NotBinaryValue a))
      else Inr (vshrink (felt_from_bool (a = 1 \<or> b = 1) ## t) (view s)))"
  using assms
  by (auto simp: op_or_def pop2_applyfn_push_op_def assert_binary_def vm_defs stack_simps
      intro!: sim_stack_intros sim_Inl)

lemma op_not_sim:
  assumes "good s" "v_stack (view s) = a ## t"
  shows "sim good view (op_not P s)
     (if a \<noteq> 0 \<and> a \<noteq> 1 then Inl (OperationErr (NotBinaryValue a))
      else Inr (vkeep (felt_from_bool (a = 0) ## t) (view s)))"
  using assms by (auto simp: op_not_def vm_defs stack_simps intro!: sim_stack_intros sim_Inl)

lemma op_eq_sim:
  assumes "good s" "v_stack (view s) = b ## a ## t"
  shows "sim good view (op_eq P s) (Inr (vshrink (felt_from_bool (a = b) ## t) (view s)))"
  using assms by (auto simp: op_eq_def vm_defs stack_simps intro!: sim_stack_intros)

lemma op_eqz_sim:
  assumes "good s" "v_stack (view s) = a ## t"
  shows "sim good view (op_eqz P s) (Inr (vkeep (felt_from_bool (a = 0) ## t) (view s)))"
  using assms by (auto simp: op_eqz_def vm_defs stack_simps intro!: sim_stack_intros)

lemma op_expacc_sim:
  assumes "good s" "v_stack (view s) = z ## b ## acc ## e ## t"
  shows "sim good view (op_expacc P s) (Inr (vkeep (felt_from_bool (odd (Rep_felt e)) ## b * b ##
     (acc * (if odd (Rep_felt e) then b else 1)) ## of_int (Rep_felt e div 2) ## t) (view s)))"
  using assms
  by (auto simp: op_expacc_def vm_defs stack_simps Let_def expacc_lsb expacc_shift [simplified] felt_from_u64_of_bool
      intro!: sim_stack_intros)

lemma op_ext2mul_sim:
  assumes "good s" "v_stack (view s) = b0 ## b1 ## a0 ## a1 ## t"
  shows "sim good view (op_ext2mul P s)
     (Inr (vkeep (b0 ## b1 ## (a0 * b0 + 7 * (a1 * b1)) ## (a0 * b1 + a1 * b0) ## t) (view s)))"
  using assms
  by (auto simp: op_ext2mul_def vm_defs stack_simps stack_word_def algebra_simps
      intro!: sim_stack_intros)

end

end
