(* ===== verification/U32_Ops.thy ===== *)
theory U32_Ops
  imports Processor
begin

text \<open>
  Operations on 32-bit values, \<open>processor/src/execution/operations/u32_ops/mod.rs\<close>, computed on 64-bit
  words as in the source.  The \<open>_sim\<close> lemmas give the results in integer arithmetic: no intermediate
  sum or product overflows, the results are again 32-bit values, and operands that are not 32-bit
  values are reported.
\<close>

unbundle bit_operations_syntax

section \<open>Model\<close>

definition U32_MAX :: u64 where
  "U32_MAX = 0xFFFFFFFF"

text \<open>The macro \<open>require_u32_operands\<close>: reads the elements at the given positions and collects those
  that exceed 32 bits.\<close>

primrec read_operands :: "('s, 'q) processor \<Rightarrow> 's \<Rightarrow> nat list \<Rightarrow> felt list res" where
  "read_operands P s [] = Inr []"
| "read_operands P s (i # is) =
     res_bind (get P s i) (\<lambda>x. res_bind (read_operands P s is) (\<lambda>xs. Inr (x # xs)))"

definition require_u32_operands :: "('s, 'q) processor \<Rightarrow> 's \<Rightarrow> nat list \<Rightarrow> felt list res" where
  "require_u32_operands P s is =
     res_bind (read_operands P s is) (\<lambda>operands.
     let invalid_values = filter (\<lambda>x. as_canonical_u64 x > U32_MAX) operands in
     if invalid_values \<noteq> [] then Inl (OperationErr (NotU32Values invalid_values)) else Inr operands)"

definition split_element :: "felt \<Rightarrow> felt \<times> felt" where
  "split_element v =
     (let v = as_canonical_u64 v;
          lo = ucast (ucast v :: u32);
          hi = drop_bit 32 v in
      (felt_from_u64 hi, felt_from_u64 lo))"

definition op_u32split :: "('s, 'q) processor \<Rightarrow> 's \<Rightarrow> 's res" where
  "op_u32split P s =
     res_bind (get P s 0) (\<lambda>t.
     case split_element t of (top_hi, top_lo) \<Rightarrow>
     res_bind (increment_size P s) (\<lambda>s.
     res_bind (set_at P s 0 top_lo) (\<lambda>s.
     set_at P s 1 top_hi)))"

definition op_u32add :: "('s, 'q) processor \<Rightarrow> 's \<Rightarrow> 's res" where
  "op_u32add P s =
     res_bind (require_u32_operands P s [0, 1]) (\<lambda>ops.
     let a = ops ! 0; b = ops ! 1 in
     case split_element (felt_from_u64 (as_canonical_u64 a + as_canonical_u64 b)) of (carry, sum_lo) \<Rightarrow>
     res_bind (set_at P s 0 sum_lo) (\<lambda>s.
     set_at P s 1 carry))"

definition op_u32add3 :: "('s, 'q) processor \<Rightarrow> 's \<Rightarrow> 's res" where
  "op_u32add3 P s =
     res_bind (require_u32_operands P s [0, 1, 2]) (\<lambda>ops.
     let a = ops ! 0; b = ops ! 1; c = ops ! 2 in
     case split_element (felt_from_u64 (as_canonical_u64 a + as_canonical_u64 b + as_canonical_u64 c)) of
       (carry, sum_lo) \<Rightarrow>
     res_bind (decrement_size P s) (\<lambda>s.
     res_bind (set_at P s 0 sum_lo) (\<lambda>s.
     set_at P s 1 carry)))"

definition op_u32sub :: "('s, 'q) processor \<Rightarrow> 's \<Rightarrow> 's res" where
  "op_u32sub P s =
     res_bind (require_u32_operands P s [0, 1]) (\<lambda>ops.
     let b = ops ! 0; a = ops ! 1;
         result = as_canonical_u64 a - as_canonical_u64 b;
         borrow = felt_from_u64 (drop_bit 63 result);
         diff = felt_from_u64 (result AND 0xFFFFFFFF) in
     res_bind (set_at P s 0 borrow) (\<lambda>s.
     set_at P s 1 diff))"

definition op_u32mul :: "('s, 'q) processor \<Rightarrow> 's \<Rightarrow> 's res" where
  "op_u32mul P s =
     res_bind (require_u32_operands P s [0, 1]) (\<lambda>ops.
     let a = ops ! 0; b = ops ! 1 in
     case split_element (felt_from_u64 (as_canonical_u64 a * as_canonical_u64 b)) of (hi, lo) \<Rightarrow>
     res_bind (set_at P s 0 lo) (\<lambda>s.
     set_at P s 1 hi))"

definition op_u32madd :: "('s, 'q) processor \<Rightarrow> 's \<Rightarrow> 's res" where
  "op_u32madd P s =
     res_bind (require_u32_operands P s [0, 1, 2]) (\<lambda>ops.
     let a = ops ! 0; b = ops ! 1; c = ops ! 2 in
     case split_element (felt_from_u64 (as_canonical_u64 a * as_canonical_u64 b + as_canonical_u64 c)) of
       (hi, lo) \<Rightarrow>
     res_bind (decrement_size P s) (\<lambda>s.
     res_bind (set_at P s 0 lo) (\<lambda>s.
     set_at P s 1 hi)))"

definition op_u32div :: "('s, 'q) processor \<Rightarrow> 's \<Rightarrow> 's res" where
  "op_u32div P s =
     res_bind (require_u32_operands P s [0, 1]) (\<lambda>ops.
     let denominator = as_canonical_u64 (ops ! 0); numerator = as_canonical_u64 (ops ! 1) in
     if denominator = 0 then Inl (OperationErr DivideByZero)
     else
       let quotient = numerator div denominator;
           remainder = numerator - quotient * denominator in
       res_bind (set_at P s 0 (felt_from_u64 remainder)) (\<lambda>s.
       set_at P s 1 (felt_from_u64 quotient)))"

definition op_u32and :: "('s, 'q) processor \<Rightarrow> 's \<Rightarrow> 's res" where
  "op_u32and P s =
     res_bind (require_u32_operands P s [0, 1]) (\<lambda>ops.
     let result = as_canonical_u64 (ops ! 0) AND as_canonical_u64 (ops ! 1) in
     res_bind (decrement_size P s) (\<lambda>s.
     set_at P s 0 (felt_from_u64 result)))"

definition op_u32xor :: "('s, 'q) processor \<Rightarrow> 's \<Rightarrow> 's res" where
  "op_u32xor P s =
     res_bind (require_u32_operands P s [0, 1]) (\<lambda>ops.
     let result = as_canonical_u64 (ops ! 0) XOR as_canonical_u64 (ops ! 1) in
     res_bind (decrement_size P s) (\<lambda>s.
     set_at P s 0 (felt_from_u64 result)))"

definition op_u32assert2 ::
    "('s, 'q) processor \<Rightarrow> (felt \<Rightarrow> string option) \<Rightarrow> 's \<Rightarrow> felt \<Rightarrow> 's res" where
  "op_u32assert2 P resolve_error_message s err_code =
     res_bind (get P s 0) (\<lambda>first.
     res_bind (get P s 1) (\<lambda>second.
     let first_invalid = as_canonical_u64 first > U32_MAX;
         second_invalid = as_canonical_u64 second > U32_MAX in
     if first_invalid \<or> second_invalid
     then let invalid_values = (if first_invalid then [first] else []) @ (if second_invalid then [second] else []) in
          if err_code \<noteq> 0
          then Inl (OperationErr (U32AssertionFailed err_code (resolve_error_message err_code) invalid_values))
          else Inl (OperationErr (NotU32Values invalid_values))
     else Inr s))"

declare op_u32split_def [op_defs] and op_u32add_def [op_defs] and op_u32add3_def [op_defs]
  and op_u32sub_def [op_defs] and op_u32mul_def [op_defs] and op_u32madd_def [op_defs]
  and op_u32div_def [op_defs] and op_u32and_def [op_defs] and op_u32xor_def [op_defs]
  and op_u32assert2_def [op_defs] and require_u32_operands_def [op_defs]

section \<open>Arithmetic\<close>

definition is_u32 :: "felt \<Rightarrow> bool" where
  "is_u32 x \<longleftrightarrow> Rep_felt x < 2 ^ 32"

lemma above_U32_MAX: "as_canonical_u64 x > U32_MAX \<longleftrightarrow> \<not> is_u32 x"
  by (auto simp: word_less_def U32_MAX_def is_u32_def)

lemma is_u32_D: "is_u32 x \<Longrightarrow> 0 \<le> Rep_felt x \<and> Rep_felt x \<le> 4294967295"
  by (simp add: is_u32_def)

lemma Rep_felt_of_int_small: "0 \<le> k \<Longrightarrow> k < ORDER \<Longrightarrow> Rep_felt (of_int k) = k"
  by (simp add: Rep_felt_of_int)

lemma is_u32_of_int: "0 \<le> k \<Longrightarrow> k < 2 ^ 32 \<Longrightarrow> is_u32 (of_int k)"
  by (simp add: is_u32_def Rep_felt_of_int_small ORDER_def)

lemma felt_from_u64_eq: "uint w = k \<Longrightarrow> felt_from_u64 w = of_int k"
  by (simp only: felt_from_u64_def)

lemma split_element_eq:
  "split_element x = (of_int (Rep_felt x div 2 ^ 32), of_int (Rep_felt x mod 2 ^ 32))"
proof -
  have "uint (ucast (ucast (as_canonical_u64 x) :: u32) :: u64) = Rep_felt x mod 2 ^ 32"
    by (simp add: unsigned_ucast_eq take_bit_eq_mod uint_mod)
  moreover have "uint (drop_bit 32 (as_canonical_u64 x)) = Rep_felt x div 2 ^ 32"
    by (simp add: drop_bit_eq_div uint_div)
  ultimately show ?thesis
    by (simp only: split_element_def Let_def felt_from_u64_eq)
qed

lemma split_sum:
  assumes "0 \<le> k" "k < ORDER" "uint w = k"
  shows "split_element (felt_from_u64 w) = (of_int (k div 2 ^ 32), of_int (k mod 2 ^ 32))"
  using assms by (simp only: split_element_eq felt_from_u64_eq Rep_felt_of_int_small)

lemma uint_add_u32: "is_u32 a \<Longrightarrow> is_u32 b \<Longrightarrow>
    uint (as_canonical_u64 a + as_canonical_u64 b) = Rep_felt a + Rep_felt b"
  by (drule is_u32_D, drule is_u32_D) (simp add: uint_word_ariths)

lemma uint_mul_u32:
  assumes "is_u32 a" "is_u32 b"
  shows "uint (as_canonical_u64 a * as_canonical_u64 b) = Rep_felt a * Rep_felt b"
proof -
  have "Rep_felt a * Rep_felt b \<le> 4294967295 * 4294967295"
    using assms by (intro mult_mono) (auto dest: is_u32_D)
  moreover have "0 \<le> Rep_felt a * Rep_felt b" by simp
  ultimately show ?thesis by (simp add: uint_word_ariths)
qed

lemma u32_mul_add_bound:
  assumes "is_u32 a" "is_u32 b" "is_u32 c"
  shows "0 \<le> Rep_felt a * Rep_felt b + Rep_felt c" "Rep_felt a * Rep_felt b + Rep_felt c < ORDER"
proof -
  have "Rep_felt a * Rep_felt b \<le> 4294967295 * 4294967295"
    using assms by (intro mult_mono) (auto dest: is_u32_D)
  with is_u32_D [OF assms(3)] show "Rep_felt a * Rep_felt b + Rep_felt c < ORDER"
    by (simp add: ORDER_def)
qed simp

lemma uint_madd_u32:
  assumes "is_u32 a" "is_u32 b" "is_u32 c"
  shows "uint (as_canonical_u64 a * as_canonical_u64 b + as_canonical_u64 c) = Rep_felt a * Rep_felt b + Rep_felt c"
  using uint_mul_u32 [OF assms(1,2)] u32_mul_add_bound [OF assms]
  by (simp add: uint_word_ariths(1) ORDER_def)

lemma u32_sub_words:
  assumes "is_u32 a" "is_u32 b"
  shows "felt_from_u64 (drop_bit 63 (as_canonical_u64 a - as_canonical_u64 b)) = felt_from_bool (Rep_felt a < Rep_felt b)"
    and "felt_from_u64 ((as_canonical_u64 a - as_canonical_u64 b) AND 0xFFFFFFFF) = of_int ((Rep_felt a - Rep_felt b) mod 2 ^ 32)"
proof -
  let ?d = "Rep_felt a - Rep_felt b"
  have u: "uint (as_canonical_u64 a - as_canonical_u64 b) = ?d mod 2 ^ 64"
    by (simp add: uint_word_ariths)
  have b: "- 4294967296 < ?d" "?d < 4294967296"
    using is_u32_D [OF assms(1)] is_u32_D [OF assms(2)] by linarith+
  have m: "?d mod 2 ^ 64 = (if ?d < 0 then ?d + 2 ^ 64 else ?d)"
  proof (cases "?d < 0")
    case True
    then have "(?d + 2 ^ 64) mod 2 ^ 64 = ?d + 2 ^ 64" using b by (intro mod_pos_pos_trivial) auto
    with True show ?thesis by (simp only: mod_add_self2 if_True)
  next
    case False
    then show ?thesis using b by (simp only: if_False) (intro mod_pos_pos_trivial, auto)
  qed
  have "uint (drop_bit 63 (as_canonical_u64 a - as_canonical_u64 b)) = (?d mod 2 ^ 64) div 2 ^ 63"
    unfolding u [symmetric] by (simp add: drop_bit_eq_div uint_div)
  also have "\<dots> = (if ?d < 0 then 1 else 0)"
    unfolding m using b by (auto simp: div_pos_pos_trivial intro: div_pos_pos_trivial)
  finally have "felt_from_u64 (drop_bit 63 (as_canonical_u64 a - as_canonical_u64 b)) = of_int (if ?d < 0 then 1 else 0)"
    by (rule felt_from_u64_eq)
  then show "felt_from_u64 (drop_bit 63 (as_canonical_u64 a - as_canonical_u64 b)) = felt_from_bool (Rep_felt a < Rep_felt b)"
    by (simp add: felt_from_bool_def)
  have "uint ((as_canonical_u64 a - as_canonical_u64 b) AND 0xFFFFFFFF) = ?d mod 2 ^ 64 mod 2 ^ 32"
  proof -
    have "(0xFFFFFFFF :: u64) = mask 32" by (simp add: mask_eq_exp_minus_1)
    then show ?thesis
      unfolding u [symmetric] by (simp only: take_bit_eq_mask [symmetric] take_bit_eq_mod) (simp add: uint_mod)
  qed
  also have "\<dots> = ?d mod 2 ^ 32" by (rule mod_mod_cancel) simp
  finally show "felt_from_u64 ((as_canonical_u64 a - as_canonical_u64 b) AND 0xFFFFFFFF) = of_int (?d mod 2 ^ 32)"
    by (rule felt_from_u64_eq)
qed

lemma u32_div_words:
  assumes "Rep_felt b \<noteq> 0"
  shows "felt_from_u64 (as_canonical_u64 a div as_canonical_u64 b) = of_int (Rep_felt a div Rep_felt b)"
    and "felt_from_u64 (as_canonical_u64 a - as_canonical_u64 a div as_canonical_u64 b * as_canonical_u64 b)
       = of_int (Rep_felt a mod Rep_felt b)"
proof -
  show "felt_from_u64 (as_canonical_u64 a div as_canonical_u64 b) = of_int (Rep_felt a div Rep_felt b)"
    by (rule felt_from_u64_eq) (simp add: uint_div)
  have "as_canonical_u64 a - as_canonical_u64 a div as_canonical_u64 b * as_canonical_u64 b
      = as_canonical_u64 a mod as_canonical_u64 b"
    by (simp add: minus_div_mult_eq_mod)
  then show "felt_from_u64 (as_canonical_u64 a - as_canonical_u64 a div as_canonical_u64 b * as_canonical_u64 b)
       = of_int (Rep_felt a mod Rep_felt b)"
    by (metis felt_from_u64_eq uint_mod uint_as_canonical_u64)
qed

lemma u32_bit_words:
  "felt_from_u64 (as_canonical_u64 a AND as_canonical_u64 b) = of_int (Rep_felt a AND Rep_felt b)"
  "felt_from_u64 (as_canonical_u64 a XOR as_canonical_u64 b) = of_int (Rep_felt a XOR Rep_felt b)"
  by (rule felt_from_u64_eq; simp add: unsigned_and_eq unsigned_xor_eq)+

lemma split_add:
  assumes "is_u32 a" "is_u32 b"
  shows "split_element (felt_from_u64 (as_canonical_u64 a + as_canonical_u64 b)) =
    (of_int ((Rep_felt a + Rep_felt b) div 2 ^ 32), of_int ((Rep_felt a + Rep_felt b) mod 2 ^ 32))"
  by (rule split_sum [OF _ _ uint_add_u32 [OF assms]])
     (use is_u32_D [OF assms(1)] is_u32_D [OF assms(2)] in \<open>auto simp: ORDER_def\<close>)

lemma split_add3:
  assumes "is_u32 a" "is_u32 b" "is_u32 c"
  shows "split_element (felt_from_u64 (as_canonical_u64 a + as_canonical_u64 b + as_canonical_u64 c)) =
    (of_int ((Rep_felt a + Rep_felt b + Rep_felt c) div 2 ^ 32), of_int ((Rep_felt a + Rep_felt b + Rep_felt c) mod 2 ^ 32))"
proof (rule split_sum)
  show "uint (as_canonical_u64 a + as_canonical_u64 b + as_canonical_u64 c) = Rep_felt a + Rep_felt b + Rep_felt c"
    using uint_add_u32 [OF assms(1,2)] assms [THEN is_u32_D] by (simp add: uint_word_ariths(1))
qed (use assms [THEN is_u32_D] in \<open>auto simp: ORDER_def\<close>)

lemma split_mul:
  assumes "is_u32 a" "is_u32 b"
  shows "split_element (felt_from_u64 (as_canonical_u64 a * as_canonical_u64 b)) =
    (of_int (Rep_felt a * Rep_felt b div 2 ^ 32), of_int (Rep_felt a * Rep_felt b mod 2 ^ 32))"
  by (rule split_sum [OF _ _ uint_mul_u32 [OF assms]])
     (use u32_mul_add_bound [OF assms, of 0] in \<open>auto simp: is_u32_def\<close>)

lemma split_madd:
  assumes "is_u32 a" "is_u32 b" "is_u32 c"
  shows "split_element (felt_from_u64 (as_canonical_u64 a * as_canonical_u64 b + as_canonical_u64 c)) =
    (of_int ((Rep_felt a * Rep_felt b + Rep_felt c) div 2 ^ 32), of_int ((Rep_felt a * Rep_felt b + Rep_felt c) mod 2 ^ 32))"
  by (rule split_sum [OF u32_mul_add_bound [OF assms] uint_madd_u32 [OF assms]])

lemmas u32_word_simps = split_add split_add3 split_mul split_madd u32_sub_words u32_div_words u32_bit_words

section \<open>Behaviour\<close>

definition not_u32 :: "felt list \<Rightarrow> felt list" where
  "not_u32 xs = filter (\<lambda>x. \<not> is_u32 x) xs"

lemma not_u32_Nil: "not_u32 xs = [] \<longleftrightarrow> (\<forall>x \<in> set xs. is_u32 x)"
  by (auto simp: not_u32_def filter_empty_conv)

context processor_laws
begin

lemma read_operands_law:
  "good s \<Longrightarrow> \<forall>i \<in> set is. i < 16 \<Longrightarrow> read_operands P s is = Inr (map ((!!) (v_stack (view s))) is)"
  by (induction "is") (auto simp: get_law)

lemma require_u32_law:
  assumes "good s" "\<forall>i \<in> set is. i < 16"
  shows "require_u32_operands P s is = (let xs = map ((!!) (v_stack (view s))) is in
     if not_u32 xs \<noteq> [] then Inl (OperationErr (NotU32Values (not_u32 xs))) else Inr xs)"
  using assms by (simp add: require_u32_operands_def read_operands_law above_U32_MAX not_u32_def Let_def)

text \<open>Shape of an operation that first checks its operands.\<close>

lemma sim_require_u32:
  assumes "good s" "\<forall>i \<in> set is. i < 16" "xs = map ((!!) (v_stack (view s))) is"
    and "not_u32 xs = [] \<Longrightarrow> sim good view (f xs) am"
  shows "sim good view (res_bind (require_u32_operands P s is) f)
     (if not_u32 xs \<noteq> [] then Inl (OperationErr (NotU32Values (not_u32 xs))) else am)"
  using assms by (simp add: require_u32_law Let_def sim_Inl)

lemma op_u32split_sim:
  assumes "good s" "v_stack (view s) = a ## t"
  shows "sim good view (op_u32split P s)
     (Inr (vgrow (of_int (Rep_felt a mod 2 ^ 32) ## of_int (Rep_felt a div 2 ^ 32) ## t) (view s)))"
  using assms by (auto simp: op_u32split_def split_element_eq vm_defs stack_simps intro!: sim_stack_intros)

lemma op_u32add_sim:
  assumes "good s" "v_stack (view s) = a ## b ## t"
  shows "sim good view (op_u32add P s)
     (if not_u32 [a, b] \<noteq> [] then Inl (OperationErr (NotU32Values (not_u32 [a, b])))
      else Inr (vkeep (of_int ((Rep_felt a + Rep_felt b) mod 2 ^ 32) ## of_int ((Rep_felt a + Rep_felt b) div 2 ^ 32) ## t) (view s)))"
  unfolding op_u32add_def
  by (rule sim_require_u32 [OF assms(1), where xs = "[a, b]"])
     (use assms in \<open>auto simp: not_u32_Nil u32_word_simps vm_defs Let_def intro!: sim_stack_intros sim_Inl\<close>)

lemma op_u32add3_sim:
  assumes "good s" "v_stack (view s) = a ## b ## c ## t"
  shows "sim good view (op_u32add3 P s)
     (if not_u32 [a, b, c] \<noteq> [] then Inl (OperationErr (NotU32Values (not_u32 [a, b, c])))
      else Inr (vshrink (of_int ((Rep_felt a + Rep_felt b + Rep_felt c) mod 2 ^ 32) ## of_int ((Rep_felt a + Rep_felt b + Rep_felt c) div 2 ^ 32) ## t) (view s)))"
  unfolding op_u32add3_def
  by (rule sim_require_u32 [OF assms(1), where xs = "[a, b, c]"])
     (use assms in \<open>auto simp: not_u32_Nil u32_word_simps vm_defs Let_def intro!: sim_stack_intros sim_Inl\<close>)

lemma op_u32sub_sim:
  assumes "good s" "v_stack (view s) = b ## a ## t"
  shows "sim good view (op_u32sub P s)
     (if not_u32 [b, a] \<noteq> [] then Inl (OperationErr (NotU32Values (not_u32 [b, a])))
      else Inr (vkeep (felt_from_bool (Rep_felt a < Rep_felt b) ## of_int ((Rep_felt a - Rep_felt b) mod 2 ^ 32) ## t) (view s)))"
  unfolding op_u32sub_def
  by (rule sim_require_u32 [OF assms(1), where xs = "[b, a]"])
     (use assms in \<open>auto simp: not_u32_Nil u32_word_simps vm_defs Let_def intro!: sim_stack_intros sim_Inl\<close>)

lemma op_u32mul_sim:
  assumes "good s" "v_stack (view s) = a ## b ## t"
  shows "sim good view (op_u32mul P s)
     (if not_u32 [a, b] \<noteq> [] then Inl (OperationErr (NotU32Values (not_u32 [a, b])))
      else Inr (vkeep (of_int (Rep_felt a * Rep_felt b mod 2 ^ 32) ## of_int (Rep_felt a * Rep_felt b div 2 ^ 32) ## t) (view s)))"
  unfolding op_u32mul_def
  by (rule sim_require_u32 [OF assms(1), where xs = "[a, b]"])
     (use assms in \<open>auto simp: not_u32_Nil u32_word_simps vm_defs Let_def intro!: sim_stack_intros sim_Inl\<close>)

lemma op_u32madd_sim:
  assumes "good s" "v_stack (view s) = a ## b ## c ## t"
  shows "sim good view (op_u32madd P s)
     (if not_u32 [a, b, c] \<noteq> [] then Inl (OperationErr (NotU32Values (not_u32 [a, b, c])))
      else Inr (vshrink (of_int ((Rep_felt a * Rep_felt b + Rep_felt c) mod 2 ^ 32) ## of_int ((Rep_felt a * Rep_felt b + Rep_felt c) div 2 ^ 32) ## t) (view s)))"
  unfolding op_u32madd_def
  by (rule sim_require_u32 [OF assms(1), where xs = "[a, b, c]"])
     (use assms in \<open>auto simp: not_u32_Nil u32_word_simps vm_defs Let_def intro!: sim_stack_intros sim_Inl\<close>)

lemma op_u32div_sim:
  assumes "good s" "v_stack (view s) = b ## a ## t"
  shows "sim good view (op_u32div P s)
     (if not_u32 [b, a] \<noteq> [] then Inl (OperationErr (NotU32Values (not_u32 [b, a])))
      else if b = 0 then Inl (OperationErr DivideByZero)
      else Inr (vkeep (of_int (Rep_felt a mod Rep_felt b) ## of_int (Rep_felt a div Rep_felt b) ## t) (view s)))"
  unfolding op_u32div_def
  by (rule sim_require_u32 [OF assms(1), where xs = "[b, a]"])
     (use assms in \<open>auto simp: not_u32_Nil u32_word_simps vm_defs Let_def intro!: sim_stack_intros sim_Inl\<close>)

lemma op_u32and_sim:
  assumes "good s" "v_stack (view s) = a ## b ## t"
  shows "sim good view (op_u32and P s)
     (if not_u32 [a, b] \<noteq> [] then Inl (OperationErr (NotU32Values (not_u32 [a, b])))
      else Inr (vshrink (of_int (Rep_felt a AND Rep_felt b) ## t) (view s)))"
  unfolding op_u32and_def
  by (rule sim_require_u32 [OF assms(1), where xs = "[a, b]"])
     (use assms in \<open>auto simp: not_u32_Nil u32_word_simps vm_defs Let_def intro!: sim_stack_intros sim_Inl\<close>)

lemma op_u32xor_sim:
  assumes "good s" "v_stack (view s) = a ## b ## t"
  shows "sim good view (op_u32xor P s)
     (if not_u32 [a, b] \<noteq> [] then Inl (OperationErr (NotU32Values (not_u32 [a, b])))
      else Inr (vshrink (of_int (Rep_felt a XOR Rep_felt b) ## t) (view s)))"
  unfolding op_u32xor_def
  by (rule sim_require_u32 [OF assms(1), where xs = "[a, b]"])
     (use assms in \<open>auto simp: not_u32_Nil u32_word_simps vm_defs Let_def intro!: sim_stack_intros sim_Inl\<close>)

lemma op_u32assert2_sim:
  assumes "good s" "v_stack (view s) = a ## b ## t"
  shows "sim good view (op_u32assert2 P resolve s err_code)
     (if not_u32 [a, b] \<noteq> []
      then Inl (OperationErr (if err_code \<noteq> 0 then U32AssertionFailed err_code (resolve err_code) (not_u32 [a, b])
                              else NotU32Values (not_u32 [a, b])))
      else Inr (view s))"
  using assms
  by (auto simp: op_u32assert2_def not_u32_def above_U32_MAX [unfolded not_le] Let_def stack_simps
      intro!: sim_Inl sim_Inr)

end

end
