(* ===== verification/Fri_Ops.thy ===== *)
theory Fri_Ops
  imports Crypto_Ops
begin

text \<open>
  The FRI folding operation, \<open>processor/src/execution/operations/fri_ops/mod.rs\<close>.  The values
  interpolated into the two error messages are left out.  Besides the behaviour of the handler it is
  shown that \<open>fold4\<close> computes what the FRI protocol asks for: the value at the challenge \<open>\<alpha>\<close> of the
  polynomial of degree below 4 that takes the four query values on the coset of \<open>x\<close>.
\<close>

unbundle bit_operations_syntax

section \<open>Model\<close>

definition EIGHT :: felt where
  "EIGHT = 8"

definition TWO_INV :: felt where
  "TWO_INV = 9223372034707292161"

definition TAU_INV :: felt where
  "TAU_INV = 18446462594437873665"

definition TAU2_INV :: felt where
  "TAU2_INV = 18446744069414584320"

definition TAU3_INV :: felt where
  "TAU3_INV = 281474976710656"

type_synonym quad4 = "quad \<times> quad \<times> quad \<times> quad"

definition get_query_values :: "('s, 'q) processor \<Rightarrow> 's \<Rightarrow> quad4 res" where
  "get_query_values P s =
     res_bind (get_word P s 0) (\<lambda>w. case w of FWord v0 v1 v2 v3 \<Rightarrow>
     res_bind (get_word P s 4) (\<lambda>w. case w of FWord v4 v5 v6 v7 \<Rightarrow>
     Inr (Quad v0 v1, Quad v2 v3, Quad v4 v5, Quad v6 v7)))"

definition quad4_nth :: "quad4 \<Rightarrow> nat \<Rightarrow> quad" where
  "quad4_nth v i = (case v of (a, b, c, d) \<Rightarrow> [a, b, c, d] ! i)"

definition bit_reverse_segment :: "nat \<Rightarrow> nat res" where
  "bit_reverse_segment domain_segment =
     (if domain_segment = 0 then Inr 0
      else if domain_segment = 1 then Inr 2
      else if domain_segment = 2 then Inr 1
      else if domain_segment = 3 then Inr 3
      else Inl (Panic ''invalid domain segment''))"

definition reorder_bitrev4 :: "quad4 \<Rightarrow> quad4" where
  "reorder_bitrev4 values = (case values of (a, b, c, d) \<Rightarrow> (a, c, b, d))"

definition get_tau_factor :: "nat \<Rightarrow> felt res" where
  "get_tau_factor domain_segment =
     (if domain_segment = 0 then Inr 1
      else if domain_segment = 1 then Inr TAU_INV
      else if domain_segment = 2 then Inr TAU2_INV
      else if domain_segment = 3 then Inr TAU3_INV
      else Inl (Panic ''invalid domain segment''))"

definition get_domain_segment_flags :: "nat \<Rightarrow> fword res" where
  "get_domain_segment_flags domain_segment =
     (if domain_segment = 0 then Inr (FWord 1 0 0 0)
      else if domain_segment = 1 then Inr (FWord 0 1 0 0)
      else if domain_segment = 2 then Inr (FWord 0 0 1 0)
      else if domain_segment = 3 then Inr (FWord 0 0 0 1)
      else Inl (Panic ''invalid domain segment''))"

definition compute_evaluation_points :: "quad \<Rightarrow> felt \<Rightarrow> quad \<times> quad" where
  "compute_evaluation_points alpha x_inv =
     (let ev = qscale alpha x_inv; es = ev * ev in (ev, es))"

definition fold2 :: "quad \<Rightarrow> quad \<Rightarrow> quad \<Rightarrow> quad" where
  "fold2 f_x f_neg_x ep = qscale (f_x + f_neg_x + (f_x - f_neg_x) * ep) TWO_INV"

definition fold4 :: "quad4 \<Rightarrow> quad \<Rightarrow> quad \<Rightarrow> quad \<times> quad \<times> quad" where
  "fold4 values ev es =
     (let tmp0 = fold2 (quad4_nth values 0) (quad4_nth values 2) ev;
          tmp1 = fold2 (quad4_nth values 1) (quad4_nth values 3) (qscale ev TAU_INV);
          folded_value = fold2 tmp0 tmp1 es in
      (folded_value, tmp0, tmp1))"

definition op_fri_ext2fold4 :: "('s, 'q) processor \<Rightarrow> 's \<Rightarrow> 's res" where
  "op_fri_ext2fold4 P s =
     res_bind (get_query_values P s) (\<lambda>query_values.
     let query_values_reordered = reorder_bitrev4 query_values in
     res_bind (get P s 9) (\<lambda>p_elem.
     let p = as_canonical_u64 p_elem;
         domain_segment = p AND 3;
         folded_pos = felt_from_u64 (drop_bit 2 p) in
     res_bind (get P s 10) (\<lambda>poe.
     if poe = 0 then Inl (OperationErr (FriError ''domain size was 0'')) else
     res_bind (get P s 11) (\<lambda>pe0.
     res_bind (get P s 12) (\<lambda>pe1.
     let prev_value = Quad pe0 pe1 in
     res_bind (get P s 13) (\<lambda>a0.
     res_bind (get P s 14) (\<lambda>a1.
     let alpha = Quad a0 a1 in
     res_bind (get P s 15) (\<lambda>layer_ptr.
     if domain_segment > 3 then Inl (OperationErr (FriError ''domain segment value cannot exceed 3'')) else
     let d_seg = unat domain_segment in
     if quad4_nth query_values d_seg \<noteq> prev_value
     then Inl (OperationErr (FriError ''degree-respecting projection is inconsistent'')) else
     res_bind (bit_reverse_segment d_seg) (\<lambda>d_seg_rev.
     res_bind (get_tau_factor d_seg_rev) (\<lambda>f_tau.
     let x = poe * f_tau;
         x_inv = inverse x;
         (ev, es) = compute_evaluation_points alpha x_inv;
         (folded_value, tmp0, tmp1) = fold4 query_values_reordered ev es in
     res_bind (get_domain_segment_flags d_seg_rev) (\<lambda>ds.
     let poe2 = poe * poe;
         poe4 = poe2 * poe2 in
     res_bind (decrement_size P s) (\<lambda>s.
     res_bind (set_at P s 0 (q0 tmp0)) (\<lambda>s.
     res_bind (set_at P s 1 (q1 tmp0)) (\<lambda>s.
     res_bind (set_at P s 2 (q0 tmp1)) (\<lambda>s.
     res_bind (set_at P s 3 (q1 tmp1)) (\<lambda>s.
     res_bind (set_word P s 4 ds) (\<lambda>s.
     res_bind (set_at P s 8 poe2) (\<lambda>s.
     res_bind (set_at P s 9 f_tau) (\<lambda>s.
     res_bind (set_at P s 10 (layer_ptr + EIGHT)) (\<lambda>s.
     res_bind (set_at P s 11 poe4) (\<lambda>s.
     res_bind (set_at P s 12 folded_pos) (\<lambda>s.
     res_bind (set_at P s 13 (q0 folded_value)) (\<lambda>s.
     set_at P s 14 (q1 folded_value))))))))))))))))))))))))"

section \<open>Folding\<close>

lemma TWO_INV_half: "2 * TWO_INV = 1"
  by (simp add: TWO_INV_def felt_numeral_eq)

lemma TAU_INV_square: "TAU_INV * TAU_INV = - 1"
  by (simp add: TAU_INV_def)

lemma TAU3_INV_eq: "TAU3_INV = - TAU_INV"
  by (simp add: TAU3_INV_def TAU_INV_def)

lemma TAU2_INV_eq: "TAU2_INV = - 1"
  by (simp add: TAU2_INV_def)

text \<open>A polynomial of degree below 4 over the extension.\<close>

definition cubic :: "quad4 \<Rightarrow> quad \<Rightarrow> quad" where
  "cubic c x = (case c of (c0, c1, c2, c3) \<Rightarrow> c0 + c1 * x + c2 * x ^ 2 + c3 * x ^ 3)"

lemma fold2_even_odd:
  assumes "y * z = 1"
  shows "fold2 (e + y * d) (e - y * d) (a * z) = e + a * d"
proof -
  have h: "quad_of TWO_INV + quad_of TWO_INV = 1"
    by (metis TWO_INV_half mult_2 quad_of_simps(2,3))
  have "fold2 (e + y * d) (e - y * d) (a * z) = (e + (y * z) * (a * d)) * (quad_of TWO_INV + quad_of TWO_INV)"
    by (simp add: fold2_def qscale_eq algebra_simps)
  then show ?thesis by (simp add: assms h)
qed

lemma cubic_split: "x ^ 2 = y \<Longrightarrow> cubic (c0, c1, c2, c3) x = (c0 + c2 * y) + x * (c1 + c3 * y)"
  by (auto simp: cubic_def power2_eq_square power3_eq_cube algebra_simps)

lemma fold4_fold2:
  "fst (fold4 (a, b, c, d) (qscale \<alpha> x) (qscale \<alpha> x * qscale \<alpha> x)) =
     fold2 (fold2 a c (\<alpha> * quad_of x)) (fold2 b d (\<alpha> * (quad_of x * quad_of TAU_INV))) (\<alpha> ^ 2 * quad_of x ^ 2)"
  by (simp add: fold4_def quad4_nth_def qscale_eq power2_eq_square Let_def mult_ac)

lemma fold4_cubic:
  assumes "x \<noteq> 0"
  defines "y \<equiv> quad_of x" and "\<tau> \<equiv> quad_of TAU3_INV"
  shows "fst (fold4 (cubic c y, cubic c (\<tau> * y), cubic c (\<tau> ^ 2 * y), cubic c (\<tau> ^ 3 * y))
     (qscale \<alpha> (inverse x)) (qscale \<alpha> (inverse x) * qscale \<alpha> (inverse x))) = cubic c \<alpha>"
proof -
  obtain c0 c1 c2 c3 where c: "c = (c0, c1, c2, c3)" by (cases c)
  let ?z = "quad_of (inverse x)" and ?t = "quad_of TAU_INV"
  have yz: "y * ?z = 1" using assms by (simp flip: quad_of_simps(4))
  have tt: "?t * ?t = - 1" by (metis TAU_INV_square quad_of_simps(2,4,5))
  have tau: "\<tau> = - ?t" by (simp add: \<tau>_def TAU3_INV_eq)
  have t2: "\<tau> ^ 2 = - 1" by (simp add: tau power2_eq_square tt)
  have t3: "\<tau> ^ 3 = - \<tau>" by (simp add: tau power3_eq_cube tt)
  have sq: "(\<tau> * y) ^ 2 = - (y ^ 2)" by (simp add: power_mult_distrib t2)
  let ?e = "c0 + c2 * y ^ 2" and ?d = "c1 + c3 * y ^ 2"
  let ?e' = "c0 + c2 * - (y ^ 2)" and ?d' = "c1 + c3 * - (y ^ 2)"
  have v: "cubic c y = ?e + y * ?d" "cubic c (\<tau> ^ 2 * y) = ?e - y * ?d"
    using cubic_split [of "- y" "y ^ 2"] by (simp_all add: c t2 cubic_split)
  have v': "cubic c (\<tau> * y) = ?e' + (\<tau> * y) * ?d'" "cubic c (\<tau> ^ 3 * y) = ?e' - (\<tau> * y) * ?d'"
    using cubic_split [of "\<tau> * y", OF sq] cubic_split [of "- (\<tau> * y)" "- (y ^ 2)"]
    by (simp_all add: c t3 sq)
  have tz: "(\<tau> * y) * (?z * ?t) = 1"
  proof -
    have "(\<tau> * y) * (?z * ?t) = - ((y * ?z) * (?t * ?t))" by (simp add: tau algebra_simps)
    then show ?thesis by (simp add: yz tt)
  qed
  have yz2: "y ^ 2 * ?z ^ 2 = 1" using yz by (simp flip: power_mult_distrib)
  have "fold2 (?e + \<alpha> * ?d) (?e' + \<alpha> * ?d') (\<alpha> ^ 2 * ?z ^ 2) = cubic c \<alpha>"
    using fold2_even_odd [OF yz2, of "c0 + \<alpha> * c1" "c2 + \<alpha> * c3" "\<alpha> ^ 2"]
    by (simp add: c cubic_def power2_eq_square power3_eq_cube algebra_simps)
  then show ?thesis
    unfolding fold4_fold2 v v' fold2_even_odd [OF yz] fold2_even_odd [OF tz] .
qed

section \<open>Behaviour\<close>

definition segment_rev :: "nat \<Rightarrow> nat" where
  "segment_rev i = [0, 2, 1, 3] ! i"

definition isa_fri :: "'m vm \<Rightarrow> 'm vm res" where
  "isa_fri \<sigma> = (let st = v_stack \<sigma>;
       v = (Quad (st !! 0) (st !! 1), Quad (st !! 2) (st !! 3), Quad (st !! 4) (st !! 5), Quad (st !! 6) (st !! 7));
       p = Rep_felt (st !! 9); seg = nat (p mod 4); poe = st !! 10; \<alpha> = Quad (st !! 13) (st !! 14) in
     if poe = 0 then Inl (OperationErr (FriError ''domain size was 0''))
     else if quad4_nth v seg \<noteq> Quad (st !! 11) (st !! 12)
     then Inl (OperationErr (FriError ''degree-respecting projection is inconsistent''))
     else let f_tau = TAU_INV ^ segment_rev seg; ev = qscale \<alpha> (inverse (poe * f_tau)) in
       case fold4 (reorder_bitrev4 v) ev (ev * ev) of (w, t0, t1) \<Rightarrow>
       Inr (vshrink (([q0 t0, q1 t0, q0 t1, q1 t1] @ map (\<lambda>i. of_bool (segment_rev seg = i)) [0, 1, 2, 3] @
         [poe ^ 2, f_tau, st !! 15 + 8, poe ^ 4, of_int (p div 4), q0 w, q1 w]) @- sdrop 16 st) \<sigma>))"

declare op_fri_ext2fold4_def [op_defs] and get_query_values_def [op_defs]
  and bit_reverse_segment_def [op_defs] and get_tau_factor_def [op_defs]
  and get_domain_segment_flags_def [op_defs]

declare isa_fri_def [isa_defs]

lemma low_bits: "unat (as_canonical_u64 x AND 3) = nat (Rep_felt x mod 4)"
proof -
  have "as_canonical_u64 x AND 3 = take_bit 2 (as_canonical_u64 x)"
    by (simp add: take_bit_eq_mask mask_eq_exp_minus_1)
  then have "uint (as_canonical_u64 x AND 3) = Rep_felt x mod 4"
    by (simp add: unsigned_take_bit_eq take_bit_eq_mod uint_mod)
  then show ?thesis by (simp add: unat_eq_nat_uint)
qed

lemma low_bits_le: "\<not> as_canonical_u64 x AND 3 > 3"
  by (simp add: word_and_le1 not_less)

lemma high_bits: "felt_from_u64 (drop_bit 2 (as_canonical_u64 x)) = of_int (Rep_felt x div 4)"
  by (simp add: felt_from_u64_def drop_bit_eq_div uint_div)

lemma tau_powers: "TAU_INV ^ 2 = TAU2_INV" "TAU_INV ^ 3 = TAU3_INV"
  by (simp_all add: power2_eq_square power3_eq_cube TAU_INV_square TAU2_INV_eq TAU3_INV_eq)

lemma segment_facts:
  assumes "i < 4"
  shows "bit_reverse_segment i = Inr (segment_rev i)"
    and "get_tau_factor (segment_rev i) = Inr (TAU_INV ^ segment_rev i)"
    and "get_domain_segment_flags (segment_rev i) = Inr (FWord (of_bool (segment_rev i = 0))
      (of_bool (segment_rev i = 1)) (of_bool (segment_rev i = 2)) (of_bool (segment_rev i = 3)))"
proof -
  from assms consider "i = 0" | "i = 1" | "i = 2" | "i = 3" by linarith
  then show "bit_reverse_segment i = Inr (segment_rev i)"
      "get_tau_factor (segment_rev i) = Inr (TAU_INV ^ segment_rev i)"
      "get_domain_segment_flags (segment_rev i) = Inr (FWord (of_bool (segment_rev i = 0))
      (of_bool (segment_rev i = 1)) (of_bool (segment_rev i = 2)) (of_bool (segment_rev i = 3)))"
    by (cases; simp add: bit_reverse_segment_def segment_rev_def get_tau_factor_def get_domain_segment_flags_def
        tau_powers)+
qed

lemma segment_less: "nat (Rep_felt x mod 4) < 4"
  by (simp add: nat_less_iff)

context processor_laws
begin

lemma op_fri_ext2fold4_sim: "good s \<Longrightarrow> sim good view (op_fri_ext2fold4 P s) (isa_fri (view s))"
proof -
  assume g: "good s"
  obtain a0 a1 a2 a3 a4 a5 a6 a7 a8 a9 a10 a11 a12 a13 a14 a15 t where st: "v_stack (view s) =
      a0 ## a1 ## a2 ## a3 ## a4 ## a5 ## a6 ## a7 ## a8 ## a9 ## a10 ## a11 ## a12 ## a13 ## a14 ## a15 ## t"
    by (rule stream_split_16)
  define seg where "seg = nat (Rep_felt a9 mod 4)"
  define d where "d i = (of_bool (segment_rev seg = i) :: felt)" for i
  have seg: "bit_reverse_segment seg = Inr (segment_rev seg)"
      "get_tau_factor (segment_rev seg) = Inr (TAU_INV ^ segment_rev seg)"
      "get_domain_segment_flags (segment_rev seg) = Inr (FWord (d 0) (d 1) (d 2) (d 3))"
    unfolding seg_def d_def by (rule segment_facts [OF segment_less])+
  have rest: "sdrop 16 (v_stack (view s)) = t" by (simp add: st eval_nat_numeral)
  let ?v = "(Quad a0 a1, Quad a2 a3, Quad a4 a5, Quad a6 a7)"
  let ?ev = "qscale (Quad a13 a14) (inverse (a10 * TAU_INV ^ segment_rev seg))"
  obtain w t0 t1 where fold: "fold4 (reorder_bitrev4 ?v) ?ev (?ev * ?ev) = (w, t0, t1)"
    by (metis prod_cases3)
  note defs = rest [unfolded st] op_fri_ext2fold4_def isa_fri_def get_query_values_def machine_simps stack_word_def st
    low_bits low_bits_le high_bits compute_evaluation_points_def EIGHT_def seg_def [symmetric] d_def [symmetric] Let_def
  consider "a10 = 0" | "a10 \<noteq> 0" "quad4_nth ?v seg \<noteq> Quad a11 a12" | "a10 \<noteq> 0" "quad4_nth ?v seg = Quad a11 a12"
    by blast
  then show ?thesis
  proof cases
    case 3
    with g show ?thesis
      by (auto simp: defs seg fold vm_defs power2_eq_square power4_eq_xxxx mult.assoc
          simp del: inverse_mult_distrib intro!: machine_intros)
  qed (use g in \<open>simp_all add: defs sim_Inl\<close>)
qed

end

end
