(* ===== verification/Ace.thy ===== *)
theory Ace
  imports Crypto_Ops
begin

text \<open>
  Arithmetic circuit evaluation: \<open>processor/src/execution/operations/eval_circuit.rs\<close> with the
  circuit evaluation state of \<open>processor/src/trace/chiplets/ace/trace.rs\<close> and the gate encoding of
  \<open>ace/instruction.rs\<close>.  A circuit in memory is a sequence of input wires followed by gates; the wire
  with identifier \<open>i\<close> of \<open>n\<close> is the one inserted at position \<open>n - 1 - i\<close>.  The reference semantics
  \<open>read_vars\<close> and \<open>eval_gates\<close> computes the list of wire values; the handler is shown to accept
  exactly the circuits whose last wire is zero, and the recorded columns and multiplicities are shown
  to be consistent (every gate contributes two reads of the wiring bus).
\<close>

unbundle bit_operations_syntax

section \<open>Model\<close>

subsection \<open>Gate encoding\<close>

definition ID_BITS :: nat where
  "ID_BITS = 30"

definition MAX_ID :: u32 where
  "MAX_ID = 2 ^ 30 - 1"

datatype ace_op = AceSub | AceMul | AceAdd

definition ace_op_try_from :: "u64 \<Rightarrow> ace_op option" where
  "ace_op_try_from v = (if v = 0 then Some AceSub else if v = 1 then Some AceMul
     else if v = 2 then Some AceAdd else None)"

definition decode_instruction :: "felt \<Rightarrow> (u32 \<times> u32 \<times> ace_op) option" where
  "decode_instruction instruction =
     (let remaining = as_canonical_u64 instruction;
          id_l = ucast (remaining AND ucast MAX_ID) :: u32;
          remaining = drop_bit ID_BITS remaining;
          id_r = ucast (remaining AND ucast MAX_ID) :: u32;
          remaining = drop_bit ID_BITS remaining in
      if id_l > MAX_ID \<or> id_r > MAX_ID then None
      else map_option (\<lambda>op. (id_l, id_r, op)) (ace_op_try_from remaining))"

subsection \<open>The wiring bus\<close>

record wire_bus =
  id_next :: felt
  wires :: "(quad \<times> u32) list"
  num_wires :: u32

definition wire_bus_new :: "u32 \<Rightarrow> wire_bus res" where
  "wire_bus_new n =
     (if n = 0 then Inl (Panic ''attempt to subtract with overflow'')
      else Inr \<lparr>id_next = felt_from_u32 (n - 1), wires = [], num_wires = n\<rparr>)"

definition is_finalized :: "wire_bus \<Rightarrow> bool" where
  "is_finalized b = (length (wires b) = unat (num_wires b))"

definition wire_insert :: "wire_bus \<Rightarrow> quad \<Rightarrow> (felt \<times> wire_bus) res" where
  "wire_insert b value =
     (if is_finalized b then Inl (Panic ''assertion failed: !self.is_finalized()'')
      else Inr (id_next b, b\<lparr>wires := wires b @ [(value, 0)], id_next := id_next b - 1\<rparr>))"

definition wire_read_value :: "wire_bus \<Rightarrow> u32 \<Rightarrow> (quad \<times> wire_bus) option" where
  "wire_read_value b i =
     (if unat i + 1 \<le> unat (num_wires b)
      then let k = unat (num_wires b) - (unat i + 1) in
        if k < length (wires b)
        then case wires b ! k of (v, m) \<Rightarrow> Some (v, b\<lparr>wires := (wires b)[k := (v, m + 1)]\<rparr>)
        else None
      else None)"

subsection \<open>The circuit evaluation state\<close>

record wire_column =
  col_id :: "felt list"
  col_v0 :: "felt list"
  col_v1 :: "felt list"

definition wire_column_new :: wire_column where
  "wire_column_new = \<lparr>col_id = [], col_v0 = [], col_v1 = []\<rparr>"

definition column_push :: "wire_column \<Rightarrow> felt \<Rightarrow> quad \<Rightarrow> wire_column" where
  "column_push c i v = \<lparr>col_id = col_id c @ [i], col_v0 = col_v0 c @ [q0 v], col_v1 = col_v1 c @ [q1 v]\<rparr>"

record circuit_evaluation =
  ce_ctx :: ctx_id
  ce_clk :: u32
  ce_bus :: wire_bus
  col_ptr :: "felt list"
  col_op :: "felt list"
  col_wire_out :: wire_column
  col_wire_left :: wire_column
  col_wire_right :: wire_column
  num_read_rows :: u32
  num_eval_rows :: u32

definition circuit_evaluation_new :: "ctx_id \<Rightarrow> u32 \<Rightarrow> u32 \<Rightarrow> u32 \<Rightarrow> circuit_evaluation res" where
  "circuit_evaluation_new c clk n_read n_eval =
     (let n = 2 * (ucast n_read :: u64) + ucast n_eval in
      if n > ucast MAX_ID then Inl (Panic ''too many wires'')
      else res_bind (wire_bus_new (ucast n)) (\<lambda>b.
        Inr \<lparr>ce_ctx = c, ce_clk = clk, ce_bus = b, col_ptr = [], col_op = [],
             col_wire_out = wire_column_new, col_wire_left = wire_column_new,
             col_wire_right = wire_column_new, num_read_rows = n_read, num_eval_rows = n_eval\<rparr>))"

definition do_read :: "circuit_evaluation \<Rightarrow> felt \<Rightarrow> fword \<Rightarrow> circuit_evaluation res" where
  "do_read ce ptr word =
     (let v_0 = Quad (w0 word) (w1 word) in
      res_bind (wire_insert (ce_bus ce) v_0) (\<lambda>(id_0, b).
      let ce = ce\<lparr>ce_bus := b, col_wire_out := column_push (col_wire_out ce) id_0 v_0\<rparr>;
          v_1 = Quad (w2 word) (w3 word) in
      res_bind (wire_insert (ce_bus ce) v_1) (\<lambda>(id_1, b).
      Inr (ce\<lparr>ce_bus := b, col_wire_left := column_push (col_wire_left ce) id_1 v_1,
              col_ptr := col_ptr ce @ [ptr]\<rparr>))))"

definition ace_apply :: "ace_op \<Rightarrow> quad \<Rightarrow> quad \<Rightarrow> quad" where
  "ace_apply op v_l v_r = (case op of AceSub \<Rightarrow> v_l - v_r | AceMul \<Rightarrow> v_l * v_r | AceAdd \<Rightarrow> v_l + v_r)"

definition ace_op_felt :: "ace_op \<Rightarrow> felt" where
  "ace_op_felt op = (case op of AceSub \<Rightarrow> - 1 | AceMul \<Rightarrow> 0 | AceAdd \<Rightarrow> 1)"

abbreviation ace_error :: "string \<Rightarrow> execution_error" where
  "ace_error \<equiv> AceChipError"

definition do_eval :: "circuit_evaluation \<Rightarrow> felt \<Rightarrow> felt \<Rightarrow> circuit_evaluation res" where
  "do_eval ce ptr instruction =
     res_bind (ok_or (decode_instruction instruction) (ace_error ''failed to decode instruction'')) (\<lambda>(id_l, id_r, op).
     res_bind (ok_or (wire_read_value (ce_bus ce) id_l) (ace_error ''failed to read from the wiring bus'')) (\<lambda>(v_l, b).
     let ce = ce\<lparr>ce_bus := b, col_wire_left := column_push (col_wire_left ce) (felt_from_u32 id_l) v_l\<rparr> in
     res_bind (ok_or (wire_read_value (ce_bus ce) id_r) (ace_error ''failed to read from the wiring bus'')) (\<lambda>(v_r, b).
     let ce = ce\<lparr>ce_bus := b, col_wire_right := column_push (col_wire_right ce) (felt_from_u32 id_r) v_r\<rparr>;
         v_out = ace_apply op v_l v_r in
     res_bind (wire_insert (ce_bus ce) v_out) (\<lambda>(id_out, b).
     Inr (ce\<lparr>ce_bus := b, col_wire_out := column_push (col_wire_out ce) id_out v_out,
             col_op := col_op ce @ [ace_op_felt op], col_ptr := col_ptr ce @ [ptr]\<rparr>)))))"

definition output_value :: "circuit_evaluation \<Rightarrow> quad option" where
  "output_value ce =
     (if \<not> is_finalized (ce_bus ce) then None
      else if wires (ce_bus ce) = [] then None else Some (fst (last (wires (ce_bus ce)))))"

subsection \<open>Evaluation of a circuit in memory\<close>

definition PTR_OFFSET_ELEM :: felt where
  "PTR_OFFSET_ELEM = 1"

definition PTR_OFFSET_WORD :: felt where
  "PTR_OFFSET_WORD = 4"

fun ace_read_loop :: "('s, 'q) processor \<Rightarrow> ctx_id \<Rightarrow> u32 \<Rightarrow> nat \<Rightarrow> felt \<Rightarrow> circuit_evaluation \<Rightarrow> 's \<Rightarrow>
    (felt \<times> circuit_evaluation \<times> 's) res" where
  "ace_read_loop P c clk 0 ptr ce s = Inr (ptr, ce, s)"
| "ace_read_loop P c clk (Suc n) ptr ce s =
     res_bind (mem_res (read_word P s c ptr clk)) (\<lambda>(word, s).
     res_bind (do_read ce ptr word) (\<lambda>ce.
     ace_read_loop P c clk n (ptr + PTR_OFFSET_WORD) ce s))"

fun ace_eval_loop :: "('s, 'q) processor \<Rightarrow> ctx_id \<Rightarrow> nat \<Rightarrow> felt \<Rightarrow> circuit_evaluation \<Rightarrow> 's \<Rightarrow>
    (circuit_evaluation \<times> 's) res" where
  "ace_eval_loop P c 0 ptr ce s = Inr (ce, s)"
| "ace_eval_loop P c (Suc n) ptr ce s =
     res_bind (mem_res (read_element P s c ptr)) (\<lambda>(instruction, s).
     res_bind (do_eval ce ptr instruction) (\<lambda>ce.
     ace_eval_loop P c n (ptr + PTR_OFFSET_ELEM) ce s))"

definition u64_saturating_add :: "u64 \<Rightarrow> u64 \<Rightarrow> u64" where
  "u64_saturating_add a b = (if unat a + unat b < 2 ^ 64 then a + b else - 1)"

definition eval_circuit_impl :: "('s, 'q) processor \<Rightarrow> ctx_id \<Rightarrow> felt \<Rightarrow> u32 \<Rightarrow> felt \<Rightarrow> felt \<Rightarrow> 's \<Rightarrow>
    (circuit_evaluation \<times> 's) res" where
  "eval_circuit_impl P c ptr clk n_vars n_eval s =
     (let n_vars = as_canonical_u64 n_vars;
          n_eval = as_canonical_u64 n_eval;
          n_wires = u64_saturating_add n_vars n_eval in
      if n_wires > ucast MAX_ID then Inl (ace_error ''num of wires must be less than 2^30'')
      else if n_vars mod 2 \<noteq> 0 \<or> n_vars = 0
      then Inl (ace_error ''num of variables should be word aligned and non-zero'')
      else if n_eval mod 4 \<noteq> 0 \<or> n_eval = 0
      then Inl (ace_error ''num of evaluation gates should be word aligned and non-zero'')
      else let n_read_rows = ucast (n_vars div 2) :: u32; n_eval_rows = ucast n_eval :: u32 in
        res_bind (circuit_evaluation_new c clk n_read_rows n_eval_rows) (\<lambda>ce.
        res_bind (ace_read_loop P c clk (unat n_read_rows) ptr ce s) (\<lambda>(ptr, ce, s).
        res_bind (ace_eval_loop P c (unat n_eval_rows) ptr ce s) (\<lambda>(ce, s).
        if output_value ce \<noteq> Some 0 then Inl (ace_error ''circuit does not evaluate to zero'')
        else Inr (ce, s)))))"

definition op_eval_circuit :: "('s, 'q) processor \<Rightarrow> 's \<Rightarrow> 's res" where
  "op_eval_circuit P s =
     res_bind (get P s 2) (\<lambda>n_eval.
     res_bind (get P s 1) (\<lambda>n_read.
     res_bind (get P s 0) (\<lambda>ptr.
     let c = ctx P s; clk = clock P s in
     res_bind (eval_circuit_impl P c ptr clk n_read n_eval s) (\<lambda>(_, s).
     Inr s))))"

section \<open>Reference semantics\<close>

definition wire_value :: "nat \<Rightarrow> quad list \<Rightarrow> nat \<Rightarrow> quad option" where
  "wire_value n vs i = (if i < n \<and> n - 1 - i < length vs then Some (vs ! (n - 1 - i)) else None)"

definition gate_value :: "nat \<Rightarrow> quad list \<Rightarrow> felt \<Rightarrow> quad res" where
  "gate_value n vs g =
     res_bind (ok_or (decode_instruction g) (ace_error ''failed to decode instruction'')) (\<lambda>(l, r, op).
     res_bind (ok_or (wire_value n vs (unat l)) (ace_error ''failed to read from the wiring bus'')) (\<lambda>x.
     res_bind (ok_or (wire_value n vs (unat r)) (ace_error ''failed to read from the wiring bus'')) (\<lambda>y.
     Inr (ace_apply op x y))))"

fun read_vars :: "(felt \<Rightarrow> memory_error + fword) \<Rightarrow> nat \<Rightarrow> felt \<Rightarrow> quad list \<Rightarrow> quad list res" where
  "read_vars rd 0 p vs = Inr vs"
| "read_vars rd (Suc k) p vs = res_bind (mem_res (rd p)) (\<lambda>w.
     read_vars rd k (p + 4) (vs @ [Quad (w0 w) (w1 w), Quad (w2 w) (w3 w)]))"

fun eval_gates :: "(felt \<Rightarrow> memory_error + felt) \<Rightarrow> nat \<Rightarrow> nat \<Rightarrow> felt \<Rightarrow> quad list \<Rightarrow> quad list res" where
  "eval_gates rd n 0 p vs = Inr vs"
| "eval_gates rd n (Suc k) p vs = res_bind (mem_res (rd p)) (\<lambda>g.
     res_bind (gate_value n vs g) (\<lambda>v. eval_gates rd n k (p + 1) (vs @ [v])))"

definition circuit_values :: "memory \<Rightarrow> ctx_id \<Rightarrow> felt \<Rightarrow> nat \<Rightarrow> nat \<Rightarrow> quad list res" where
  "circuit_values m c p n_vars n_eval =
     res_bind (read_vars (mem_read_word m c) (n_vars div 2) p []) (\<lambda>vs.
     eval_gates (mem_read_element m c) (n_vars + n_eval) n_eval (p + of_nat (2 * n_vars)) vs)"

definition isa_eval_circuit :: "'m vm \<Rightarrow> 'm vm res" where
  "isa_eval_circuit \<sigma> =
     (let n_vars = nat (Rep_felt (v_stack \<sigma> !! 1)); n_eval = nat (Rep_felt (v_stack \<sigma> !! 2)) in
      if n_vars + n_eval \<ge> 2 ^ 30 then Inl (ace_error ''num of wires must be less than 2^30'')
      else if n_vars mod 2 \<noteq> 0 \<or> n_vars = 0
      then Inl (ace_error ''num of variables should be word aligned and non-zero'')
      else if n_eval mod 4 \<noteq> 0 \<or> n_eval = 0
      then Inl (ace_error ''num of evaluation gates should be word aligned and non-zero'')
      else res_bind (circuit_values (v_mem \<sigma>) (v_ctx \<sigma>) (v_stack \<sigma> !! 0) n_vars n_eval) (\<lambda>vs.
        if last vs \<noteq> 0 then Inl (ace_error ''circuit does not evaluate to zero'') else Inr \<sigma>))"

section \<open>The recorded evaluation\<close>

text \<open>\<open>bus_inv n vs k b\<close>: the bus of a circuit with \<open>n\<close> wires carries the values \<open>vs\<close> and was read \<open>k\<close>
  times.  \<open>ce_inv n vs r e\<close>: in addition \<open>r\<close> rows of the READ section and \<open>e\<close> rows of the EVAL section
  are recorded, with columns of matching lengths.\<close>

definition bus_inv :: "nat \<Rightarrow> quad list \<Rightarrow> nat \<Rightarrow> wire_bus \<Rightarrow> bool" where
  "bus_inv n vs k b = (map fst (wires b) = vs \<and> unat (num_wires b) = n \<and>
     id_next b = of_nat n - 1 - of_nat (length vs) \<and> sum_list (map (unat \<circ> snd) (wires b)) = k)"

definition column_len :: "wire_column \<Rightarrow> nat \<Rightarrow> bool" where
  "column_len c k = (length (col_id c) = k \<and> length (col_v0 c) = k \<and> length (col_v1 c) = k)"

definition ce_inv :: "nat \<Rightarrow> quad list \<Rightarrow> nat \<Rightarrow> nat \<Rightarrow> circuit_evaluation \<Rightarrow> bool" where
  "ce_inv n vs r e ce = (bus_inv n vs (2 * e) (ce_bus ce) \<and> length (col_ptr ce) = r + e \<and> length (col_op ce) = e \<and>
     column_len (col_wire_out ce) (r + e) \<and> column_len (col_wire_left ce) (r + e) \<and>
     column_len (col_wire_right ce) e \<and> length vs = 2 * r + e)"

lemma column_push_len [simp]: "column_len (column_push c i v) k \<longleftrightarrow> (\<exists>j. k = Suc j \<and> column_len c j)"
  by (auto simp: column_len_def column_push_def)

lemma wire_insert_inv:
  assumes "bus_inv n vs k b" "length vs < n"
  obtains i b' where "wire_insert b v = Inr (i, b')" "bus_inv n (vs @ [v]) k b'"
proof -
  have "length (wires b) = length vs" using assms(1) unfolding bus_inv_def by (metis length_map)
  then show ?thesis
    using assms that by (auto simp: wire_insert_def is_finalized_def bus_inv_def)
qed

lemma sum_list_update_snd:
  "i < length ws \<Longrightarrow> ws ! i = (v, m) \<Longrightarrow> unat m + 1 < 2 ^ 32 \<Longrightarrow>
     sum_list (map (unat \<circ> snd) (ws[i := (v, m + 1 :: u32)])) = sum_list (map (unat \<circ> snd) ws) + 1"
proof (induction ws arbitrary: i)
  case (Cons w ws)
  have "unat (m + 1) = unat m + 1" using Cons.prems(3) by (simp add: unat_word_ariths)
  with Cons show ?case by (cases i) auto
qed simp

lemma sum_list_member: "i < length ws \<Longrightarrow> unat (snd (ws ! i)) \<le> sum_list (map (unat \<circ> snd) ws)"
  by (rule member_le_sum_list) (auto intro!: image_eqI [of _ _ "ws ! i"])

lemma wire_read_inv:
  assumes b: "bus_inv n vs k b" and k: "k + 1 < 2 ^ 32"
  shows "(case wire_value n vs (unat i) of None \<Rightarrow> wire_read_value b i = None
    | Some v \<Rightarrow> \<exists>b'. wire_read_value b i = Some (v, b') \<and> bus_inv n vs (k + 1) b')"
proof (cases "unat i < n \<and> n - 1 - unat i < length vs")
  case True
  define j where "j = n - Suc (unat i)"
  obtain v m where w: "wires b ! j = (v, m)" by fastforce
  have len: "length (wires b) = length vs" using b unfolding bus_inv_def by (metis length_map)
  have j: "j < length (wires b)" using True len by (simp add: j_def)
  have v: "vs ! j = v" using b w j by (auto simp: bus_inv_def)
  have "unat m + 1 < 2 ^ 32"
    using sum_list_member [OF j] w b k by (simp add: bus_inv_def)
  moreover have "map fst ((wires b)[j := (v, m + 1)]) = vs"
    using b v list_update_id [of vs j] by (simp add: bus_inv_def map_update)
  ultimately have "bus_inv n vs (k + 1) (b\<lparr>wires := (wires b)[j := (v, m + 1)]\<rparr>)"
    using b sum_list_update_snd [OF j w] by (simp add: bus_inv_def)
  moreover have "wire_read_value b i = Some (v, b\<lparr>wires := (wires b)[j := (v, m + 1)]\<rparr>)"
    using b True j w by (simp add: wire_read_value_def bus_inv_def j_def)
  ultimately show ?thesis using True v by (simp add: wire_value_def j_def)
next
  case False
  have "length (wires b) = length vs" using b unfolding bus_inv_def by (metis length_map)
  with False b show ?thesis
    by (auto simp: wire_value_def wire_read_value_def bus_inv_def Let_def)
qed

lemma do_read_inv:
  assumes "ce_inv n vs r 0 ce" "length vs + 2 \<le> n"
  obtains ce' where "do_read ce p w = Inr ce'" "ce_inv n (vs @ [Quad (w0 w) (w1 w), Quad (w2 w) (w3 w)]) (r + 1) 0 ce'"
proof -
  from assms have b: "bus_inv n vs 0 (ce_bus ce)" by (simp add: ce_inv_def)
  obtain i b1 where 1: "wire_insert (ce_bus ce) (Quad (w0 w) (w1 w)) = Inr (i, b1)" "bus_inv n (vs @ [Quad (w0 w) (w1 w)]) 0 b1"
    using wire_insert_inv [OF b] assms(2) by (metis add_2_eq_Suc' less_eq_Suc_le Suc_leD)
  have "length (vs @ [Quad (w0 w) (w1 w)]) < n" using assms(2) by simp
  then obtain i' b2 where 2: "wire_insert b1 (Quad (w2 w) (w3 w)) = Inr (i', b2)"
      "bus_inv n ((vs @ [Quad (w0 w) (w1 w)]) @ [Quad (w2 w) (w3 w)]) 0 b2"
    by (rule wire_insert_inv [OF 1(2)])
  show ?thesis
    using assms(1) 1 2 that by (simp add: do_read_def ce_inv_def Let_def)
qed

lemma do_eval_inv:
  assumes inv: "ce_inv n vs r e ce" and "length vs < n" "n < 2 ^ 30"
  shows "(case gate_value n vs g of Inl x \<Rightarrow> do_eval ce p g = Inl x
    | Inr v \<Rightarrow> \<exists>ce'. do_eval ce p g = Inr ce' \<and> ce_inv n (vs @ [v]) r (e + 1) ce')"
proof -
  have e: "2 * e + 2 < 2 ^ 32" using assms by (simp add: ce_inv_def)
  have b: "bus_inv n vs (2 * e) (ce_bus ce)" using inv by (simp add: ce_inv_def)
  show ?thesis
  proof (cases "decode_instruction g")
    case (Some d)
    obtain l m op where d: "d = (l, m, op)" by (cases d)
    note R1 = wire_read_inv [OF b, of l]
    show ?thesis
    proof (cases "wire_value n vs (unat l)")
      case (Some x)
      with R1 e obtain b1 where 1: "wire_read_value (ce_bus ce) l = Some (x, b1)" "bus_inv n vs (2 * e + 1) b1" by auto
      note R2 = wire_read_inv [OF 1(2), of m]
      show ?thesis
      proof (cases "wire_value n vs (unat m)")
        case (Some y)
        with R2 e obtain b2 where 2: "wire_read_value b1 m = Some (y, b2)" "bus_inv n vs (2 * e + 1 + 1) b2" by auto
        obtain i b3 where 3: "wire_insert b2 (ace_apply op x y) = Inr (i, b3)"
            "bus_inv n (vs @ [ace_apply op x y]) (2 * e + 1 + 1) b3"
          using wire_insert_inv [OF 2(2) assms(2)] .
        show ?thesis
          using inv \<open>decode_instruction g = Some d\<close> d \<open>wire_value n vs (unat l) = Some x\<close> Some 1(1) 2(1) 3
          by (simp add: gate_value_def do_eval_def ce_inv_def Let_def)
      qed (use R2 e 1 Some \<open>decode_instruction g = Some d\<close> d in \<open>simp add: gate_value_def do_eval_def\<close>)
    qed (use R1 e Some d in \<open>simp add: gate_value_def do_eval_def\<close>)
  qed (simp add: gate_value_def do_eval_def)
qed

section \<open>Behaviour\<close>

lemma unat_canonical: "unat (as_canonical_u64 x) = nat (Rep_felt x)"
  by (simp add: unat_eq_nat_uint)

lemma uint_MAX_ID: "uint (ucast MAX_ID :: u64) = 2 ^ 30 - 1"
  by (simp add: MAX_ID_def)

lemma too_many_wires:
  "ucast MAX_ID < u64_saturating_add (as_canonical_u64 x) (as_canonical_u64 y) \<longleftrightarrow>
     nat (Rep_felt x) + nat (Rep_felt y) \<ge> 2 ^ 30"
proof -
  have "unat (u64_saturating_add a b) = min (unat a + unat b) (2 ^ 64 - 1)" for a b
    by (auto simp: u64_saturating_add_def unat_word_ariths unsigned_minus_1_eq_mask mask_eq_exp_minus_1)
  moreover have "unat (ucast MAX_ID :: u64) = 2 ^ 30 - 1" by (simp add: MAX_ID_def)
  ultimately show ?thesis
    by (simp add: word_less_nat_alt unat_canonical min_def) linarith
qed

lemma unat_u64_of_u32: "unat (ucast (r :: u32) :: u64) = unat r"
proof -
  have "unat r < 2 ^ 64" using unsigned_less [of r, where ?'a = nat] by simp
  then show ?thesis by (simp add: unsigned_ucast_eq take_bit_nat_eq_self)
qed

lemma unat_u32_of_u64: "unat (n :: u64) < 2 ^ 32 \<Longrightarrow> unat (ucast n :: u32) = unat n"
  by (simp add: unsigned_ucast_eq take_bit_nat_eq_self)

lemma felt_from_u32_pred:
  assumes "w \<noteq> 0"
  shows "felt_from_u32 (w - 1) = of_nat (unat w) - 1"
proof -
  have "int (unat (w - 1)) = int (unat w) - 1"
    using unat_minus_one [OF assms] unat_gt_0 [of w] assms by linarith
  then have "uint (w - 1) = int (unat w) - 1" by simp
  then have "felt_from_u32 (w - 1) = of_int (int (unat w) - 1)" by (simp only: felt_from_u32_def)
  then show ?thesis by (simp only: of_int_diff of_int_of_nat_eq of_int_1)
qed

lemma circuit_evaluation_new_inv:
  assumes "2 * unat r + unat e < 2 ^ 30" "e \<noteq> 0"
  obtains ce where "circuit_evaluation_new c clk r e = Inr ce" "ce_inv (2 * unat r + unat e) [] 0 0 ce"
proof -
  define n where "n = 2 * (ucast r :: u64) + ucast e"
  have n: "unat n = 2 * unat r + unat e"
    using assms(1) by (simp add: n_def unat_word_ariths unat_u64_of_u32)
  have "\<not> n > ucast MAX_ID"
    using assms(1) by (simp add: word_less_nat_alt n MAX_ID_def)
  moreover have u: "unat (ucast n :: u32) = 2 * unat r + unat e"
    using assms(1) by (simp add: unat_u32_of_u64 n)
  moreover have "ucast n \<noteq> (0 :: u32)"
    using u assms(2) by (metis add_eq_0_iff_both_eq_0 unat_eq_zero)
  moreover from this have "felt_from_u32 ((ucast n :: u32) - 1) = of_nat (2 * unat r + unat e) - 1"
    by (simp add: felt_from_u32_pred u)
  ultimately show ?thesis
    using that by (simp add: circuit_evaluation_new_def n_def [symmetric] Let_def wire_bus_new_def ce_inv_def bus_inv_def
        column_len_def wire_column_new_def)
qed

lemma Rep_felt_le_zero [simp]: "Rep_felt x \<le> 0 \<longleftrightarrow> x = 0"
  by (metis Rep_felt_bounds(1) Rep_felt_eq_0 order_antisym order_refl)

lemma output_value_inv:
  assumes "ce_inv n vs r e ce" "n = 2 * r + e" "e \<noteq> 0"
  shows "output_value ce = Some (last vs)"
proof -
  have w: "map fst (wires (ce_bus ce)) = vs" "unat (num_wires (ce_bus ce)) = n" "length vs = n"
    using assms by (simp_all add: ce_inv_def bus_inv_def)
  then have "length (wires (ce_bus ce)) = n" by (metis length_map)
  moreover have "wires (ce_bus ce) \<noteq> []" using w assms by auto
  ultimately show ?thesis
    using w by (simp add: output_value_def is_finalized_def flip: last_map)
qed

lemma u64_mod_zero: "w mod (numeral k :: u64) = 0 \<longleftrightarrow> unat w mod unat (numeral k :: u64) = 0"
  by (metis unat_eq_zero unat_mod)

context processor_laws
begin

lemma read_word_cases:
  "good s \<Longrightarrow> (case mem_read_word (v_mem (view s)) c a of Inl e \<Rightarrow> read_word P s c a k = Inl e
     | Inr w \<Rightarrow> \<exists>s'. read_word P s c a k = Inr (w, s') \<and> good s' \<and> view s' = view s)"
  using read_word_law [of s c a k] by (auto simp: sim_val_def split: sum.splits)

lemma read_element_cases:
  "good s \<Longrightarrow> (case mem_read_element (v_mem (view s)) c a of Inl e \<Rightarrow> read_element P s c a = Inl e
     | Inr w \<Rightarrow> \<exists>s'. read_element P s c a = Inr (w, s') \<and> good s' \<and> view s' = view s)"
  using read_element_law [of s c a] by (auto simp: sim_val_def split: sum.splits)

lemma ace_read_loop_values:
  assumes "good s" "ce_inv n vs r 0 ce" "length vs + 2 * k \<le> n"
  shows "(case read_vars (mem_read_word (v_mem (view s)) c) k p vs of Inl x \<Rightarrow> ace_read_loop P c clk k p ce s = Inl x
    | Inr vs' \<Rightarrow> \<exists>ce' s'. ace_read_loop P c clk k p ce s = Inr (p + of_nat (4 * k), ce', s') \<and>
        good s' \<and> view s' = view s \<and> ce_inv n vs' (r + k) 0 ce')"
  using assms
proof (induction k arbitrary: p ce s vs r)
  case (Suc k)
  show ?case
  proof (cases "mem_read_word (v_mem (view s)) c p")
    case (Inl e)
    then show ?thesis using read_word_cases [OF Suc.prems(1), of c p clk] by simp
  next
    case (Inr w)
    then obtain s' where s': "read_word P s c p clk = Inr (w, s')" "good s'" "view s' = view s"
      using read_word_cases [OF Suc.prems(1), of c p clk] by auto
    obtain ce' where ce': "do_read ce p w = Inr ce'"
        "ce_inv n (vs @ [Quad (w0 w) (w1 w), Quad (w2 w) (w3 w)]) (r + 1) 0 ce'"
      using do_read_inv [OF Suc.prems(2)] Suc.prems(3) by (metis add_leD1 add.assoc mult_Suc_right)
    show ?thesis
      using Suc.IH [OF s'(2) ce'(2), of "p + 4"] Suc.prems(3) Inr s' ce'(1)
      by (auto simp: PTR_OFFSET_WORD_def algebra_simps split: sum.splits)
  qed
qed simp

lemma ace_eval_loop_values:
  assumes "good s" "ce_inv n vs r e ce" "length vs + k \<le> n" "n < 2 ^ 30"
  shows "(case eval_gates (mem_read_element (v_mem (view s)) c) n k p vs of Inl x \<Rightarrow> ace_eval_loop P c k p ce s = Inl x
    | Inr vs' \<Rightarrow> \<exists>ce' s'. ace_eval_loop P c k p ce s = Inr (ce', s') \<and>
        good s' \<and> view s' = view s \<and> ce_inv n vs' r (e + k) ce')"
  using assms
proof (induction k arbitrary: p ce s vs e)
  case (Suc k)
  show ?case
  proof (cases "mem_read_element (v_mem (view s)) c p")
    case (Inl e)
    then show ?thesis using read_element_cases [OF Suc.prems(1), of c p] by simp
  next
    case (Inr g)
    then obtain s' where s': "read_element P s c p = Inr (g, s')" "good s'" "view s' = view s"
      using read_element_cases [OF Suc.prems(1), of c p] by auto
    have G: "case gate_value n vs g of Inl x \<Rightarrow> do_eval ce p g = Inl x
        | Inr v \<Rightarrow> \<exists>ce'. do_eval ce p g = Inr ce' \<and> ce_inv n (vs @ [v]) r (e + 1) ce'"
      using do_eval_inv [OF Suc.prems(2)] Suc.prems(3,4) by simp
    show ?thesis
    proof (cases "gate_value n vs g")
      case (Inr v)
      with G obtain ce' where ce': "do_eval ce p g = Inr ce'" "ce_inv n (vs @ [v]) r (e + 1) ce'" by auto
      show ?thesis
        using Suc.IH [OF s'(2) ce'(2), of "p + 1"] Suc.prems(3,4) Inr \<open>mem_read_element _ _ _ = Inr g\<close> s' ce'(1)
        by (auto simp: PTR_OFFSET_ELEM_def split: sum.splits)
    qed (use G Inr s' in simp)
  qed
qed simp

lemma eval_circuit_impl_values:
  fixes nv ne :: felt
  defines "a \<equiv> nat (Rep_felt nv)" and "b \<equiv> nat (Rep_felt ne)"
  assumes g: "good s" and n: "a + b < 2 ^ 30" "a mod 2 = 0" "a \<noteq> 0" "b mod 4 = 0" "b \<noteq> 0"
  shows "(case circuit_values (v_mem (view s)) c p a b of Inl x \<Rightarrow> eval_circuit_impl P c p clk nv ne s = Inl x
    | Inr vs \<Rightarrow> if last vs \<noteq> 0
        then eval_circuit_impl P c p clk nv ne s = Inl (ace_error ''circuit does not evaluate to zero'')
        else \<exists>ce s'. eval_circuit_impl P c p clk nv ne s = Inr (ce, s') \<and> good s' \<and> view s' = view s \<and>
          ce_inv (a + b) vs (a div 2) b ce)"
proof -
  define r e :: u32 where "r = ucast (as_canonical_u64 nv div 2)" and "e = ucast (as_canonical_u64 ne)"
  have r: "unat r = a div 2" and e: "unat e = b"
    using n(1) by (simp_all add: r_def e_def a_def b_def unat_u32_of_u64 unat_div unat_canonical)
  have ab: "2 * unat r + unat e = a + b" using n(2) mult_div_mod_eq [of 2 a] by (simp add: r e)
  obtain ce where ce: "circuit_evaluation_new c clk r e = Inr ce" "ce_inv (a + b) [] 0 0 ce"
    using circuit_evaluation_new_inv [of r e c clk] n(1,5) e ab by (metis unat_0)
  have guards: "\<not> ucast MAX_ID < u64_saturating_add (as_canonical_u64 nv) (as_canonical_u64 ne)"
      "as_canonical_u64 nv mod 2 = 0" "as_canonical_u64 nv \<noteq> 0" "as_canonical_u64 ne mod 4 = 0" "as_canonical_u64 ne \<noteq> 0"
    using n by (auto simp: too_many_wires u64_mod_zero unat_canonical a_def b_def)
  have impl: "eval_circuit_impl P c p clk nv ne s =
      res_bind (ace_read_loop P c clk (unat r) p ce s) (\<lambda>(ptr, ce, s).
      res_bind (ace_eval_loop P c (unat e) ptr ce s) (\<lambda>(ce, s).
        if output_value ce \<noteq> Some 0 then Inl (ace_error ''circuit does not evaluate to zero'') else Inr (ce, s)))"
    using guards ce(1) by (simp add: eval_circuit_impl_def Let_def r_def e_def)
  have rd: "length [] + 2 * unat r \<le> a + b" using ab by simp
  note R = ace_read_loop_values [OF g ce(2) rd, of c clk p]
  show ?thesis
  proof (cases "read_vars (mem_read_word (v_mem (view s)) c) (unat r) p []")
    case (Inl x)
    then show ?thesis using R impl r by (simp add: circuit_values_def)
  next
    case (Inr vs)
    then obtain ce1 s1 where 1: "ace_read_loop P c clk (unat r) p ce s = Inr (p + of_nat (4 * unat r), ce1, s1)"
        "good s1" "view s1 = view s" "ce_inv (a + b) vs (unat r) 0 ce1"
      using R by auto
    have "4 * unat r = 2 * a" using n(2) mult_div_mod_eq [of 2 a] by (simp add: r)
    then have p: "p + of_nat (4 * unat r) = p + of_nat (2 * a)" by (simp only:)
    have len: "length vs + unat e \<le> a + b" using 1(4) ab by (simp add: ce_inv_def)
    note E = ace_eval_loop_values [OF 1(2) 1(4) len n(1), of c "p + of_nat (2 * a)", unfolded 1(3)]
    show ?thesis
      using E Inr 1(1) p impl r e output_value_inv [of "a + b" _ "unat r" "unat e"] ab n(5)
      by (auto simp: circuit_values_def split: sum.splits)
  qed
qed

lemma op_eval_circuit_sim: "good s \<Longrightarrow> sim good view (op_eval_circuit P s) (isa_eval_circuit (view s))"
proof -
  assume g: "good s"
  let ?p = "v_stack (view s) !! 0" and ?nv = "v_stack (view s) !! 1" and ?ne = "v_stack (view s) !! 2"
  let ?c = "v_ctx (view s)" and ?clk = "v_clk (view s)"
  let ?a = "nat (Rep_felt ?nv)" and ?b = "nat (Rep_felt ?ne)"
  let ?impl = "eval_circuit_impl P ?c ?p ?clk ?nv ?ne s"
  have op: "op_eval_circuit P s = res_bind ?impl (\<lambda>(_, s). Inr s)"
    using g by (simp add: op_eval_circuit_def machine_simps del: snth.simps)
  note guards = too_many_wires u64_mod_zero unat_canonical
  consider "?a + ?b \<ge> 2 ^ 30" | "?a + ?b < 2 ^ 30" "?a mod 2 \<noteq> 0 \<or> ?a = 0"
    | "?a + ?b < 2 ^ 30" "?a mod 2 = 0" "?a \<noteq> 0" "?b mod 4 \<noteq> 0 \<or> ?b = 0"
    | "?a + ?b < 2 ^ 30" "?a mod 2 = 0" "?a \<noteq> 0" "?b mod 4 = 0" "?b \<noteq> 0" by linarith
  then show ?thesis
  proof cases
    case 4
    then have "isa_eval_circuit (view s) = res_bind (circuit_values (v_mem (view s)) ?c ?p ?a ?b) (\<lambda>vs.
        if last vs \<noteq> 0 then Inl (ace_error ''circuit does not evaluate to zero'') else Inr (view s))"
      by (simp add: isa_eval_circuit_def del: snth.simps)
    then show ?thesis
      unfolding op using eval_circuit_impl_values [OF g 4, of ?c ?p ?clk]
      by (auto simp: sim_def split: sum.splits if_splits)
  qed (auto simp add: op isa_eval_circuit_def eval_circuit_impl_def Let_def guards sim_Inl simp del: snth.simps)
qed

end

section \<open>Gate encoding\<close>

definition ace_op_code :: "ace_op \<Rightarrow> int" where
  "ace_op_code op = (case op of AceSub \<Rightarrow> 0 | AceMul \<Rightarrow> 1 | AceAdd \<Rightarrow> 2)"

definition encode_gate :: "u32 \<Rightarrow> u32 \<Rightarrow> ace_op \<Rightarrow> felt" where
  "encode_gate l r op = of_int (uint l + 2 ^ 30 * uint r + 2 ^ 60 * ace_op_code op)"

lemma uint_and_MAX_ID: "uint ((w :: u64) AND ucast MAX_ID) = uint w mod 2 ^ 30"
proof -
  have "w AND ucast MAX_ID = take_bit 30 w" by (simp add: take_bit_eq_mask MAX_ID_def mask_eq_exp_minus_1)
  then show ?thesis by (simp add: unsigned_take_bit_eq take_bit_eq_mod uint_mod)
qed

lemma decode_instruction_eq:
  "decode_instruction x = map_option (\<lambda>op. (word_of_int (Rep_felt x mod 2 ^ 30), word_of_int (Rep_felt x div 2 ^ 30 mod 2 ^ 30), op))
     (ace_op_try_from (word_of_int (Rep_felt x div 2 ^ 60)))"
proof -
  let ?w = "as_canonical_u64 x"
  have id_bound: "\<not> (ucast ((w :: u64) AND ucast MAX_ID) :: u32) > MAX_ID" for w
  proof -
    have "uint (ucast (w AND ucast MAX_ID) :: u32) \<le> uint w mod 2 ^ 30"
      by (simp add: unsigned_ucast_eq uint_and_MAX_ID take_bit_eq_mod mod_mod_cancel zmod_le_nonneg_dividend)
    then show ?thesis
      using pos_mod_bound [of "2 ^ 30" "uint w"] by (simp add: word_less_def MAX_ID_def)
  qed
  have id_val: "(ucast ((w :: u64) AND ucast MAX_ID) :: u32) = word_of_int (uint w mod 2 ^ 30)" for w
    by (metis uint_and_MAX_ID word_of_int_uint ucast_eq)
  have sh: "uint (drop_bit ID_BITS ?w) = Rep_felt x div 2 ^ 30"
      "uint (drop_bit (ID_BITS + ID_BITS) ?w) = Rep_felt x div 2 ^ 60"
    by (simp_all add: ID_BITS_def drop_bit_eq_div uint_div)
  then have sh2: "drop_bit (ID_BITS + ID_BITS) ?w = word_of_int (Rep_felt x div 2 ^ 60)"
    by (metis word_of_int_uint)
  show ?thesis
    by (simp add: decode_instruction_def Let_def id_bound sh2) (simp add: id_val sh)
qed

lemma low_digit:
  assumes "0 \<le> l" "l < b"
  shows "(l + b * y) mod b = l" "(l + b * y) div b = (y :: int)"
  using assms by simp_all

lemma decode_encode_gate:
  assumes "uint l < 2 ^ 30" "uint r < 2 ^ 30"
  shows "decode_instruction (encode_gate l r op) = Some (l, r, op)"
proof -
  let ?v = "uint l + 2 ^ 30 * uint r + 2 ^ 60 * ace_op_code op"
  have op: "0 \<le> ace_op_code op" "ace_op_code op \<le> 2" by (cases op; simp add: ace_op_code_def)+
  have nn: "0 \<le> uint l" "0 \<le> uint r" by simp_all
  have "0 \<le> ?v" "?v < ORDER" using assms op nn by (simp_all add: ORDER_def)
  then have v: "Rep_felt (encode_gate l r op) = ?v"
    by (simp only: encode_gate_def Rep_felt_of_int mod_pos_pos_trivial)
  have split: "?v = uint l + 2 ^ 30 * (uint r + 2 ^ 30 * ace_op_code op)"
      "?v = (uint l + 2 ^ 30 * uint r) + 2 ^ 60 * ace_op_code op" by simp_all
  have l: "?v mod 2 ^ 30 = uint l" "?v div 2 ^ 30 = uint r + 2 ^ 30 * ace_op_code op"
    unfolding split(1) by (rule low_digit [OF nn(1) assms(1)])+
  moreover have "?v div 2 ^ 30 mod 2 ^ 30 = uint r"
    unfolding l(2) by (rule low_digit [OF nn(2) assms(2)])
  moreover have "?v div 2 ^ 60 = ace_op_code op"
    by (rule low_digit) (use assms nn in simp_all)
  ultimately have "decode_instruction (encode_gate l r op) =
      map_option (\<lambda>op. (word_of_int (uint l), word_of_int (uint r), op)) (ace_op_try_from (word_of_int (ace_op_code op)))"
    unfolding decode_instruction_eq v by (simp only:)
  then show ?thesis by (cases op) (simp_all add: ace_op_code_def ace_op_try_from_def)
qed

end
