(* ===== verification/Operation.thy ===== *)
theory Operation
  imports Vm_Errors
begin

text \<open>
  The operations of basic blocks, \<open>core/src/operations/mod.rs\<close>: the enumeration with its opcodes,
  the classification of the operations by their effect on the stack depth, and the binary encoding
  (\<open>write_into\<close>, \<open>read_from\<close>, \<open>encoded_size\<close>).  The encoding of a field element is provided by a
  package outside the repository and is the record \<open>felt_codec\<close>; \<open>felt_codec_ok\<close> is its documented
  round trip.  The constructor \<open>Not\<close> is written \<open>Not_op\<close>, since \<open>Not\<close> is a constant of HOL.
\<close>

section \<open>Operations and opcodes\<close>

datatype (plugins only: code size) operation =
    Noop | Assert felt | SDepth | Caller | Clk | Emit | Add | Neg
  | Mul | Inv | Incr | And | Or | Not_op | Eq | Eqz
  | Expacc | Ext2Mul | U32split | U32add | U32assert2 felt | U32add3 | U32sub | U32mul
  | U32madd | U32div | U32and | U32xor | Pad | Drop | Dup0 | Dup1
  | Dup2 | Dup3 | Dup4 | Dup5 | Dup6 | Dup7 | Dup9 | Dup11
  | Dup13 | Dup15 | Swap | SwapW | SwapW2 | SwapW3 | SwapDW | MovUp2
  | MovUp3 | MovUp4 | MovUp5 | MovUp6 | MovUp7 | MovUp8 | MovDn2 | MovDn3
  | MovDn4 | MovDn5 | MovDn6 | MovDn7 | MovDn8 | CSwap | CSwapW | Push felt
  | AdvPop | AdvPopW | MLoadW | MStoreW | MLoad | MStore | MStream | Pipe
  | CryptoStream | HPerm | MpVerify felt | MrUpdate | FriE2F4 | HornerBase | HornerExt | EvalCircuit
  | LogPrecompile

primrec op_code :: "operation \<Rightarrow> 8 word" where
  "op_code Noop = 0x00"
| "op_code (Assert _) = 0x20"
| "op_code SDepth = 0x3E"
| "op_code Caller = 0x09"
| "op_code Clk = 0x3F"
| "op_code Emit = 0x1F"
| "op_code Add = 0x22"
| "op_code Neg = 0x02"
| "op_code Mul = 0x23"
| "op_code Inv = 0x03"
| "op_code Incr = 0x04"
| "op_code And = 0x24"
| "op_code Or = 0x25"
| "op_code Not_op = 0x05"
| "op_code Eq = 0x21"
| "op_code Eqz = 0x01"
| "op_code Expacc = 0x0F"
| "op_code Ext2Mul = 0x19"
| "op_code U32split = 0x48"
| "op_code U32add = 0x40"
| "op_code (U32assert2 _) = 0x4A"
| "op_code U32add3 = 0x4C"
| "op_code U32sub = 0x42"
| "op_code U32mul = 0x44"
| "op_code U32madd = 0x4E"
| "op_code U32div = 0x46"
| "op_code U32and = 0x26"
| "op_code U32xor = 0x27"
| "op_code Pad = 0x30"
| "op_code Drop = 0x29"
| "op_code Dup0 = 0x31"
| "op_code Dup1 = 0x32"
| "op_code Dup2 = 0x33"
| "op_code Dup3 = 0x34"
| "op_code Dup4 = 0x35"
| "op_code Dup5 = 0x36"
| "op_code Dup6 = 0x37"
| "op_code Dup7 = 0x38"
| "op_code Dup9 = 0x39"
| "op_code Dup11 = 0x3A"
| "op_code Dup13 = 0x3B"
| "op_code Dup15 = 0x3C"
| "op_code Swap = 0x08"
| "op_code SwapW = 0x18"
| "op_code SwapW2 = 0x1C"
| "op_code SwapW3 = 0x1D"
| "op_code SwapDW = 0x1E"
| "op_code MovUp2 = 0x0A"
| "op_code MovUp3 = 0x0C"
| "op_code MovUp4 = 0x10"
| "op_code MovUp5 = 0x12"
| "op_code MovUp6 = 0x14"
| "op_code MovUp7 = 0x16"
| "op_code MovUp8 = 0x1A"
| "op_code MovDn2 = 0x0B"
| "op_code MovDn3 = 0x0D"
| "op_code MovDn4 = 0x11"
| "op_code MovDn5 = 0x13"
| "op_code MovDn6 = 0x15"
| "op_code MovDn7 = 0x17"
| "op_code MovDn8 = 0x1B"
| "op_code CSwap = 0x2A"
| "op_code CSwapW = 0x2B"
| "op_code (Push _) = 0x5B"
| "op_code AdvPop = 0x3D"
| "op_code AdvPopW = 0x0E"
| "op_code MLoadW = 0x2C"
| "op_code MStoreW = 0x2E"
| "op_code MLoad = 0x07"
| "op_code MStore = 0x2D"
| "op_code MStream = 0x53"
| "op_code Pipe = 0x52"
| "op_code CryptoStream = 0x64"
| "op_code HPerm = 0x50"
| "op_code (MpVerify _) = 0x51"
| "op_code MrUpdate = 0x60"
| "op_code FriE2F4 = 0x28"
| "op_code HornerBase = 0x59"
| "op_code HornerExt = 0x5A"
| "op_code EvalCircuit = 0x5D"
| "op_code LogPrecompile = 0x5E"

definition OP_BITS :: nat where
  "OP_BITS = 7"

definition imm_value :: "operation \<Rightarrow> felt option" where
  "imm_value op = (case op of Push imm \<Rightarrow> Some imm | _ \<Rightarrow> None)"

definition increments_stack_size :: "operation \<Rightarrow> bool" where
  "increments_stack_size op = (case op of
      Push _ \<Rightarrow> True | Pad \<Rightarrow> True | Dup0 \<Rightarrow> True | Dup1 \<Rightarrow> True | Dup2 \<Rightarrow> True | Dup3 \<Rightarrow> True
    | Dup4 \<Rightarrow> True | Dup5 \<Rightarrow> True | Dup6 \<Rightarrow> True | Dup7 \<Rightarrow> True | Dup9 \<Rightarrow> True | Dup11 \<Rightarrow> True
    | Dup13 \<Rightarrow> True | Dup15 \<Rightarrow> True | U32split \<Rightarrow> True | SDepth \<Rightarrow> True | Clk \<Rightarrow> True | AdvPop \<Rightarrow> True
    | _ \<Rightarrow> False)"

definition decrements_stack_size :: "operation \<Rightarrow> bool" where
  "decrements_stack_size op = (case op of
      Drop \<Rightarrow> True | Assert _ \<Rightarrow> True | Add \<Rightarrow> True | Mul \<Rightarrow> True | And \<Rightarrow> True | Or \<Rightarrow> True
    | Eq \<Rightarrow> True | U32add3 \<Rightarrow> True | U32madd \<Rightarrow> True | U32and \<Rightarrow> True | U32xor \<Rightarrow> True | CSwap \<Rightarrow> True
    | CSwapW \<Rightarrow> True | MLoadW \<Rightarrow> True | MStoreW \<Rightarrow> True | MStore \<Rightarrow> True | FriE2F4 \<Rightarrow> True
    | _ \<Rightarrow> False)"

section \<open>Binary encoding\<close>

type_synonym byte = "8 word"

record felt_codec =
  write_felt :: "felt \<Rightarrow> byte list"
  write_u64 :: "u64 \<Rightarrow> byte list"
  read_felt :: "byte list \<Rightarrow> (felt \<times> byte list) option"
  felt_size_hint :: "felt \<Rightarrow> nat"
  u64_size_hint :: "u64 \<Rightarrow> nat"

definition felt_codec_ok :: "felt_codec \<Rightarrow> bool" where
  "felt_codec_ok C \<longleftrightarrow>
     (\<forall>x r. read_felt C (write_felt C x @ r) = Some (x, r)) \<and>
     (\<forall>x r. read_felt C (write_u64 C (as_canonical_u64 x) @ r) = Some (x, r)) \<and>
     (\<forall>x. felt_size_hint C x = length (write_felt C x)) \<and>
     (\<forall>v. u64_size_hint C v = length (write_u64 C v))"

definition write_into :: "felt_codec \<Rightarrow> operation \<Rightarrow> byte list" where
  "write_into C op = op_code op # (case op of
      Assert err_code \<Rightarrow> write_felt C err_code
    | MpVerify err_code \<Rightarrow> write_felt C err_code
    | U32assert2 err_code \<Rightarrow> write_felt C err_code
    | Push v \<Rightarrow> write_u64 C (as_canonical_u64 v)
    | _ \<Rightarrow> [])"

definition encoded_size :: "felt_codec \<Rightarrow> operation \<Rightarrow> nat" where
  "encoded_size C op = 1 + (case op of
      Assert err_code \<Rightarrow> felt_size_hint C err_code
    | MpVerify err_code \<Rightarrow> felt_size_hint C err_code
    | U32assert2 err_code \<Rightarrow> felt_size_hint C err_code
    | Push v \<Rightarrow> u64_size_hint C (as_canonical_u64 v)
    | _ \<Rightarrow> 0)"

datatype deserialization_error = UnexpectedEOF | InvalidValue byte

definition read_with_felt ::
    "felt_codec \<Rightarrow> (felt \<Rightarrow> operation) \<Rightarrow> byte list \<Rightarrow> deserialization_error + operation \<times> byte list" where
  "read_with_felt C f bs = (case read_felt C bs of
      None \<Rightarrow> Inl UnexpectedEOF
    | Some (x, bs) \<Rightarrow> Inr (f x, bs))"

fun read_from :: "felt_codec \<Rightarrow> byte list \<Rightarrow> deserialization_error + operation \<times> byte list" where
  "read_from C [] = Inl UnexpectedEOF"
| "read_from C (code # bs) = (
     if code = 0x00 then Inr (Noop, bs)
     else if code = 0x01 then Inr (Eqz, bs)
     else if code = 0x02 then Inr (Neg, bs)
     else if code = 0x03 then Inr (Inv, bs)
     else if code = 0x04 then Inr (Incr, bs)
     else if code = 0x05 then Inr (Not_op, bs)
     else if code = 0x07 then Inr (MLoad, bs)
     else if code = 0x08 then Inr (Swap, bs)
     else if code = 0x09 then Inr (Caller, bs)
     else if code = 0x0A then Inr (MovUp2, bs)
     else if code = 0x0B then Inr (MovDn2, bs)
     else if code = 0x0C then Inr (MovUp3, bs)
     else if code = 0x0D then Inr (MovDn3, bs)
     else if code = 0x0E then Inr (AdvPopW, bs)
     else if code = 0x0F then Inr (Expacc, bs)
     else if code = 0x10 then Inr (MovUp4, bs)
     else if code = 0x11 then Inr (MovDn4, bs)
     else if code = 0x12 then Inr (MovUp5, bs)
     else if code = 0x13 then Inr (MovDn5, bs)
     else if code = 0x14 then Inr (MovUp6, bs)
     else if code = 0x15 then Inr (MovDn6, bs)
     else if code = 0x16 then Inr (MovUp7, bs)
     else if code = 0x17 then Inr (MovDn7, bs)
     else if code = 0x18 then Inr (SwapW, bs)
     else if code = 0x19 then Inr (Ext2Mul, bs)
     else if code = 0x1A then Inr (MovUp8, bs)
     else if code = 0x1B then Inr (MovDn8, bs)
     else if code = 0x1C then Inr (SwapW2, bs)
     else if code = 0x1D then Inr (SwapW3, bs)
     else if code = 0x1E then Inr (SwapDW, bs)
     else if code = 0x1F then Inr (Emit, bs)
     else if code = 0x20 then read_with_felt C Assert bs
     else if code = 0x21 then Inr (Eq, bs)
     else if code = 0x22 then Inr (Add, bs)
     else if code = 0x23 then Inr (Mul, bs)
     else if code = 0x24 then Inr (And, bs)
     else if code = 0x25 then Inr (Or, bs)
     else if code = 0x26 then Inr (U32and, bs)
     else if code = 0x27 then Inr (U32xor, bs)
     else if code = 0x28 then Inr (FriE2F4, bs)
     else if code = 0x29 then Inr (Drop, bs)
     else if code = 0x2A then Inr (CSwap, bs)
     else if code = 0x2B then Inr (CSwapW, bs)
     else if code = 0x2C then Inr (MLoadW, bs)
     else if code = 0x2D then Inr (MStore, bs)
     else if code = 0x2E then Inr (MStoreW, bs)
     else if code = 0x30 then Inr (Pad, bs)
     else if code = 0x31 then Inr (Dup0, bs)
     else if code = 0x32 then Inr (Dup1, bs)
     else if code = 0x33 then Inr (Dup2, bs)
     else if code = 0x34 then Inr (Dup3, bs)
     else if code = 0x35 then Inr (Dup4, bs)
     else if code = 0x36 then Inr (Dup5, bs)
     else if code = 0x37 then Inr (Dup6, bs)
     else if code = 0x38 then Inr (Dup7, bs)
     else if code = 0x39 then Inr (Dup9, bs)
     else if code = 0x3A then Inr (Dup11, bs)
     else if code = 0x3B then Inr (Dup13, bs)
     else if code = 0x3C then Inr (Dup15, bs)
     else if code = 0x3D then Inr (AdvPop, bs)
     else if code = 0x3E then Inr (SDepth, bs)
     else if code = 0x3F then Inr (Clk, bs)
     else if code = 0x40 then Inr (U32add, bs)
     else if code = 0x42 then Inr (U32sub, bs)
     else if code = 0x44 then Inr (U32mul, bs)
     else if code = 0x46 then Inr (U32div, bs)
     else if code = 0x48 then Inr (U32split, bs)
     else if code = 0x4A then read_with_felt C U32assert2 bs
     else if code = 0x4C then Inr (U32add3, bs)
     else if code = 0x4E then Inr (U32madd, bs)
     else if code = 0x50 then Inr (HPerm, bs)
     else if code = 0x51 then read_with_felt C MpVerify bs
     else if code = 0x52 then Inr (Pipe, bs)
     else if code = 0x53 then Inr (MStream, bs)
     else if code = 0x64 then Inr (CryptoStream, bs)
     else if code = 0x59 then Inr (HornerBase, bs)
     else if code = 0x5A then Inr (HornerExt, bs)
     else if code = 0x5E then Inr (LogPrecompile, bs)
     else if code = 0x5D then Inr (EvalCircuit, bs)
     else if code = 0x60 then Inr (MrUpdate, bs)
     else if code = 0x5B then read_with_felt C Push bs
     else Inl (InvalidValue code))"

section \<open>Lemmas\<close>

lemmas op_class_defs = increments_stack_size_def decrements_stack_size_def

text \<open>The opcode classes of the module documentation: opcodes below \<open>0x20\<close> keep the depth, the next
  sixteen shift the stack to the left and the following sixteen to the right.\<close>

lemma op_code_bound: "op_code op < 128"
  by (cases op) simp_all

lemma op_code_class:
  "op_code op < 0x20 \<Longrightarrow> \<not> increments_stack_size op \<and> \<not> decrements_stack_size op"
  "0x20 \<le> op_code op \<Longrightarrow> op_code op < 0x30 \<Longrightarrow> decrements_stack_size op"
  "0x30 \<le> op_code op \<Longrightarrow> op_code op < 0x40 \<Longrightarrow> increments_stack_size op"
  by (cases op; simp add: op_class_defs word_le_def)+

lemma not_both_classes: "\<not> (increments_stack_size op \<and> decrements_stack_size op)"
  by (cases op; simp add: op_class_defs)

lemma read_from_write_into:
  assumes "felt_codec_ok C"
  shows "read_from C (write_into C op @ rest) = Inr (op, rest)"
  using assms by (cases op; simp add: write_into_def felt_codec_ok_def read_with_felt_def)

lemma encoded_size_eq: "felt_codec_ok C \<Longrightarrow> encoded_size C op = length (write_into C op)"
  by (cases op; simp add: write_into_def encoded_size_def felt_codec_ok_def)

text \<open>Little-endian encoding of the canonical representative: an instance of the hypotheses.\<close>

primrec le_bytes :: "nat \<Rightarrow> nat \<Rightarrow> byte list" where
  "le_bytes 0 v = []"
| "le_bytes (Suc n) v = of_nat v # le_bytes n (v div 256)"

primrec le_value :: "byte list \<Rightarrow> nat" where
  "le_value [] = 0"
| "le_value (b # bs) = unat b + 256 * le_value bs"

lemma length_le_bytes [simp]: "length (le_bytes n v) = n"
  by (induction n arbitrary: v) simp_all

lemma le_value_bytes: "le_value (le_bytes n v) = v mod 256 ^ n"
  by (induction n arbitrary: v) (simp_all add: unat_of_nat mod_mult2_eq)

definition le_codec :: felt_codec where
  "le_codec = \<lparr>write_felt = (\<lambda>x. le_bytes 8 (unat (as_canonical_u64 x))),
     write_u64 = (\<lambda>v. le_bytes 8 (unat v)),
     read_felt = (\<lambda>bs. if length bs < 8 then None
        else let v = le_value (take 8 bs) in if int v < ORDER then Some (of_nat v, drop 8 bs) else None),
     felt_size_hint = (\<lambda>_. 8), u64_size_hint = (\<lambda>_. 8)\<rparr>"

lemma le_codec_ok: "felt_codec_ok le_codec"
proof -
  have "le_value (le_bytes 8 (unat (as_canonical_u64 x))) = nat (Rep_felt x)" for x
    using Rep_felt_bounds [of x]
    by (simp add: le_value_bytes unat_eq_nat_uint ORDER_def nat_less_iff)
  then show ?thesis
    by (simp add: felt_codec_ok_def le_codec_def Let_def del: le_bytes.simps)
qed


section \<open>Properties\<close>

text \<open>C23. For any field-element encoding that reads back what it wrote (elements and their canonical integers),
  decoding the encoding of an operation gives back the operation and the remaining bytes, and the predicted
  size is the number of bytes written.\<close>

theorem operation_codec_roundtrip:
  assumes "felt_codec_ok C"
  shows "read_from C (write_into C op @ rest) = Inr (op, rest) \<and> encoded_size C op = length (write_into C op)"
  using read_from_write_into [OF assms] encoded_size_eq [OF assms] by simp

theorem operation_codec_roundtrip_witness:
  "read_from le_codec (write_into le_codec (Push 258) @ [1]) = Inr (Push 258, [1]) \<and> encoded_size le_codec (Push 258) = 9"
  using operation_codec_roundtrip [OF le_codec_ok, of "Push 258" "[1]"] by (simp add: encoded_size_def le_codec_def)

text \<open>C24. An opcode fits into seven bits, and its group determines how the depth of the stack changes: the first 32 opcodes keep it, the next 16 decrease it, the following 16
  increase it, and above only \<open>U32split\<close>, \<open>U32add3\<close>, \<open>U32madd\<close> and \<open>Push\<close> change it.\<close>

theorem opcode_groups:
  "op_code op < 128 \<and>
   (op_code op < 0x20 \<longrightarrow> \<not> increments_stack_size op \<and> \<not> decrements_stack_size op) \<and>
   (0x20 \<le> op_code op \<and> op_code op < 0x30 \<longrightarrow> decrements_stack_size op \<and> \<not> increments_stack_size op) \<and>
   (0x30 \<le> op_code op \<and> op_code op < 0x40 \<longrightarrow> increments_stack_size op \<and> \<not> decrements_stack_size op) \<and>
   (0x40 \<le> op_code op \<longrightarrow> increments_stack_size op = (op_code op \<in> {op_code U32split, op_code (Push 0)}) \<and>
      decrements_stack_size op = (op_code op \<in> {op_code U32add3, op_code U32madd}))"
proof (intro conjI)
  show "0x40 \<le> op_code op \<longrightarrow> increments_stack_size op = (op_code op \<in> {op_code U32split, op_code (Push 0)}) \<and>
      decrements_stack_size op = (op_code op \<in> {op_code U32add3, op_code U32madd})"
    by (cases op) (simp_all add: op_class_defs word_le_def)
qed (use op_code_bound op_code_class [of op] not_both_classes [of op] in auto)

theorem opcode_groups_witness:
  "op_code Add < 128 \<and> decrements_stack_size Add \<and> \<not> increments_stack_size Add"
  using opcode_groups [of Add] by (simp add: word_le_def)

end
