(* ===== verification/Execute_Op.thy ===== *)
theory Execute_Op
  imports Stack_Ops Field_Ops U32_Ops Fri_Ops Ace Operation
begin

text \<open>
  The operation dispatcher \<open>execute_op\<close> of \<open>processor/src/execution/operations/mod.rs\<close> and the
  instruction set it implements.  \<open>stack_op\<close> gives the operations that depend on nothing but the
  operand stack as functions on the zero-padded stack; the depth changes exactly as the
  classification \<open>increments_stack_size\<close>/\<open>decrements_stack_size\<close> of the operation says.
  \<open>machine_op\<close> gives the remaining operations, \<open>isa\<close> both.  The refinement lemma \<open>execute_op_sim\<close>
  holds for every processor that satisfies the contracts of \<open>Processor\<close>; the wrapping of errors
  with source locations is left out.
\<close>

unbundle bit_operations_syntax

section \<open>Model\<close>

primrec execute_op :: "('m, 'q) crypto_lib \<Rightarrow> ('s, 'q) processor \<Rightarrow> (felt \<Rightarrow> string option) \<Rightarrow> operation \<Rightarrow> 's \<Rightarrow> 's res" where
  "execute_op X P resolve Noop = (\<lambda>s. Inr s)"
| "execute_op X P resolve (Assert e) = (\<lambda>s. op_assert P resolve s e)"
| "execute_op X P resolve SDepth = (\<lambda>s. op_sdepth P s)"
| "execute_op X P resolve Caller = (\<lambda>s. op_caller P s)"
| "execute_op X P resolve Clk = (\<lambda>s. op_clk P s)"
| "execute_op X P resolve Emit = (\<lambda>s. Inl (Panic ''emit instruction requires async, so is not supported by execute_op()''))"
| "execute_op X P resolve Add = (\<lambda>s. op_add P s)"
| "execute_op X P resolve Neg = (\<lambda>s. op_neg P s)"
| "execute_op X P resolve Mul = (\<lambda>s. op_mul P s)"
| "execute_op X P resolve Inv = (\<lambda>s. op_inv P s)"
| "execute_op X P resolve Incr = (\<lambda>s. op_incr P s)"
| "execute_op X P resolve And = (\<lambda>s. op_and P s)"
| "execute_op X P resolve Or = (\<lambda>s. op_or P s)"
| "execute_op X P resolve Not_op = (\<lambda>s. op_not P s)"
| "execute_op X P resolve Eq = (\<lambda>s. op_eq P s)"
| "execute_op X P resolve Eqz = (\<lambda>s. op_eqz P s)"
| "execute_op X P resolve Expacc = (\<lambda>s. op_expacc P s)"
| "execute_op X P resolve Ext2Mul = (\<lambda>s. op_ext2mul P s)"
| "execute_op X P resolve U32split = (\<lambda>s. op_u32split P s)"
| "execute_op X P resolve U32add = (\<lambda>s. op_u32add P s)"
| "execute_op X P resolve (U32assert2 e) = (\<lambda>s. op_u32assert2 P resolve s e)"
| "execute_op X P resolve U32add3 = (\<lambda>s. op_u32add3 P s)"
| "execute_op X P resolve U32sub = (\<lambda>s. op_u32sub P s)"
| "execute_op X P resolve U32mul = (\<lambda>s. op_u32mul P s)"
| "execute_op X P resolve U32madd = (\<lambda>s. op_u32madd P s)"
| "execute_op X P resolve U32div = (\<lambda>s. op_u32div P s)"
| "execute_op X P resolve U32and = (\<lambda>s. op_u32and P s)"
| "execute_op X P resolve U32xor = (\<lambda>s. op_u32xor P s)"
| "execute_op X P resolve Pad = (\<lambda>s. op_pad P s)"
| "execute_op X P resolve Drop = (\<lambda>s. decrement_size P s)"
| "execute_op X P resolve Dup0 = (\<lambda>s. dup_nth P s 0)"
| "execute_op X P resolve Dup1 = (\<lambda>s. dup_nth P s 1)"
| "execute_op X P resolve Dup2 = (\<lambda>s. dup_nth P s 2)"
| "execute_op X P resolve Dup3 = (\<lambda>s. dup_nth P s 3)"
| "execute_op X P resolve Dup4 = (\<lambda>s. dup_nth P s 4)"
| "execute_op X P resolve Dup5 = (\<lambda>s. dup_nth P s 5)"
| "execute_op X P resolve Dup6 = (\<lambda>s. dup_nth P s 6)"
| "execute_op X P resolve Dup7 = (\<lambda>s. dup_nth P s 7)"
| "execute_op X P resolve Dup9 = (\<lambda>s. dup_nth P s 9)"
| "execute_op X P resolve Dup11 = (\<lambda>s. dup_nth P s 11)"
| "execute_op X P resolve Dup13 = (\<lambda>s. dup_nth P s 13)"
| "execute_op X P resolve Dup15 = (\<lambda>s. dup_nth P s 15)"
| "execute_op X P resolve Swap = (\<lambda>s. op_swap P s)"
| "execute_op X P resolve SwapW = (\<lambda>s. swapw_nth P s 1)"
| "execute_op X P resolve SwapW2 = (\<lambda>s. swapw_nth P s 2)"
| "execute_op X P resolve SwapW3 = (\<lambda>s. swapw_nth P s 3)"
| "execute_op X P resolve SwapDW = (\<lambda>s. op_swap_double_word P s)"
| "execute_op X P resolve MovUp2 = (\<lambda>s. rotate_left P s 3)"
| "execute_op X P resolve MovUp3 = (\<lambda>s. rotate_left P s 4)"
| "execute_op X P resolve MovUp4 = (\<lambda>s. rotate_left P s 5)"
| "execute_op X P resolve MovUp5 = (\<lambda>s. rotate_left P s 6)"
| "execute_op X P resolve MovUp6 = (\<lambda>s. rotate_left P s 7)"
| "execute_op X P resolve MovUp7 = (\<lambda>s. rotate_left P s 8)"
| "execute_op X P resolve MovUp8 = (\<lambda>s. rotate_left P s 9)"
| "execute_op X P resolve MovDn2 = (\<lambda>s. rotate_right P s 3)"
| "execute_op X P resolve MovDn3 = (\<lambda>s. rotate_right P s 4)"
| "execute_op X P resolve MovDn4 = (\<lambda>s. rotate_right P s 5)"
| "execute_op X P resolve MovDn5 = (\<lambda>s. rotate_right P s 6)"
| "execute_op X P resolve MovDn6 = (\<lambda>s. rotate_right P s 7)"
| "execute_op X P resolve MovDn7 = (\<lambda>s. rotate_right P s 8)"
| "execute_op X P resolve MovDn8 = (\<lambda>s. rotate_right P s 9)"
| "execute_op X P resolve CSwap = (\<lambda>s. op_cswap P s)"
| "execute_op X P resolve CSwapW = (\<lambda>s. op_cswapw P s)"
| "execute_op X P resolve (Push v) = (\<lambda>s. op_push P s v)"
| "execute_op X P resolve AdvPop = (\<lambda>s. op_advpop P s)"
| "execute_op X P resolve AdvPopW = (\<lambda>s. op_advpopw P s)"
| "execute_op X P resolve MLoadW = (\<lambda>s. op_mloadw P s)"
| "execute_op X P resolve MStoreW = (\<lambda>s. op_mstorew P s)"
| "execute_op X P resolve MLoad = (\<lambda>s. op_mload P s)"
| "execute_op X P resolve MStore = (\<lambda>s. op_mstore P s)"
| "execute_op X P resolve MStream = (\<lambda>s. op_mstream P s)"
| "execute_op X P resolve Pipe = (\<lambda>s. op_pipe P s)"
| "execute_op X P resolve CryptoStream = (\<lambda>s. op_crypto_stream P s)"
| "execute_op X P resolve HPerm = (\<lambda>s. op_hperm P s)"
| "execute_op X P resolve (MpVerify e) = (\<lambda>s. op_mpverify P resolve s e)"
| "execute_op X P resolve MrUpdate = (\<lambda>s. op_mrupdate X P s)"
| "execute_op X P resolve FriE2F4 = (\<lambda>s. op_fri_ext2fold4 P s)"
| "execute_op X P resolve HornerBase = (\<lambda>s. op_horner_eval_base P s)"
| "execute_op X P resolve HornerExt = (\<lambda>s. op_horner_eval_ext P s)"
| "execute_op X P resolve EvalCircuit = (\<lambda>s. op_eval_circuit P s)"
| "execute_op X P resolve LogPrecompile = (\<lambda>s. op_log_precompile P s)"

section \<open>The instruction set\<close>

primrec stack_op :: "(felt \<Rightarrow> string option) \<Rightarrow> operation \<Rightarrow> (felt stream \<Rightarrow> operation_error + felt stream) option" where
  "stack_op resolve Noop = Some (\<lambda>s. Inr s)"
| "stack_op resolve (Assert e) = Some (\<lambda>s. case s of a ## t \<Rightarrow>
     if a = 1 then Inr t else Inl (FailedAssertion e (resolve e)))"
| "stack_op resolve SDepth = None"
| "stack_op resolve Caller = None"
| "stack_op resolve Clk = None"
| "stack_op resolve Emit = None"
| "stack_op resolve Add = Some (\<lambda>s. case s of b ## a ## t \<Rightarrow>
     Inr ((a + b) ## t))"
| "stack_op resolve Neg = Some (\<lambda>s. case s of a ## t \<Rightarrow>
     Inr ((- a) ## t))"
| "stack_op resolve Mul = Some (\<lambda>s. case s of b ## a ## t \<Rightarrow>
     Inr ((a * b) ## t))"
| "stack_op resolve Inv = Some (\<lambda>s. case s of a ## t \<Rightarrow>
     if a = 0 then Inl DivideByZero else Inr (inverse a ## t))"
| "stack_op resolve Incr = Some (\<lambda>s. case s of a ## t \<Rightarrow>
     Inr ((a + 1) ## t))"
| "stack_op resolve And = Some (\<lambda>s. case s of b ## a ## t \<Rightarrow>
     if b \<noteq> 0 \<and> b \<noteq> 1 then Inl (NotBinaryValue b) else if a \<noteq> 0 \<and> a \<noteq> 1 then Inl (NotBinaryValue a)
       else Inr (felt_from_bool (a = 1 \<and> b = 1) ## t))"
| "stack_op resolve Or = Some (\<lambda>s. case s of b ## a ## t \<Rightarrow>
     if b \<noteq> 0 \<and> b \<noteq> 1 then Inl (NotBinaryValue b) else if a \<noteq> 0 \<and> a \<noteq> 1 then Inl (NotBinaryValue a)
       else Inr (felt_from_bool (a = 1 \<or> b = 1) ## t))"
| "stack_op resolve Not_op = Some (\<lambda>s. case s of a ## t \<Rightarrow>
     if a \<noteq> 0 \<and> a \<noteq> 1 then Inl (NotBinaryValue a) else Inr (felt_from_bool (a = 0) ## t))"
| "stack_op resolve Eq = Some (\<lambda>s. case s of b ## a ## t \<Rightarrow>
     Inr (felt_from_bool (a = b) ## t))"
| "stack_op resolve Eqz = Some (\<lambda>s. case s of a ## t \<Rightarrow>
     Inr (felt_from_bool (a = 0) ## t))"
| "stack_op resolve Expacc = Some (\<lambda>s. case s of z ## b ## acc ## e ## t \<Rightarrow>
     Inr (felt_from_bool (odd (Rep_felt e)) ## b * b ##
       (acc * (if odd (Rep_felt e) then b else 1)) ## of_int (Rep_felt e div 2) ## t))"
| "stack_op resolve Ext2Mul = Some (\<lambda>s. case s of b0 ## b1 ## a0 ## a1 ## t \<Rightarrow>
     Inr (b0 ## b1 ## (a0 * b0 + 7 * (a1 * b1)) ## (a0 * b1 + a1 * b0) ## t))"
| "stack_op resolve U32split = Some (\<lambda>s. case s of a ## t \<Rightarrow>
     Inr (of_int (Rep_felt a mod 2 ^ 32) ## of_int (Rep_felt a div 2 ^ 32) ## t))"
| "stack_op resolve U32add = Some (\<lambda>s. case s of a ## b ## t \<Rightarrow>
     if not_u32 [a, b] \<noteq> [] then Inl (NotU32Values (not_u32 [a, b])) else Inr (of_int ((Rep_felt a + Rep_felt b) mod 2 ^ 32) ## of_int ((Rep_felt a + Rep_felt b) div 2 ^ 32) ## t))"
| "stack_op resolve (U32assert2 e) = Some (\<lambda>s. case s of a ## b ## t \<Rightarrow>
     if not_u32 [a, b] \<noteq> []
       then Inl (if e \<noteq> 0 then U32AssertionFailed e (resolve e) (not_u32 [a, b]) else NotU32Values (not_u32 [a, b]))
       else Inr (a ## b ## t))"
| "stack_op resolve U32add3 = Some (\<lambda>s. case s of a ## b ## c ## t \<Rightarrow>
     if not_u32 [a, b, c] \<noteq> [] then Inl (NotU32Values (not_u32 [a, b, c])) else Inr (of_int ((Rep_felt a + Rep_felt b + Rep_felt c) mod 2 ^ 32) ## of_int ((Rep_felt a + Rep_felt b + Rep_felt c) div 2 ^ 32) ## t))"
| "stack_op resolve U32sub = Some (\<lambda>s. case s of b ## a ## t \<Rightarrow>
     if not_u32 [b, a] \<noteq> [] then Inl (NotU32Values (not_u32 [b, a])) else Inr (felt_from_bool (Rep_felt a < Rep_felt b) ## of_int ((Rep_felt a - Rep_felt b) mod 2 ^ 32) ## t))"
| "stack_op resolve U32mul = Some (\<lambda>s. case s of a ## b ## t \<Rightarrow>
     if not_u32 [a, b] \<noteq> [] then Inl (NotU32Values (not_u32 [a, b])) else Inr (of_int ((Rep_felt a * Rep_felt b) mod 2 ^ 32) ## of_int ((Rep_felt a * Rep_felt b) div 2 ^ 32) ## t))"
| "stack_op resolve U32madd = Some (\<lambda>s. case s of a ## b ## c ## t \<Rightarrow>
     if not_u32 [a, b, c] \<noteq> [] then Inl (NotU32Values (not_u32 [a, b, c])) else Inr (of_int ((Rep_felt a * Rep_felt b + Rep_felt c) mod 2 ^ 32) ## of_int ((Rep_felt a * Rep_felt b + Rep_felt c) div 2 ^ 32) ## t))"
| "stack_op resolve U32div = Some (\<lambda>s. case s of b ## a ## t \<Rightarrow>
     if not_u32 [b, a] \<noteq> [] then Inl (NotU32Values (not_u32 [b, a])) else if b = 0 then Inl DivideByZero
       else Inr (of_int (Rep_felt a mod Rep_felt b) ## of_int (Rep_felt a div Rep_felt b) ## t))"
| "stack_op resolve U32and = Some (\<lambda>s. case s of a ## b ## t \<Rightarrow>
     if not_u32 [a, b] \<noteq> [] then Inl (NotU32Values (not_u32 [a, b])) else Inr (of_int (Rep_felt a AND Rep_felt b) ## t))"
| "stack_op resolve U32xor = Some (\<lambda>s. case s of a ## b ## t \<Rightarrow>
     if not_u32 [a, b] \<noteq> [] then Inl (NotU32Values (not_u32 [a, b])) else Inr (of_int (Rep_felt a XOR Rep_felt b) ## t))"
| "stack_op resolve Pad = Some (\<lambda>s. Inr (0 ## s))"
| "stack_op resolve Drop = Some (\<lambda>s. Inr (stl s))"
| "stack_op resolve Dup0 = Some (\<lambda>s. Inr (s !! 0 ## s))"
| "stack_op resolve Dup1 = Some (\<lambda>s. Inr (s !! 1 ## s))"
| "stack_op resolve Dup2 = Some (\<lambda>s. Inr (s !! 2 ## s))"
| "stack_op resolve Dup3 = Some (\<lambda>s. Inr (s !! 3 ## s))"
| "stack_op resolve Dup4 = Some (\<lambda>s. Inr (s !! 4 ## s))"
| "stack_op resolve Dup5 = Some (\<lambda>s. Inr (s !! 5 ## s))"
| "stack_op resolve Dup6 = Some (\<lambda>s. Inr (s !! 6 ## s))"
| "stack_op resolve Dup7 = Some (\<lambda>s. Inr (s !! 7 ## s))"
| "stack_op resolve Dup9 = Some (\<lambda>s. Inr (s !! 9 ## s))"
| "stack_op resolve Dup11 = Some (\<lambda>s. Inr (s !! 11 ## s))"
| "stack_op resolve Dup13 = Some (\<lambda>s. Inr (s !! 13 ## s))"
| "stack_op resolve Dup15 = Some (\<lambda>s. Inr (s !! 15 ## s))"
| "stack_op resolve Swap = Some (\<lambda>s. case s of b ## a ## t \<Rightarrow>
     Inr (a ## b ## t))"
| "stack_op resolve SwapW = Some (\<lambda>s. Inr (swap_words 1 s))"
| "stack_op resolve SwapW2 = Some (\<lambda>s. Inr (swap_words 2 s))"
| "stack_op resolve SwapW3 = Some (\<lambda>s. Inr (swap_words 3 s))"
| "stack_op resolve SwapDW = Some (\<lambda>s. case s of a0 ## a1 ## a2 ## a3 ## a4 ## a5 ## a6 ## a7 ## b0 ## b1 ## b2 ## b3 ## b4 ## b5 ## b6 ## b7 ## t \<Rightarrow>
     Inr (b0 ## b1 ## b2 ## b3 ## b4 ## b5 ## b6 ## b7 ## a0 ## a1 ## a2 ## a3 ## a4 ## a5 ## a6 ## a7 ## t))"
| "stack_op resolve MovUp2 = Some (\<lambda>s. Inr (rotl 3 s))"
| "stack_op resolve MovUp3 = Some (\<lambda>s. Inr (rotl 4 s))"
| "stack_op resolve MovUp4 = Some (\<lambda>s. Inr (rotl 5 s))"
| "stack_op resolve MovUp5 = Some (\<lambda>s. Inr (rotl 6 s))"
| "stack_op resolve MovUp6 = Some (\<lambda>s. Inr (rotl 7 s))"
| "stack_op resolve MovUp7 = Some (\<lambda>s. Inr (rotl 8 s))"
| "stack_op resolve MovUp8 = Some (\<lambda>s. Inr (rotl 9 s))"
| "stack_op resolve MovDn2 = Some (\<lambda>s. Inr (rotr 3 s))"
| "stack_op resolve MovDn3 = Some (\<lambda>s. Inr (rotr 4 s))"
| "stack_op resolve MovDn4 = Some (\<lambda>s. Inr (rotr 5 s))"
| "stack_op resolve MovDn5 = Some (\<lambda>s. Inr (rotr 6 s))"
| "stack_op resolve MovDn6 = Some (\<lambda>s. Inr (rotr 7 s))"
| "stack_op resolve MovDn7 = Some (\<lambda>s. Inr (rotr 8 s))"
| "stack_op resolve MovDn8 = Some (\<lambda>s. Inr (rotr 9 s))"
| "stack_op resolve CSwap = Some (\<lambda>s. case s of c ## b ## a ## t \<Rightarrow>
     if c = 0 then Inr (b ## a ## t) else if c = 1 then Inr (a ## b ## t) else Inl (NotBinaryValue c))"
| "stack_op resolve CSwapW = Some (\<lambda>s. case s of c ## b0 ## b1 ## b2 ## b3 ## a0 ## a1 ## a2 ## a3 ## t \<Rightarrow>
     if c = 0 then Inr (b0 ## b1 ## b2 ## b3 ## a0 ## a1 ## a2 ## a3 ## t)
       else if c = 1 then Inr (a0 ## a1 ## a2 ## a3 ## b0 ## b1 ## b2 ## b3 ## t)
       else Inl (NotBinaryValue c))"
| "stack_op resolve (Push v) = Some (\<lambda>s. Inr (v ## s))"
| "stack_op resolve AdvPop = None"
| "stack_op resolve AdvPopW = None"
| "stack_op resolve MLoadW = None"
| "stack_op resolve MStoreW = None"
| "stack_op resolve MLoad = None"
| "stack_op resolve MStore = None"
| "stack_op resolve MStream = None"
| "stack_op resolve Pipe = None"
| "stack_op resolve CryptoStream = None"
| "stack_op resolve HPerm = None"
| "stack_op resolve (MpVerify _) = None"
| "stack_op resolve MrUpdate = None"
| "stack_op resolve FriE2F4 = None"
| "stack_op resolve HornerBase = None"
| "stack_op resolve HornerExt = None"
| "stack_op resolve EvalCircuit = None"
| "stack_op resolve LogPrecompile = None"

text \<open>Operations that read or write other parts of the machine; for the others the entry is not used.\<close>

primrec machine_op :: "('m, 'q) crypto_lib \<Rightarrow> (felt \<Rightarrow> string option) \<Rightarrow> operation \<Rightarrow> 'm vm \<Rightarrow> 'm vm res" where
  "machine_op X resolve Noop = (\<lambda>\<sigma>. Inr \<sigma>)"
| "machine_op X resolve (Assert _) = (\<lambda>\<sigma>. Inr \<sigma>)"
| "machine_op X resolve SDepth = (\<lambda>\<sigma>. Inr (vpush (felt_from_u32 (of_nat (v_depth \<sigma>))) \<sigma>))"
| "machine_op X resolve Caller = (\<lambda>\<sigma>. Inr (vset_word 0 (v_caller \<sigma>) \<sigma>))"
| "machine_op X resolve Clk = (\<lambda>\<sigma>. Inr (vpush (felt_from_u32 (v_clk \<sigma>)) \<sigma>))"
| "machine_op X resolve Emit = (\<lambda>\<sigma>. Inl (Panic ''emit instruction requires async, so is not supported by execute_op()''))"
| "machine_op X resolve Add = (\<lambda>\<sigma>. Inr \<sigma>)"
| "machine_op X resolve Neg = (\<lambda>\<sigma>. Inr \<sigma>)"
| "machine_op X resolve Mul = (\<lambda>\<sigma>. Inr \<sigma>)"
| "machine_op X resolve Inv = (\<lambda>\<sigma>. Inr \<sigma>)"
| "machine_op X resolve Incr = (\<lambda>\<sigma>. Inr \<sigma>)"
| "machine_op X resolve And = (\<lambda>\<sigma>. Inr \<sigma>)"
| "machine_op X resolve Or = (\<lambda>\<sigma>. Inr \<sigma>)"
| "machine_op X resolve Not_op = (\<lambda>\<sigma>. Inr \<sigma>)"
| "machine_op X resolve Eq = (\<lambda>\<sigma>. Inr \<sigma>)"
| "machine_op X resolve Eqz = (\<lambda>\<sigma>. Inr \<sigma>)"
| "machine_op X resolve Expacc = (\<lambda>\<sigma>. Inr \<sigma>)"
| "machine_op X resolve Ext2Mul = (\<lambda>\<sigma>. Inr \<sigma>)"
| "machine_op X resolve U32split = (\<lambda>\<sigma>. Inr \<sigma>)"
| "machine_op X resolve U32add = (\<lambda>\<sigma>. Inr \<sigma>)"
| "machine_op X resolve (U32assert2 _) = (\<lambda>\<sigma>. Inr \<sigma>)"
| "machine_op X resolve U32add3 = (\<lambda>\<sigma>. Inr \<sigma>)"
| "machine_op X resolve U32sub = (\<lambda>\<sigma>. Inr \<sigma>)"
| "machine_op X resolve U32mul = (\<lambda>\<sigma>. Inr \<sigma>)"
| "machine_op X resolve U32madd = (\<lambda>\<sigma>. Inr \<sigma>)"
| "machine_op X resolve U32div = (\<lambda>\<sigma>. Inr \<sigma>)"
| "machine_op X resolve U32and = (\<lambda>\<sigma>. Inr \<sigma>)"
| "machine_op X resolve U32xor = (\<lambda>\<sigma>. Inr \<sigma>)"
| "machine_op X resolve Pad = (\<lambda>\<sigma>. Inr \<sigma>)"
| "machine_op X resolve Drop = (\<lambda>\<sigma>. Inr \<sigma>)"
| "machine_op X resolve Dup0 = (\<lambda>\<sigma>. Inr \<sigma>)"
| "machine_op X resolve Dup1 = (\<lambda>\<sigma>. Inr \<sigma>)"
| "machine_op X resolve Dup2 = (\<lambda>\<sigma>. Inr \<sigma>)"
| "machine_op X resolve Dup3 = (\<lambda>\<sigma>. Inr \<sigma>)"
| "machine_op X resolve Dup4 = (\<lambda>\<sigma>. Inr \<sigma>)"
| "machine_op X resolve Dup5 = (\<lambda>\<sigma>. Inr \<sigma>)"
| "machine_op X resolve Dup6 = (\<lambda>\<sigma>. Inr \<sigma>)"
| "machine_op X resolve Dup7 = (\<lambda>\<sigma>. Inr \<sigma>)"
| "machine_op X resolve Dup9 = (\<lambda>\<sigma>. Inr \<sigma>)"
| "machine_op X resolve Dup11 = (\<lambda>\<sigma>. Inr \<sigma>)"
| "machine_op X resolve Dup13 = (\<lambda>\<sigma>. Inr \<sigma>)"
| "machine_op X resolve Dup15 = (\<lambda>\<sigma>. Inr \<sigma>)"
| "machine_op X resolve Swap = (\<lambda>\<sigma>. Inr \<sigma>)"
| "machine_op X resolve SwapW = (\<lambda>\<sigma>. Inr \<sigma>)"
| "machine_op X resolve SwapW2 = (\<lambda>\<sigma>. Inr \<sigma>)"
| "machine_op X resolve SwapW3 = (\<lambda>\<sigma>. Inr \<sigma>)"
| "machine_op X resolve SwapDW = (\<lambda>\<sigma>. Inr \<sigma>)"
| "machine_op X resolve MovUp2 = (\<lambda>\<sigma>. Inr \<sigma>)"
| "machine_op X resolve MovUp3 = (\<lambda>\<sigma>. Inr \<sigma>)"
| "machine_op X resolve MovUp4 = (\<lambda>\<sigma>. Inr \<sigma>)"
| "machine_op X resolve MovUp5 = (\<lambda>\<sigma>. Inr \<sigma>)"
| "machine_op X resolve MovUp6 = (\<lambda>\<sigma>. Inr \<sigma>)"
| "machine_op X resolve MovUp7 = (\<lambda>\<sigma>. Inr \<sigma>)"
| "machine_op X resolve MovUp8 = (\<lambda>\<sigma>. Inr \<sigma>)"
| "machine_op X resolve MovDn2 = (\<lambda>\<sigma>. Inr \<sigma>)"
| "machine_op X resolve MovDn3 = (\<lambda>\<sigma>. Inr \<sigma>)"
| "machine_op X resolve MovDn4 = (\<lambda>\<sigma>. Inr \<sigma>)"
| "machine_op X resolve MovDn5 = (\<lambda>\<sigma>. Inr \<sigma>)"
| "machine_op X resolve MovDn6 = (\<lambda>\<sigma>. Inr \<sigma>)"
| "machine_op X resolve MovDn7 = (\<lambda>\<sigma>. Inr \<sigma>)"
| "machine_op X resolve MovDn8 = (\<lambda>\<sigma>. Inr \<sigma>)"
| "machine_op X resolve CSwap = (\<lambda>\<sigma>. Inr \<sigma>)"
| "machine_op X resolve CSwapW = (\<lambda>\<sigma>. Inr \<sigma>)"
| "machine_op X resolve (Push _) = (\<lambda>\<sigma>. Inr \<sigma>)"
| "machine_op X resolve AdvPop = (\<lambda>\<sigma>. isa_advpop \<sigma>)"
| "machine_op X resolve AdvPopW = (\<lambda>\<sigma>. isa_advpopw \<sigma>)"
| "machine_op X resolve MLoadW = (\<lambda>\<sigma>. isa_mloadw \<sigma>)"
| "machine_op X resolve MStoreW = (\<lambda>\<sigma>. isa_mstorew \<sigma>)"
| "machine_op X resolve MLoad = (\<lambda>\<sigma>. isa_mload \<sigma>)"
| "machine_op X resolve MStore = (\<lambda>\<sigma>. isa_mstore \<sigma>)"
| "machine_op X resolve MStream = (\<lambda>\<sigma>. isa_mstream \<sigma>)"
| "machine_op X resolve Pipe = (\<lambda>\<sigma>. isa_pipe \<sigma>)"
| "machine_op X resolve CryptoStream = (\<lambda>\<sigma>. isa_crypto_stream \<sigma>)"
| "machine_op X resolve HPerm = (\<lambda>\<sigma>. isa_hperm X \<sigma>)"
| "machine_op X resolve (MpVerify e) = (\<lambda>\<sigma>. isa_mpverify X resolve e \<sigma>)"
| "machine_op X resolve MrUpdate = (\<lambda>\<sigma>. isa_mrupdate X \<sigma>)"
| "machine_op X resolve FriE2F4 = (\<lambda>\<sigma>. isa_fri \<sigma>)"
| "machine_op X resolve HornerBase = (\<lambda>\<sigma>. isa_horner_base \<sigma>)"
| "machine_op X resolve HornerExt = (\<lambda>\<sigma>. isa_horner_ext \<sigma>)"
| "machine_op X resolve EvalCircuit = (\<lambda>\<sigma>. isa_eval_circuit \<sigma>)"
| "machine_op X resolve LogPrecompile = (\<lambda>\<sigma>. isa_log_precompile X \<sigma>)"

definition depth_after :: "operation \<Rightarrow> nat \<Rightarrow> nat" where
  "depth_after op d = (if increments_stack_size op then d + 1
     else if decrements_stack_size op then max 16 (d - 1) else d)"

definition isa :: "('m, 'q) crypto_lib \<Rightarrow> (felt \<Rightarrow> string option) \<Rightarrow> operation \<Rightarrow> 'm vm \<Rightarrow> 'm vm res" where
  "isa X resolve op \<sigma> = (case stack_op resolve op of
      Some f \<Rightarrow> res_map (\<lambda>s. \<sigma>\<lparr>v_stack := s, v_depth := depth_after op (v_depth \<sigma>)\<rparr>)
                  (res_map_err OperationErr (f (v_stack \<sigma>)))
    | None \<Rightarrow> machine_op X resolve op \<sigma>)"

section \<open>Refinement\<close>

lemma res_map_if: "res_map g (if c then m else n) = (if c then res_map g m else res_map g n)"
  by simp

lemma res_map_err_if: "res_map_err g (if c then m else n) = (if c then res_map_err g m else res_map_err g n)"
  by simp

lemma v_stack_same: "v_stack \<sigma> = s \<Longrightarrow> \<sigma>\<lparr>v_stack := s\<rparr> = \<sigma>"
  by auto

lemmas isa_unfold = isa_def depth_after_def increments_stack_size_def decrements_stack_size_def
  res_map_if res_map_err_if

context processor_laws
begin

text \<open>One lemma per group of operations: stack manipulation, field arithmetic, 32-bit arithmetic and
  the operations on the rest of the machine.\<close>

lemma execute_move_sim:
  assumes "good s" "op \<in> {Noop, Pad, Drop, Push v, SwapW, SwapW2, SwapW3, MovUp2, MovUp3, MovUp4, MovUp5, MovUp6, MovUp7, MovUp8,
      MovDn2, MovDn3, MovDn4, MovDn5, MovDn6, MovDn7, MovDn8}"
  shows "sim good view (execute_op X P resolve op s) (isa X resolve op (view s))"
proof -
  note g = assms(1)
  note moves = op_push_sim [OF g] op_pad_sim [OF g] op_drop_sim [OF g] movup_sim [OF g]
    movdn_sim [OF g] swapw_sim [OF g]
  from assms(2) show ?thesis
    by (elim insertE emptyE; use moves [unfolded vm_defs] sim_Inr [of good s _ view, OF g refl] in \<open>simp add: isa_unfold\<close>)
qed

lemma execute_dup_sim:
  assumes "good s" "op \<in> {Dup0, Dup1, Dup2, Dup3, Dup4, Dup5, Dup6, Dup7, Dup9, Dup11, Dup13, Dup15}"
  shows "sim good view (execute_op X P resolve op s) (isa X resolve op (view s))"
proof -
  note d = dup_nth_sim [OF assms(1), unfolded vpush_def]
  note dups = d [of 0] d [of 1] d [of 2] d [of 3] d [of 4] d [of 5] d [of 6] d [of 7] d [of 9] d [of 11] d [of 13] d [of 15]
  from assms(2) show ?thesis
    by (elim insertE emptyE; use dups in \<open>simp add: isa_unfold\<close>)
qed

lemma execute_swap_sim:
  assumes "good s" "op \<in> {Assert e, Swap, SwapDW, CSwap, CSwapW}"
  shows "sim good view (execute_op X P resolve op s) (isa X resolve op (view s))"
proof -
  note g = assms(1)
  obtain a0 a1 a2 a3 a4 a5 a6 a7 a8 a9 a10 a11 a12 a13 a14 a15 t where st: "v_stack (view s) =
      a0 ## a1 ## a2 ## a3 ## a4 ## a5 ## a6 ## a7 ## a8 ## a9 ## a10 ## a11 ## a12 ## a13 ## a14 ## a15 ## t"
    by (rule stream_split_16)
  note swaps = op_assert_sim [OF g st] op_swap_sim [OF g st] op_swap_double_word_sim [OF g st] op_cswap_sim [OF g st] op_cswapw_sim [OF g st]
  from assms(2) show ?thesis
    by (elim insertE emptyE; use swaps [unfolded vm_defs] in \<open>simp add: isa_unfold st cong: if_cong\<close>)
qed

lemma execute_field_sim:
  assumes "good s" "op \<in> {Add, Neg, Mul, Inv, Incr, And, Or, Not_op, Eq, Eqz, Expacc, Ext2Mul}"
  shows "sim good view (execute_op X P resolve op s) (isa X resolve op (view s))"
proof -
  note g = assms(1)
  obtain a b c d t where st: "v_stack (view s) = a ## b ## c ## d ## t" by (metis stream.exhaust)
  note fields = op_add_sim [OF g st] op_mul_sim [OF g st] op_neg_sim [OF g st] op_inv_sim [OF g st] op_incr_sim [OF g st]
    op_and_sim [OF g st] op_or_sim [OF g st] op_not_sim [OF g st] op_eq_sim [OF g st] op_eqz_sim [OF g st]
    op_expacc_sim [OF g st] op_ext2mul_sim [OF g st]
  from assms(2) show ?thesis
    by (elim insertE emptyE; use fields [unfolded vm_defs] in \<open>simp add: isa_unfold st cong: if_cong\<close>)
qed

lemma execute_u32_sim:
  assumes "good s" "op \<in> {U32split, U32add, U32add3, U32sub, U32mul, U32madd, U32div, U32and, U32xor}"
  shows "sim good view (execute_op X P resolve op s) (isa X resolve op (view s))"
proof -
  note g = assms(1)
  obtain a b c t where st: "v_stack (view s) = a ## b ## c ## t" by (metis stream.exhaust)
  note u32 = op_u32split_sim [OF g st] op_u32add_sim [OF g st] op_u32add3_sim [OF g st] op_u32sub_sim [OF g st]
    op_u32mul_sim [OF g st] op_u32madd_sim [OF g st] op_u32div_sim [OF g st] op_u32and_sim [OF g st] op_u32xor_sim [OF g st]
  from assms(2) show ?thesis
    by (elim insertE emptyE; use u32 [unfolded vm_defs] in \<open>simp add: isa_unfold st cong: if_cong\<close>)
qed

lemma execute_u32assert2_sim:
  assumes g: "good s"
  shows "sim good view (execute_op X P resolve (U32assert2 e) s) (isa X resolve (U32assert2 e) (view s))"
proof -
  obtain a b t where st: "v_stack (view s) = a ## b ## t" by (metis stream.exhaust)
  have "isa X resolve (U32assert2 e) (view s) = (if not_u32 [a, b] \<noteq> []
      then Inl (OperationErr (if e \<noteq> 0 then U32AssertionFailed e (resolve e) (not_u32 [a, b])
                              else NotU32Values (not_u32 [a, b])))
      else Inr (view s))"
    using v_stack_same [OF st] by (simp add: isa_unfold st)
  then show ?thesis by (simp only: execute_op.simps op_u32assert2_sim [OF g st])
qed

lemma execute_op_sim: "good s \<Longrightarrow> sim good view (execute_op X P resolve op s) (isa X resolve op (view s))"
proof -
  assume g: "good s"
  note io = op_sdepth_sim op_caller_sim op_clk_sim op_advpop_sim op_advpopw_sim op_mloadw_sim op_mstorew_sim op_mload_sim
    op_mstore_sim op_mstream_sim op_pipe_sim op_hperm_sim op_mpverify_sim op_mrupdate_sim op_horner_eval_base_sim
    op_horner_eval_ext_sim op_log_precompile_sim op_crypto_stream_sim op_fri_ext2fold4_sim op_eval_circuit_sim
  show ?thesis
  proof (cases "stack_op resolve op")
    case None
    with g show ?thesis by (cases op) (simp_all add: isa_def io sim_Inl)
  next
    case (Some f)
    then show ?thesis
      by (cases op) (simp_all add: execute_move_sim [OF g] execute_dup_sim [OF g] execute_swap_sim [OF g] execute_field_sim [OF g] execute_u32_sim [OF g]
          execute_u32assert2_sim [OF g]
          del: execute_op.simps)
  qed
qed

end

end
