(* ===== verification/Fast_Processor.thy ===== *)
theory Fast_Processor
  imports Execute_Op
begin

text \<open>
  \<open>FastProcessor\<close> (\<open>processor/src/fast/mod.rs\<close>, \<open>fast/operation.rs\<close>, \<open>fast/call_and_dyn.rs\<close>): the
  operand stack lives in a buffer of 6850 elements between a bottom and a top index, grows upwards
  and is moved inside the buffer when it hits the lower end.  Every access is bounds-checked as in
  Rust: a subtraction below zero, an index outside the buffer and a violated \<open>debug_assert\<close> are the
  value \<open>Panic\<close>.  \<open>fp_good\<close> is the invariant of the buffer (at least sixteen elements, zeros below
  the bottom, saved overflow stacks that fit); the interpretation \<open>fp\<close> shows that under it the
  buffer implements all contracts of \<^theory_text>\<open>processor_laws\<close>, so no stack access ever panics.
\<close>

section \<open>State\<close>

definition STACK_BUFFER_SIZE :: nat where
  "STACK_BUFFER_SIZE = 6850"

definition INITIAL_STACK_TOP_IDX :: nat where
  "INITIAL_STACK_TOP_IDX = 250"

record execution_context_info =
  overflow_stack :: "felt list"
  ci_ctx :: ctx_id
  fn_hash :: fword

record 'm fast_processor =
  fp_stack :: "nat \<Rightarrow> felt"
  stack_top_idx :: nat
  stack_bot_idx :: nat
  fp_clk :: u32
  fp_ctx :: ctx_id
  fp_caller_hash :: fword
  fp_advice :: "'m advice_provider"
  fp_memory :: memory
  call_stack :: "execution_context_info list"
  fp_options :: execution_options
  pc_transcript :: fword

section \<open>Buffer accesses\<close>

text \<open>Indexing of the array \<open>stack\<close>, and of its subslices.\<close>

definition buf_get :: "'m fast_processor \<Rightarrow> nat \<Rightarrow> felt res" where
  "buf_get p j = (if j < STACK_BUFFER_SIZE then Inr (fp_stack p j) else Inl (Panic ''index out of bounds''))"

definition buf_set :: "'m fast_processor \<Rightarrow> nat \<Rightarrow> felt \<Rightarrow> 'm fast_processor res" where
  "buf_set p j x = (if j < STACK_BUFFER_SIZE then Inr (p\<lparr>fp_stack := (fp_stack p)(j := x)\<rparr>)
                    else Inl (Panic ''index out of bounds''))"

definition buf_slice :: "'m fast_processor \<Rightarrow> nat \<Rightarrow> nat \<Rightarrow> felt list res" where
  "buf_slice p i j = (if i \<le> j \<and> j \<le> STACK_BUFFER_SIZE then Inr (map (fp_stack p) [i..<j])
                      else Inl (Panic ''range out of bounds''))"

definition buf_copy_from_slice :: "'m fast_processor \<Rightarrow> nat \<Rightarrow> felt list \<Rightarrow> 'm fast_processor res" where
  "buf_copy_from_slice p i xs = (if i + length xs \<le> STACK_BUFFER_SIZE
     then Inr (p\<lparr>fp_stack := (\<lambda>j. if i \<le> j \<and> j < i + length xs then xs ! (j - i) else fp_stack p j)\<rparr>)
     else Inl (Panic ''range out of bounds''))"

section \<open>Operations on the stack buffer\<close>

definition stack_size :: "'m fast_processor \<Rightarrow> nat res" where
  "stack_size p = usize_sub (stack_top_idx p) (stack_bot_idx p)"

definition stack_depth :: "'m fast_processor \<Rightarrow> u32 res" where
  "stack_depth p = res_map of_nat (usize_sub (stack_top_idx p) (stack_bot_idx p))"

definition fp_stack_slice :: "'m fast_processor \<Rightarrow> felt list res" where
  "fp_stack_slice p = buf_slice p (stack_bot_idx p) (stack_top_idx p)"

definition fp_stack_top :: "'m fast_processor \<Rightarrow> felt list res" where
  "fp_stack_top p = res_bind (usize_sub (stack_top_idx p) MIN_STACK_DEPTH) (\<lambda>i. buf_slice p i (stack_top_idx p))"

definition stack_get :: "'m fast_processor \<Rightarrow> nat \<Rightarrow> felt res" where
  "stack_get p idx =
     res_bind (usize_sub (stack_top_idx p) idx) (\<lambda>j. res_bind (usize_sub j 1) (buf_get p))"

definition stack_get_safe :: "'m fast_processor \<Rightarrow> nat \<Rightarrow> felt res" where
  "stack_get_safe p idx =
     (if idx < stack_top_idx p then buf_get p (stack_top_idx p - idx - 1) else Inr 0)"

definition word_from_slice :: "felt list \<Rightarrow> fword res" where
  "word_from_slice xs = ok_or (word_of_elements xs) (Panic ''slice length'')"

definition stack_get_word :: "'m fast_processor \<Rightarrow> nat \<Rightarrow> fword res" where
  "stack_get_word p start_idx =
     res_bind (stack_depth p) (\<lambda>d.
     res_bind (ensure (start_idx + WORD_SIZE \<le> unat d) (Panic ''Not enough elements on stack'')) (\<lambda>_.
     res_bind (usize_sub (stack_top_idx p) start_idx) (\<lambda>j.
     res_bind (usize_sub j WORD_SIZE) (\<lambda>word_start_idx.
     res_bind (buf_slice p word_start_idx (word_start_idx + WORD_SIZE)) (\<lambda>result.
     word_from_slice (rev result))))))"

definition stack_get_word_safe :: "'m fast_processor \<Rightarrow> nat \<Rightarrow> fword res" where
  "stack_get_word_safe p start_idx =
     (let buf_end = stack_top_idx p - start_idx;
          buf_start = stack_top_idx p - (start_idx + WORD_SIZE);
          num_elements_to_read_from_buf = buf_end - buf_start in
      res_bind (if num_elements_to_read_from_buf = WORD_SIZE then buf_slice p buf_start (buf_start + WORD_SIZE)
                else if num_elements_to_read_from_buf > 0
                then res_map (\<lambda>xs. replicate (WORD_SIZE - num_elements_to_read_from_buf) 0 @ xs)
                       (buf_slice p buf_start (buf_start + num_elements_to_read_from_buf))
                else Inr (replicate WORD_SIZE 0)) (\<lambda>result.
      word_from_slice (rev result)))"

definition stack_write :: "'m fast_processor \<Rightarrow> nat \<Rightarrow> felt \<Rightarrow> 'm fast_processor res" where
  "stack_write p idx element =
     res_bind (usize_sub (stack_top_idx p) idx) (\<lambda>j.
     res_bind (usize_sub j 1) (\<lambda>j. buf_set p j element))"

definition stack_write_word :: "'m fast_processor \<Rightarrow> nat \<Rightarrow> fword \<Rightarrow> 'm fast_processor res" where
  "stack_write_word p start_idx w =
     res_bind (ensure (start_idx \<le> MIN_STACK_DEPTH - WORD_SIZE) (Panic ''debug assertion'')) (\<lambda>_.
     res_bind (usize_sub (stack_top_idx p) start_idx) (\<lambda>j.
     res_bind (usize_sub j 4) (\<lambda>word_start_idx.
     buf_copy_from_slice p word_start_idx (rev (word_elements w)))))"

definition stack_swap :: "'m fast_processor \<Rightarrow> nat \<Rightarrow> nat \<Rightarrow> 'm fast_processor res" where
  "stack_swap p idx1 idx2 =
     res_bind (stack_get p idx1) (\<lambda>a.
     res_bind (stack_get p idx2) (\<lambda>b.
     res_bind (stack_write p idx1 b) (\<lambda>p.
     stack_write p idx2 a)))"

definition fp_swapw_nth :: "'m fast_processor \<Rightarrow> nat \<Rightarrow> 'm fast_processor res" where
  "fp_swapw_nth p n =
     res_bind (usize_sub (stack_top_idx p) WORD_SIZE) (\<lambda>top_word.
     res_bind (usize_sub top_word (n * WORD_SIZE)) (\<lambda>nth_word.
     res_bind (ensure (nth_word + WORD_SIZE \<le> top_word) (Panic ''range out of bounds'')) (\<lambda>_.
     res_bind (buf_slice p nth_word (nth_word + WORD_SIZE)) (\<lambda>a.
     res_bind (buf_slice p top_word (top_word + WORD_SIZE)) (\<lambda>b.
     res_bind (buf_copy_from_slice p nth_word b) (\<lambda>p.
     buf_copy_from_slice p top_word a))))))"

definition fp_rotate_left :: "'m fast_processor \<Rightarrow> nat \<Rightarrow> 'm fast_processor res" where
  "fp_rotate_left p n =
     res_bind (usize_sub (stack_top_idx p) n) (\<lambda>rotation_bot_index.
     res_bind (buf_get p rotation_bot_index) (\<lambda>new_stack_top_element.
     res_bind (usize_sub n 1) (\<lambda>m.
     res_bind (res_fold (\<lambda>i p. res_bind (buf_get p (rotation_bot_index + i + 1))
                                 (buf_set p (rotation_bot_index + i))) [0..<m] p) (\<lambda>p.
     stack_write p 0 new_stack_top_element))))"

definition fp_rotate_right :: "'m fast_processor \<Rightarrow> nat \<Rightarrow> 'm fast_processor res" where
  "fp_rotate_right p n =
     res_bind (usize_sub (stack_top_idx p) n) (\<lambda>rotation_bot_index.
     res_bind (usize_sub (stack_top_idx p) 1) (\<lambda>j.
     res_bind (buf_get p j) (\<lambda>new_stack_bot_element.
     res_bind (res_fold (\<lambda>i p. res_bind (usize_sub (stack_top_idx p) i) (\<lambda>dst.
                                 res_bind (usize_sub dst 1) (\<lambda>src.
                                 res_bind (buf_get p src) (buf_set p dst)))) [1..<n] p) (\<lambda>p.
     buf_set p rotation_bot_index new_stack_bot_element))))"

definition increment_stack_size :: "'m fast_processor \<Rightarrow> 'm fast_processor" where
  "increment_stack_size p = p\<lparr>stack_top_idx := stack_top_idx p + 1\<rparr>"

definition fp_increment_size :: "'m fast_processor \<Rightarrow> 'm fast_processor res" where
  "fp_increment_size p =
     (if stack_top_idx p < STACK_BUFFER_SIZE - 1 then Inr (increment_stack_size p) else Inl stack_overflow)"

definition reset_stack_in_buffer :: "'m fast_processor \<Rightarrow> nat \<Rightarrow> 'm fast_processor res" where
  "reset_stack_in_buffer p new_stack_top_idx =
     res_bind (stack_depth p) (\<lambda>d.
     res_bind (ensure (d = of_nat MIN_STACK_DEPTH) (Panic ''debug assertion'')) (\<lambda>_.
     res_bind (usize_sub new_stack_top_idx MIN_STACK_DEPTH) (\<lambda>new_stack_bot_idx.
     res_bind (buf_slice p (stack_bot_idx p) (stack_top_idx p)) (\<lambda>xs.
     res_bind (buf_copy_from_slice p new_stack_bot_idx xs) (\<lambda>p.
     res_bind (buf_copy_from_slice p 0 (replicate new_stack_bot_idx 0)) (\<lambda>p.
     Inr (p\<lparr>stack_bot_idx := new_stack_bot_idx, stack_top_idx := new_stack_top_idx\<rparr>)))))))"

definition decrement_stack_size :: "'m fast_processor \<Rightarrow> 'm fast_processor res" where
  "decrement_stack_size p =
     res_bind (if stack_top_idx p = MIN_STACK_DEPTH then reset_stack_in_buffer p INITIAL_STACK_TOP_IDX
               else Inr p) (\<lambda>p.
     res_bind (usize_sub (stack_top_idx p) 1) (\<lambda>new_top.
     res_bind (usize_sub new_top MIN_STACK_DEPTH) (\<lambda>new_bot.
     Inr (p\<lparr>stack_top_idx := new_top, stack_bot_idx := min (stack_bot_idx p) new_bot\<rparr>))))"

section \<open>Execution contexts\<close>

definition fp_save_context_and_truncate_stack :: "'m fast_processor \<Rightarrow> 'm fast_processor res" where
  "fp_save_context_and_truncate_stack p =
     res_bind (stack_size p) (\<lambda>n.
     res_bind (usize_sub (stack_top_idx p) MIN_STACK_DEPTH) (\<lambda>new_bot.
     res_bind (if n > MIN_STACK_DEPTH
               then res_bind (buf_slice p (stack_bot_idx p) new_bot) (\<lambda>ov.
                    res_bind (buf_copy_from_slice p (stack_bot_idx p) (replicate (length ov) 0)) (\<lambda>p.
                    Inr (ov, p)))
               else Inr ([], p)) (\<lambda>(ov, p).
     Inr (p\<lparr>stack_bot_idx := new_bot,
            call_stack := \<lparr>overflow_stack = ov, ci_ctx = fp_ctx p, fn_hash = fp_caller_hash p\<rparr> # call_stack p\<rparr>))))"

definition restore_overflow_stack ::
    "'m fast_processor \<Rightarrow> execution_context_info \<Rightarrow> 'm fast_processor res" where
  "restore_overflow_stack p ctx_info =
     (let target_overflow_len = length (overflow_stack ctx_info) in
      res_bind (if target_overflow_len > stack_bot_idx p
                then reset_stack_in_buffer p
                       (min (INITIAL_STACK_TOP_IDX + target_overflow_len) (STACK_BUFFER_SIZE - 1))
                else Inr p) (\<lambda>p.
      res_bind (usize_sub (stack_bot_idx p) target_overflow_len) (\<lambda>new_bot.
      res_bind (buf_copy_from_slice p new_bot (overflow_stack ctx_info)) (\<lambda>p.
      Inr (p\<lparr>stack_bot_idx := new_bot\<rparr>)))))"

definition fp_restore_context :: "'m fast_processor \<Rightarrow> 'm fast_processor res" where
  "fp_restore_context p =
     res_bind (stack_size p) (\<lambda>n.
     if n > MIN_STACK_DEPTH then Inl (OperationErr (InvalidStackDepthOnReturn n))
     else case call_stack p of
        [] \<Rightarrow> Inl (Panic ''call stack is empty'')
      | ctx_info # rest \<Rightarrow>
          res_bind (restore_overflow_stack (p\<lparr>call_stack := rest\<rparr>) ctx_info) (\<lambda>p.
          Inr (p\<lparr>fp_ctx := ci_ctx ctx_info, fp_caller_hash := fn_hash ctx_info\<rparr>)))"

section \<open>Construction\<close>

definition new_with_options ::
    "felt list \<Rightarrow> 'm advice_inputs \<Rightarrow> execution_options \<Rightarrow> 'm fast_processor" where
  "new_with_options stack_inputs advice_inputs options =
     \<lparr>fp_stack = fold (\<lambda>(i, input) st. st(INITIAL_STACK_TOP_IDX - 1 - i := input))
                   (zip [0..<length stack_inputs] stack_inputs) (\<lambda>_. 0),
      stack_top_idx = INITIAL_STACK_TOP_IDX,
      stack_bot_idx = INITIAL_STACK_TOP_IDX - MIN_STACK_DEPTH,
      fp_clk = 0, fp_ctx = 0, fp_caller_hash = EMPTY_WORD,
      fp_advice = advice_from_inputs advice_inputs,
      fp_memory = memory_new, call_stack = [], fp_options = options,
      pc_transcript = EMPTY_WORD\<rparr>"

section \<open>The trait implementations\<close>

text \<open>The \<open>impl\<close> blocks of \<open>fast/operation.rs\<close>, \<open>fast/memory.rs\<close> and \<open>host/advice/mod.rs\<close>: the memory and
  advice interfaces act on the components of the processor.\<close>

definition fp_verify_merkle_root ::
    "('m, 'q) crypto_lib \<Rightarrow> 'm fast_processor \<Rightarrow> fword \<Rightarrow> fword \<Rightarrow> 'q option \<Rightarrow> felt \<Rightarrow> operation_error \<Rightarrow>
     'm fast_processor res" where
  "fp_verify_merkle_root X p claimed_root v path index on_err =
     (case path of
        None \<Rightarrow> Inl (Panic ''fast processor expects a valid Merkle path'')
      | Some path \<Rightarrow>
          if path_verify X path (as_canonical_u64 index) v claimed_root then Inr p
          else Inl (OperationErr on_err))"

definition fp_update_merkle_root ::
    "('m, 'q) crypto_lib \<Rightarrow> 'm fast_processor \<Rightarrow> fword \<Rightarrow> fword \<Rightarrow> fword \<Rightarrow> 'q option \<Rightarrow> felt \<Rightarrow> operation_error \<Rightarrow>
     (fword \<times> 'm fast_processor) res" where
  "fp_update_merkle_root X p claimed_old_root old_value new_value path index on_err =
     (case path of
        None \<Rightarrow> Inl (Panic ''fast processor expects a valid Merkle path'')
      | Some path \<Rightarrow>
          if \<not> path_verify X path (as_canonical_u64 index) old_value claimed_old_root
          then Inl (OperationErr on_err)
          else res_bind (res_map_err (\<lambda>_. OperationErr on_err)
                 (path_compute_root X path (as_canonical_u64 index) new_value)) (\<lambda>new_root.
               Inr (new_root, p)))"

definition with_memory :: "'m fast_processor \<Rightarrow> memory_error + memory \<Rightarrow> memory_error + 'm fast_processor" where
  "with_memory p r = res_map (\<lambda>m. p\<lparr>fp_memory := m\<rparr>) r"

definition with_advice ::
    "'m fast_processor \<Rightarrow> advice_error + 'a \<times> 'm advice_provider \<Rightarrow> advice_error + 'a \<times> 'm fast_processor" where
  "with_advice p r = res_map (\<lambda>(x, a). (x, p\<lparr>fp_advice := a\<rparr>)) r"

definition fast_processor_impl :: "('m, 'q) crypto_lib \<Rightarrow> ('m fast_processor, 'q) processor" where
  "fast_processor_impl X = \<lparr>
     caller_hash = fp_caller_hash,
     clock = fp_clk,
     ctx = fp_ctx,
     set_caller_hash = (\<lambda>p w. p\<lparr>fp_caller_hash := w\<rparr>),
     set_ctx = (\<lambda>p c. p\<lparr>fp_ctx := c\<rparr>),
     increment_clock = (\<lambda>p. p\<lparr>fp_clk := fp_clk p + 1\<rparr>),
     get = stack_get,
     get_word = stack_get_word,
     depth = stack_depth,
     set_at = stack_write,
     set_word = stack_write_word,
     swap = stack_swap,
     swapw_nth = fp_swapw_nth,
     rotate_left = fp_rotate_left,
     rotate_right = fp_rotate_right,
     increment_size = fp_increment_size,
     decrement_size = decrement_stack_size,
     read_element = (\<lambda>p c a. res_map (\<lambda>x. (x, p)) (mem_read_element (fp_memory p) c a)),
     read_word = (\<lambda>p c a clk. res_map (\<lambda>x. (x, p)) (mem_read_word (fp_memory p) c a)),
     write_element = (\<lambda>p c a x. with_memory p (mem_write_element (fp_memory p) c a x)),
     write_word = (\<lambda>p c a clk w. with_memory p (mem_write_word (fp_memory p) c a w)),
     pop_stack = (\<lambda>p. with_advice p (adv_pop_stack (fp_advice p))),
     pop_stack_word = (\<lambda>p. with_advice p (adv_pop_stack_word (fp_advice p))),
     pop_stack_dword = (\<lambda>p. with_advice p (adv_pop_stack_dword (fp_advice p))),
     get_merkle_path = (\<lambda>p r d i. res_map Some (adv_get_merkle_path X (fp_advice p) r d i)),
     update_merkle_node = (\<lambda>p r d i w.
       with_advice p (res_map (\<lambda>((path, _), a). (Some path, a)) (adv_update_merkle_node X (fp_advice p) r d i w))),
     permute = (\<lambda>p h. Inr (apply_permutation X h, p)),
     verify_merkle_root = fp_verify_merkle_root X,
     update_merkle_root = fp_update_merkle_root X,
     save_context_and_truncate_stack = fp_save_context_and_truncate_stack,
     restore_context = fp_restore_context,
     precompile_transcript_state = pc_transcript,
     set_precompile_transcript_state = (\<lambda>p w. p\<lparr>pc_transcript := w\<rparr>)\<rparr>"

section \<open>The buffer invariant and the abstract state\<close>

definition fp_good :: "'m fast_processor \<Rightarrow> bool" where
  "fp_good p \<longleftrightarrow> stack_bot_idx p + 16 \<le> stack_top_idx p \<and> stack_top_idx p \<le> 6849 \<and>
     (\<forall>j < stack_bot_idx p. fp_stack p j = 0) \<and>
     (\<forall>fr \<in> set (call_stack p). length (overflow_stack fr) \<le> 6833)"

definition buf_view :: "(nat \<Rightarrow> felt) \<Rightarrow> nat \<Rightarrow> felt stream" where
  "buf_view st n = to_stream (\<lambda>i. if i < n then st (n - 1 - i) else 0)"

definition frame_view :: "execution_context_info \<Rightarrow> frame" where
  "frame_view fr = \<lparr>fr_rest = rev (overflow_stack fr) @- zeros, fr_count = length (overflow_stack fr),
     fr_ctx = ci_ctx fr, fr_hash = fn_hash fr\<rparr>"

definition fp_view :: "'m fast_processor \<Rightarrow> 'm vm" where
  "fp_view p = \<lparr>v_stack = buf_view (fp_stack p) (stack_top_idx p),
     v_depth = stack_top_idx p - stack_bot_idx p, v_clk = fp_clk p, v_ctx = fp_ctx p,
     v_caller = fp_caller_hash p, v_mem = fp_memory p, v_adv = fp_advice p,
     v_calls = map frame_view (call_stack p), v_transcript = pc_transcript p, v_options = fp_options p\<rparr>"

lemma fp_view_simps [simp]:
  "v_stack (fp_view p) = buf_view (fp_stack p) (stack_top_idx p)"
  "v_depth (fp_view p) = stack_top_idx p - stack_bot_idx p"
  "v_clk (fp_view p) = fp_clk p" "v_ctx (fp_view p) = fp_ctx p"
  "v_caller (fp_view p) = fp_caller_hash p" "v_mem (fp_view p) = fp_memory p"
  "v_adv (fp_view p) = fp_advice p" "v_calls (fp_view p) = map frame_view (call_stack p)"
  "v_transcript (fp_view p) = pc_transcript p" "v_options (fp_view p) = fp_options p"
  by (simp_all add: fp_view_def)

lemma snth_buf_view [simp]: "buf_view st n !! i = (if i < n then st (n - 1 - i) else 0)"
  by (simp add: buf_view_def)

lemma stl_buf_view: "stl (buf_view st (Suc n)) = buf_view st n"
  by (rule stream_eqI) (simp add: snth.simps(2) [symmetric] del: snth.simps)

lemma shd_buf_view: "shd (buf_view st (Suc n)) = st n"
  using snth_buf_view [of st "Suc n" 0] by simp

lemma buf_view_Suc: "buf_view st (Suc n) = st n ## buf_view st n"
  by (metis shd_buf_view stl_buf_view stream.collapse)

lemmas buf_consts [simp] = STACK_BUFFER_SIZE_def INITIAL_STACK_TOP_IDX_def MIN_STACK_DEPTH_def WORD_SIZE_def

text \<open>A change of the buffer that keeps the indices is a change of the visible stack.\<close>

lemma fp_update_stack:
  assumes "fp_good p" "\<And>j. j < stack_bot_idx p \<Longrightarrow> st j = 0"
    and "buf_view st (stack_top_idx p) = s"
  shows "yields fp_good fp_view (Inr (p\<lparr>fp_stack := st\<rparr>)) ((fp_view p)\<lparr>v_stack := s\<rparr>)"
  using assms by (auto simp: yields_def fp_good_def fp_view_def)

lemma buf_view_upd:
  assumes "i < n"
  shows "buf_view (st(n - Suc i := x)) n = supd i x (buf_view st n)"
  by (rule stream_eqI) (use assms in auto)

lemma stack_get_eq: "fp_good p \<Longrightarrow> i < 16 \<Longrightarrow> stack_get p i = Inr (fp_stack p (stack_top_idx p - 1 - i))"
  by (auto simp: stack_get_def buf_get_def fp_good_def diff_diff_eq add.commute)

lemma stack_write_eq:
  "fp_good p \<Longrightarrow> i < 16 \<Longrightarrow>
     stack_write p i x = Inr (p\<lparr>fp_stack := (fp_stack p)(stack_top_idx p - 1 - i := x)\<rparr>)"
  by (auto simp: stack_write_def buf_set_def fp_good_def diff_diff_eq add.commute)

lemma stack_write_yields:
  assumes "fp_good p" "i < 16"
  shows "yields fp_good fp_view (stack_write p i x) (vset i x (fp_view p))"
proof -
  have b: "stack_bot_idx p + 16 \<le> stack_top_idx p" "\<And>j. j < stack_bot_idx p \<Longrightarrow> fp_stack p j = 0"
    using assms(1) by (auto simp: fp_good_def)
  show ?thesis
    unfolding stack_write_eq [OF assms] vset_def
    by (rule fp_update_stack) (use assms b in \<open>auto simp: buf_view_upd\<close>)
qed

lemma stack_depth_eq: "fp_good p \<Longrightarrow> stack_depth p = Inr (of_nat (stack_top_idx p - stack_bot_idx p))"
  by (auto simp: stack_depth_def fp_good_def)

lemma stack_depth_unat:
  assumes "fp_good p"
  obtains d where "stack_depth p = Inr d" "unat d = stack_top_idx p - stack_bot_idx p"
proof
  show "stack_depth p = Inr (of_nat (stack_top_idx p - stack_bot_idx p))"
    by (rule stack_depth_eq [OF assms])
  show "unat (of_nat (stack_top_idx p - stack_bot_idx p) :: u32) = stack_top_idx p - stack_bot_idx p"
    unfolding unat_of_nat by (rule mod_less) (use assms in \<open>auto simp: fp_good_def\<close>)
qed

lemma upt_4: "[i..<i + 4] = [i, i + 1, i + 2, i + 3]"
  by (simp add: upt_rec)

lemma stack_get_word_eq:
  assumes "fp_good p" "i \<le> 12"
  shows "stack_get_word p i = Inr (stack_word (buf_view (fp_stack p) (stack_top_idx p)) i)"
proof -
  have t: "stack_bot_idx p + 16 \<le> stack_top_idx p" "stack_top_idx p \<le> 6849"
    using assms(1) by (auto simp: fp_good_def)
  define b where "b = stack_top_idx p - i - 4"
  have b: "stack_top_idx p = b + 4 + i" using t assms(2) by (simp add: b_def)
  obtain d where d: "stack_depth p = Inr d" "unat d = stack_top_idx p - stack_bot_idx p"
    using stack_depth_unat [OF assms(1)] .
  have "i + 4 \<le> unat d" using d(2) t(1) assms(2) by linarith
  then show ?thesis
    using t(2) assms(2) d(1)
    by (simp add: stack_get_word_def buf_slice_def word_from_slice_def stack_word_def b upt_4
        add.commute del: upt_Suc snth.simps(2))
qed

lemma vset_word_stack:
  "vset_word i w \<sigma> = \<sigma>\<lparr>v_stack := supd i (w0 w) (supd (i + 1) (w1 w) (supd (i + 2) (w2 w) (supd (i + 3) (w3 w) (v_stack \<sigma>))))\<rparr>"
  by (simp add: vset_word_def vset_def)

lemma stack_write_word_yields:
  assumes "fp_good p" "i \<le> 12"
  shows "yields fp_good fp_view (stack_write_word p i w) (vset_word i w (fp_view p))"
proof -
  have t: "stack_bot_idx p + 16 \<le> stack_top_idx p" "stack_top_idx p \<le> 6849"
    "\<And>j. j < stack_bot_idx p \<Longrightarrow> fp_stack p j = 0"
    using assms(1) by (auto simp: fp_good_def)
  define b where "b = stack_top_idx p - i - 4"
  have b: "stack_top_idx p = b + i + 4" "stack_bot_idx p \<le> b" "b + 4 \<le> 6850"
    using t assms(2) by (auto simp: b_def)
  have eq: "stack_write_word p i w = Inr (p\<lparr>fp_stack :=
      (\<lambda>j. if b \<le> j \<and> j < b + 4 then rev (word_elements w) ! (j - b) else fp_stack p j)\<rparr>)"
    using assms(2) b by (simp add: stack_write_word_def buf_copy_from_slice_def)
  show ?thesis
    unfolding eq vset_word_stack
  proof (rule fp_update_stack [OF assms(1)])
    show "buf_view (\<lambda>j. if b \<le> j \<and> j < b + 4 then rev (word_elements w) ! (j - b) else fp_stack p j) (stack_top_idx p) =
        supd i (w0 w) (supd (i + 1) (w1 w) (supd (i + 2) (w2 w) (supd (i + 3) (w3 w) (v_stack (fp_view p)))))"
    proof (rule stream_eqI)
      fix k
      consider "k = i" | "k = i + 1" | "k = i + 2" | "k = i + 3" | "k < i" | "i + 3 < k" by linarith
      then show "buf_view (\<lambda>j. if b \<le> j \<and> j < b + 4 then rev (word_elements w) ! (j - b) else fp_stack p j) (stack_top_idx p) !! k =
        supd i (w0 w) (supd (i + 1) (w1 w) (supd (i + 2) (w2 w) (supd (i + 3) (w3 w) (v_stack (fp_view p))))) !! k"
        by cases (auto simp: b word_elements_def simp del: snth.simps(2) supd.simps(2))
    qed
  qed (use b t in auto)
qed

lemma stack_swap_yields:
  assumes "fp_good p" "i < 16" "j < 16"
  shows "yields fp_good fp_view (stack_swap p i j)
     (vset j (v_stack (fp_view p) !! i) (vset i (v_stack (fp_view p) !! j) (fp_view p)))"
proof -
  have t: "16 \<le> stack_top_idx p" using assms(1) by (auto simp: fp_good_def)
  obtain q where q: "stack_write p i (fp_stack p (stack_top_idx p - 1 - j)) = Inr q" "fp_good q"
    "fp_view q = vset i (fp_stack p (stack_top_idx p - 1 - j)) (fp_view p)"
    using stack_write_yields [OF assms(1,2)] by (auto simp: yields_def)
  show ?thesis
    using stack_write_yields [OF q(2) assms(3)] t assms q(1,3)
    by (simp add: stack_swap_def stack_get_eq)
qed

lemma fp_stack_cong: "(\<And>j. f j = g j) \<Longrightarrow> p\<lparr>fp_stack := f\<rparr> = p\<lparr>fp_stack := g\<rparr>"
  by (metis ext)

lemma fp_stack_id: "(\<And>j. f j = fp_stack p j) \<Longrightarrow> p = p\<lparr>fp_stack := f\<rparr>"
  using fp_stack_cong [of f "fp_stack p" p] by simp

lemma buf_copy_eq:
  "i + length xs \<le> 6850 \<Longrightarrow> buf_copy_from_slice p i xs =
     Inr (p\<lparr>fp_stack := (\<lambda>j. if i \<le> j \<and> j < i + length xs then xs ! (j - i) else fp_stack p j)\<rparr>)"
  by (simp add: buf_copy_from_slice_def)

lemma swapw_nth_yields:
  assumes "fp_good p" "1 \<le> n" "n \<le> 3"
  shows "yields fp_good fp_view (fp_swapw_nth p n)
           ((fp_view p)\<lparr>v_stack := swap_words n (v_stack (fp_view p))\<rparr>)"
proof -
  have t: "stack_bot_idx p + 16 \<le> stack_top_idx p" "stack_top_idx p \<le> 6849"
    "\<And>j. j < stack_bot_idx p \<Longrightarrow> fp_stack p j = 0"
    using assms(1) by (auto simp: fp_good_def)
  define a where "a = stack_top_idx p - 4"
  define b where "b = a - 4 * n"
  have ab: "stack_top_idx p = a + 4" "a = b + 4 * n" "stack_bot_idx p \<le> b"
    using t assms by (auto simp: a_def b_def)
  define st where "st = (\<lambda>j. if a \<le> j \<and> j < a + 4 then fp_stack p (j - 4 * n)
      else if b \<le> j \<and> j < b + 4 then fp_stack p (j + 4 * n) else fp_stack p j)"
  have eq: "fp_swapw_nth p n = Inr (p\<lparr>fp_stack := st\<rparr>)"
    using t ab assms(2)
    by (simp add: fp_swapw_nth_def buf_slice_def buf_copy_eq mult.commute)
       (rule fp_stack_cong, auto simp: st_def intro!: arg_cong [of _ _ "fp_stack p"])
  show ?thesis
    unfolding eq
  proof (rule fp_update_stack [OF assms(1)])
    show "buf_view st (stack_top_idx p) = swap_words n (v_stack (fp_view p))"
    proof (rule stream_eqI)
      fix i
      consider "i < 4" | "4 \<le> i" "i < 4 * n" | "4 * n \<le> i" "i < 4 * n + 4" | "4 * n + 4 \<le> i"
        by linarith
      then show "buf_view st (stack_top_idx p) !! i = swap_words n (v_stack (fp_view p)) !! i"
        using ab(1,2) assms(2) by cases (auto simp: swap_words_def st_def intro!: arg_cong [of _ _ "fp_stack p"])
    qed
  qed (use ab t in \<open>auto simp: st_def\<close>)
qed

lemma shift_down_loop:
  "b + k < 6850 \<Longrightarrow>
   res_fold (\<lambda>i p. res_bind (buf_get p (Suc (b + i))) (buf_set p (b + i))) [0..<k] p =
     Inr (p\<lparr>fp_stack := (\<lambda>j. if b \<le> j \<and> j < b + k then fp_stack p (j + 1) else fp_stack p j)\<rparr>)"
proof (induction k)
  case (Suc k)
  then show ?case
    by (simp add: res_fold_append buf_get_def buf_set_def)
       (rule fp_stack_cong, auto simp: less_Suc_eq)
qed (simp, rule fp_stack_id, auto)

lemma shift_up_loop:
  "k < n \<Longrightarrow> n \<le> stack_top_idx p \<Longrightarrow> stack_top_idx p \<le> 6850 \<Longrightarrow>
   res_fold (\<lambda>i p. res_bind (usize_sub (stack_top_idx p) i) (\<lambda>dst.
                   res_bind (usize_sub dst 1) (\<lambda>src.
                   res_bind (buf_get p src) (buf_set p dst)))) [1..<Suc k] p =
     Inr (p\<lparr>fp_stack := (\<lambda>j. if stack_top_idx p - k \<le> j \<and> j < stack_top_idx p
                            then fp_stack p (j - 1) else fp_stack p j)\<rparr>)"
proof (induction k)
  case 0
  then show ?case by (simp, intro fp_stack_id) auto
next
  case (Suc k)
  obtain e where e: "stack_top_idx p = Suc (Suc k) + e"
    using Suc.prems by (metis Suc_leI le_add_diff_inverse le_trans)
  have "[1..<Suc (Suc k)] = [1..<Suc k] @ [Suc k]" by simp
  then show ?case
    using Suc.IH Suc.prems e
    by (simp only: res_fold_append) (simp add: buf_get_def [of "p\<lparr>fp_stack := _\<rparr>"] buf_set_def [of "p\<lparr>fp_stack := _\<rparr>"]
       del: upt_Suc, rule fp_stack_cong, auto simp: less_Suc_eq)
qed

lemma rotate_left_yields:
  assumes "fp_good p" "1 \<le> n" "n \<le> 16"
  shows "yields fp_good fp_view (fp_rotate_left p n)
           ((fp_view p)\<lparr>v_stack := rotl n (v_stack (fp_view p))\<rparr>)"
proof -
  have t: "stack_bot_idx p + 16 \<le> stack_top_idx p" "stack_top_idx p \<le> 6849"
    "\<And>j. j < stack_bot_idx p \<Longrightarrow> fp_stack p j = 0"
    using assms(1) by (auto simp: fp_good_def)
  obtain k where k: "n = Suc k" using assms(2) by (cases n) auto
  define b where "b = stack_top_idx p - n"
  have b: "stack_top_idx p = b + n" "stack_bot_idx p \<le> b" using t assms by (auto simp: b_def)
  define st where "st = (\<lambda>j. if j = b + n - 1 then fp_stack p b
      else if b \<le> j \<and> j < b + n then fp_stack p (j + 1) else fp_stack p j)"
  have eq: "fp_rotate_left p n = Inr (p\<lparr>fp_stack := st\<rparr>)"
    using t b assms(3) k
    by (simp add: fp_rotate_left_def buf_get_def [of p] shift_down_loop stack_write_def buf_set_def)
       (rule fp_stack_cong, auto simp: st_def)
  show ?thesis
    unfolding eq
  proof (rule fp_update_stack [OF assms(1)])
    show "buf_view st (stack_top_idx p) = rotl n (v_stack (fp_view p))"
      by (rule stream_eqI) (use b assms(2) in \<open>auto simp: snth_rotl st_def simp del: snth.simps
          intro!: arg_cong [of _ _ "fp_stack p"]\<close>)
  qed (use b t assms in \<open>auto simp: st_def\<close>)
qed

lemma rotate_right_yields:
  assumes "fp_good p" "1 \<le> n" "n \<le> 16"
  shows "yields fp_good fp_view (fp_rotate_right p n)
           ((fp_view p)\<lparr>v_stack := rotr n (v_stack (fp_view p))\<rparr>)"
proof -
  have t: "stack_bot_idx p + 16 \<le> stack_top_idx p" "stack_top_idx p \<le> 6849"
    "\<And>j. j < stack_bot_idx p \<Longrightarrow> fp_stack p j = 0"
    using assms(1) by (auto simp: fp_good_def)
  obtain k where k: "n = Suc k" using assms(2) by (cases n) auto
  define b where "b = stack_top_idx p - n"
  have b: "stack_top_idx p = b + n" "stack_bot_idx p \<le> b" using t assms by (auto simp: b_def)
  define st where "st = (\<lambda>j. if j = b then fp_stack p (b + n - 1)
      else if b \<le> j \<and> j < b + n then fp_stack p (j - 1) else fp_stack p j)"
  have eq: "fp_rotate_right p n = Inr (p\<lparr>fp_stack := st\<rparr>)"
    using t b assms(3) k shift_up_loop [of k n p]
    by (simp add: fp_rotate_right_def buf_get_def [of p] buf_set_def del: upt_Suc)
       (rule fp_stack_cong, auto simp: st_def)
  show ?thesis
    unfolding eq
  proof (rule fp_update_stack [OF assms(1)])
    show "buf_view st (stack_top_idx p) = rotr n (v_stack (fp_view p))"
      by (rule stream_eqI) (use b assms(2) in \<open>auto simp: snth_rotr st_def simp del: snth.simps
          intro!: arg_cong [of _ _ "fp_stack p"]\<close>)
  qed (use b t assms in \<open>auto simp: st_def\<close>)
qed

lemma increment_size_cases:
  assumes "fp_good p"
  shows "fp_increment_size p = Inl stack_overflow \<or>
         (\<exists>g. yields fp_good fp_view (fp_increment_size p) (vpush g (fp_view p)))"
proof (cases "stack_top_idx p < 6849")
  case True
  with assms show ?thesis
    by (intro disjI2 exI [of _ "fp_stack p (stack_top_idx p)"])
       (auto simp: fp_increment_size_def increment_stack_size_def yields_def fp_good_def vpush_def fp_view_def buf_view_Suc)
qed (simp add: fp_increment_size_def)

lemma reset_stack_yields:
  assumes "fp_good p" "stack_top_idx p = stack_bot_idx p + 16" "16 \<le> t" "t \<le> 6849"
  obtains q where "reset_stack_in_buffer p t = Inr q" "fp_good q" "fp_view q = fp_view p"
    "stack_top_idx q = t" "stack_bot_idx q = t - 16" "call_stack q = call_stack p"
proof -
  have z: "\<And>j. j < stack_bot_idx p \<Longrightarrow> fp_stack p j = 0" "stack_top_idx p \<le> 6849"
    using assms(1) by (auto simp: fp_good_def)
  define b where "b = t - 16"
  have b: "t = b + 16" using assms(3) by (simp add: b_def)
  define q where "q = p\<lparr>fp_stack := (\<lambda>j. if j < b then 0 else if j < b + 16
      then fp_stack p (stack_bot_idx p + (j - b)) else fp_stack p j), stack_bot_idx := b, stack_top_idx := t\<rparr>"
  have d: "stack_depth p = Inr 16" using stack_depth_eq [OF assms(1)] assms(2) by simp
  have "reset_stack_in_buffer p t = Inr q"
    using assms(2,4) z(2)
    by (simp add: reset_stack_in_buffer_def d buf_slice_def buf_copy_eq b q_def)
       (rule arg_cong [of _ _ "\<lambda>f. p\<lparr>fp_stack := f, stack_bot_idx := b, stack_top_idx := b + 16\<rparr>"], auto)
  moreover have "fp_good q" using assms(1,4) b by (auto simp: fp_good_def q_def)
  moreover have "buf_view (fp_stack q) t = buf_view (fp_stack p) (stack_top_idx p)"
  proof (rule stream_eqI)
    fix i
    show "buf_view (fp_stack q) t !! i = buf_view (fp_stack p) (stack_top_idx p) !! i"
      using assms(2) z by (auto simp: q_def b simp del: snth.simps intro!: arg_cong [of _ _ "fp_stack p"])
  qed
  then have "fp_view q = fp_view p"
    using assms(2) b by (auto simp: fp_view_def q_def)
  moreover have "stack_top_idx q = t" "stack_bot_idx q = t - 16" "call_stack q = call_stack p"
    by (simp_all add: q_def b)
  ultimately show thesis by (rule that)
qed

lemma decrement_yields_no_reset:
  assumes "fp_good p" "16 < stack_top_idx p"
  shows "yields fp_good fp_view
     (Inr (p\<lparr>stack_top_idx := stack_top_idx p - 1,
             stack_bot_idx := min (stack_bot_idx p) (stack_top_idx p - 1 - 16)\<rparr>)) (vpop (fp_view p))"
proof -
  obtain n where n: "stack_top_idx p = Suc n" using assms(2) by (cases "stack_top_idx p") auto
  have "Suc n - min (stack_bot_idx p) (n - 16) = (if stack_bot_idx p + 16 \<le> n then Suc n - stack_bot_idx p else 17)"
    using assms n by (auto simp: min_def)
  with assms n show ?thesis
    by (auto simp: yields_def fp_good_def vpop_def fp_view_def stl_buf_view min_def max_def)
qed

lemma decrement_size_yields:
  assumes "fp_good p"
  shows "yields fp_good fp_view (decrement_stack_size p) (vpop (fp_view p))"
proof (cases "stack_top_idx p = 16")
  case True
  have "stack_top_idx p = stack_bot_idx p + 16" using assms True by (auto simp: fp_good_def)
  from reset_stack_yields [OF assms this, of 250] obtain q where
    q: "reset_stack_in_buffer p 250 = Inr q" "fp_good q" "fp_view q = fp_view p" "stack_top_idx q = 250" by auto
  show ?thesis
    using decrement_yields_no_reset [OF q(2)] True q by (simp add: decrement_stack_size_def)
next
  case False
  then have "16 < stack_top_idx p" using assms by (auto simp: fp_good_def)
  with decrement_yields_no_reset [OF assms this] show ?thesis by (simp add: decrement_stack_size_def)
qed

lemma buf_view_split:
  assumes "16 \<le> n"
  shows "stake 16 (buf_view st n) @- buf_view st (n - 16) = buf_view st n"
  by (rule stream_eqI) (use assms in \<open>auto simp: snth_shift simp del: snth.simps stake.simps\<close>)

lemma save_context_yields:
  assumes "fp_good p"
  shows "yields fp_good fp_view (fp_save_context_and_truncate_stack p) (vsave (fp_view p))"
proof -
  have t: "stack_bot_idx p + 16 \<le> stack_top_idx p" "stack_top_idx p \<le> 6849"
    and z: "\<And>j. j < stack_bot_idx p \<Longrightarrow> fp_stack p j = 0"
    using assms(1) by (auto simp: fp_good_def)
  define nb where "nb = stack_top_idx p - 16"
  have nb: "stack_top_idx p = nb + 16" "stack_bot_idx p \<le> nb" using t by (auto simp: nb_def)
  define ov where "ov = map (fp_stack p) [stack_bot_idx p..<nb]"
  define st where "st = (\<lambda>j. if stack_bot_idx p \<le> j \<and> j < nb then 0 else fp_stack p j)"
  define q where "q = p\<lparr>fp_stack := st, stack_bot_idx := nb,
    call_stack := \<lparr>overflow_stack = ov, ci_ctx = fp_ctx p, fn_hash = fp_caller_hash p\<rparr> # call_stack p\<rparr>"
  have id: "p = p\<lparr>fp_stack := st\<rparr>" if "stack_bot_idx p = nb"
    by (rule fp_stack_id) (use that in \<open>auto simp: st_def\<close>)
  have eq: "fp_save_context_and_truncate_stack p = Inr q"
  proof (cases "stack_bot_idx p = nb")
    case True
    then show ?thesis
      using nb id by (simp add: fp_save_context_and_truncate_stack_def stack_size_def q_def ov_def)
  next
    case False
    then show ?thesis
      using nb t by (simp add: fp_save_context_and_truncate_stack_def stack_size_def q_def ov_def
          buf_slice_def buf_copy_eq st_def)
        (intro impI arg_cong [of _ _ "\<lambda>f. p\<lparr>fp_stack := f, stack_bot_idx := nb, call_stack := _\<rparr>"] ext, auto)
  qed
  have s: "buf_view st (nb + 16) = stake 16 (buf_view (fp_stack p) (nb + 16)) @- zeros"
    by (rule stream_eqI) (use z in \<open>auto simp: snth_shift st_def simp del: snth.simps stake.simps\<close>)
  have r: "rev ov @- zeros = sdrop 16 (buf_view (fp_stack p) (nb + 16))"
    by (rule stream_eqI) (use z nb in \<open>auto simp: snth_shift ov_def sdrop_snth rev_nth simp del: snth.simps sdrop.simps\<close>)
  have "fp_good q" using assms nb t by (auto simp: fp_good_def q_def st_def ov_def)
  moreover have "fp_view q = vsave (fp_view p)"
    using nb s r by (simp add: fp_view_def q_def vsave_def frame_view_def ov_def [symmetric] del: stake.simps sdrop.simps)
      (simp add: ov_def)
  ultimately show ?thesis by (simp add: eq yields_def)
qed

lemma restore_overflow_yields:
  assumes "fp_good p" "stack_top_idx p = stack_bot_idx p + 16" "length (overflow_stack fr) \<le> 6833"
  shows "yields fp_good fp_view (restore_overflow_stack p fr)
     ((fp_view p)\<lparr>v_stack := stake 16 (v_stack (fp_view p)) @- rev (overflow_stack fr) @- zeros,
        v_depth := 16 + length (overflow_stack fr)\<rparr>)"
proof -
  define n where "n = length (overflow_stack fr)"
  obtain q where q: "(if n > stack_bot_idx p then reset_stack_in_buffer p (min (INITIAL_STACK_TOP_IDX + n) (STACK_BUFFER_SIZE - 1)) else Inr p) = Inr q"
    "fp_good q" "fp_view q = fp_view p" "n \<le> stack_bot_idx q" "stack_top_idx q = stack_bot_idx q + 16"
  proof (cases "n > stack_bot_idx p")
    case True
    have "16 \<le> min (250 + n) 6849" "min (250 + n) 6849 \<le> 6849" by auto
    from reset_stack_yields [OF assms(1,2) this] obtain q where
      "reset_stack_in_buffer p (min (250 + n) 6849) = Inr q" "fp_good q" "fp_view q = fp_view p"
      "stack_top_idx q = min (250 + n) 6849" "stack_bot_idx q = min (250 + n) 6849 - 16" by blast
    then show ?thesis using True assms(3) by (intro that [of q]) (auto simp: n_def)
  next
    case False
    then show ?thesis using assms(1,2) by (intro that [of p]) auto
  qed
  have z: "\<And>j. j < stack_bot_idx q \<Longrightarrow> fp_stack q j = 0" "stack_top_idx q \<le> 6849"
    using q(2) by (auto simp: fp_good_def)
  define b where "b = stack_bot_idx q - n"
  have b: "stack_bot_idx q = b + n" using q(4) by (simp add: b_def)
  define st where "st = (\<lambda>j. if b \<le> j \<and> j < b + n then overflow_stack fr ! (j - b) else fp_stack q j)"
  have eq: "restore_overflow_stack p fr = Inr (q\<lparr>fp_stack := st, stack_bot_idx := b\<rparr>)"
    using q(5) z(2) b unfolding restore_overflow_stack_def Let_def n_def [symmetric]
    by (simp add: q(1) buf_copy_eq st_def n_def [symmetric] split del: if_split)
  have v: "buf_view (fp_stack q) (b + n + 16) = buf_view (fp_stack p) (stack_top_idx p)"
    using q(3,5) b by (metis fp_view_simps(1))
  have "buf_view st (b + n + 16) = stake 16 (buf_view (fp_stack q) (b + n + 16)) @- rev (overflow_stack fr) @- zeros"
    by (rule stream_eqI)
       (use z(1) b in \<open>auto simp: snth_shift st_def n_def [symmetric] rev_nth not_less simp del: snth.simps stake.simps\<close>)
  moreover have "fp_good (q\<lparr>fp_stack := st, stack_bot_idx := b\<rparr>)"
    using q(2,5) b by (auto simp: fp_good_def st_def)
  moreover have "fp_view (q\<lparr>fp_stack := st, stack_bot_idx := b\<rparr>) =
      (fp_view q)\<lparr>v_stack := buf_view st (b + n + 16), v_depth := 16 + n\<rparr>"
    using q(5) b by (simp add: fp_view_def)
  ultimately show ?thesis
    using q(3) v by (simp add: eq yields_def n_def)
qed

lemma restore_context_sim:
  assumes "fp_good p"
  shows "sim_state fp_good fp_view (fp_restore_context p) (vrestore (fp_view p))"
proof -
  have t: "stack_bot_idx p + 16 \<le> stack_top_idx p" using assms by (auto simp: fp_good_def)
  consider "16 < stack_top_idx p - stack_bot_idx p"
    | "stack_top_idx p = stack_bot_idx p + 16" "call_stack p = []"
    | fr rest where "stack_top_idx p = stack_bot_idx p + 16" "call_stack p = fr # rest"
    using t by (cases "call_stack p") force+
  then show ?thesis
  proof cases
    case (3 fr rest)
    let ?p = "p\<lparr>call_stack := rest\<rparr>"
    have g: "fp_good ?p" "length (overflow_stack fr) \<le> 6833"
      using assms 3 by (auto simp: fp_good_def)
    from restore_overflow_yields [OF g(1) _ g(2)] 3(1) obtain q where
      q: "restore_overflow_stack ?p fr = Inr q" "fp_good q"
         "fp_view q = (fp_view ?p)\<lparr>v_stack := stake 16 (v_stack (fp_view ?p)) @- rev (overflow_stack fr) @- zeros,
            v_depth := 16 + length (overflow_stack fr)\<rparr>"
      by (auto simp: yields_def)
    have "fp_good (q\<lparr>fp_ctx := ci_ctx fr, fp_caller_hash := fn_hash fr\<rparr>)"
      using q(2) by (simp add: fp_good_def)
    moreover have "fp_view (q\<lparr>fp_ctx := ci_ctx fr, fp_caller_hash := fn_hash fr\<rparr>) =
        (fp_view q)\<lparr>v_ctx := ci_ctx fr, v_caller := fn_hash fr\<rparr>"
      by (simp add: fp_view_def)
    ultimately show ?thesis
      using 3 q(1,3) by (simp add: fp_restore_context_def stack_size_def sim_state_def vrestore_def frame_view_def fp_view_def
          del: stake.simps)
  qed (use t in \<open>auto simp: fp_restore_context_def stack_size_def sim_state_def vrestore_def\<close>)
qed

lemma fp_good_fields [simp]:
  "fp_good (p\<lparr>fp_caller_hash := w\<rparr>) = fp_good p" "fp_good (p\<lparr>fp_ctx := c\<rparr>) = fp_good p"
  "fp_good (p\<lparr>fp_clk := k\<rparr>) = fp_good p" "fp_good (p\<lparr>fp_memory := m\<rparr>) = fp_good p"
  "fp_good (p\<lparr>fp_advice := a\<rparr>) = fp_good p" "fp_good (p\<lparr>pc_transcript := w\<rparr>) = fp_good p"
  by (simp_all add: fp_good_def)

lemma fp_view_fields [simp]:
  "fp_view (p\<lparr>fp_caller_hash := w\<rparr>) = (fp_view p)\<lparr>v_caller := w\<rparr>"
  "fp_view (p\<lparr>fp_ctx := c\<rparr>) = (fp_view p)\<lparr>v_ctx := c\<rparr>"
  "fp_view (p\<lparr>fp_clk := k\<rparr>) = (fp_view p)\<lparr>v_clk := k\<rparr>"
  "fp_view (p\<lparr>fp_memory := m\<rparr>) = (fp_view p)\<lparr>v_mem := m\<rparr>"
  "fp_view (p\<lparr>fp_advice := a\<rparr>) = (fp_view p)\<lparr>v_adv := a\<rparr>"
  "fp_view (p\<lparr>pc_transcript := w\<rparr>) = (fp_view p)\<lparr>v_transcript := w\<rparr>"
  by (simp_all add: fp_view_def)

lemma sim_val_res_map:
  "(\<And>x. r = Inr x \<Longrightarrow> good (g x) \<and> view (g x) = h x) \<Longrightarrow>
   sim_val good view (res_map (\<lambda>x. (f x, g x)) r) (res_map (\<lambda>x. (f x, h x)) r)"
  by (cases r) (auto simp: sim_val_def)

lemma with_advice_sim:
  assumes "fp_good p"
  shows "sim_val fp_good fp_view (with_advice p r) (res_map (\<lambda>(x, a). (x, (fp_view p)\<lparr>v_adv := a\<rparr>)) r)"
  using assms by (cases r) (auto simp: with_advice_def sim_val_def)

lemma with_memory_sim:
  assumes "fp_good p"
  shows "sim_state fp_good fp_view (with_memory p r) (res_map (\<lambda>m. (fp_view p)\<lparr>v_mem := m\<rparr>) r)"
  using assms by (cases r) (auto simp: with_memory_def sim_state_def)

lemma update_merkle_node_sim:
  assumes "fp_good p"
  shows "sim_val fp_good fp_view (with_advice p (res_map (\<lambda>((path, _), a). (Some path, a)) r))
     (res_map (\<lambda>((q, _), a). (Some q, (fp_view p)\<lparr>v_adv := a\<rparr>)) r)"
  using assms by (cases r) (auto simp: with_advice_def sim_val_def)

lemma merkle_root_sims:
  assumes "fp_good p"
  shows "sim_state fp_good fp_view (fp_verify_merkle_root X p r w (Some q) i err)
           (res_map (\<lambda>_. fp_view p) (hash_verify X r w q i err))"
    and "sim_val fp_good fp_view (fp_update_merkle_root X p r w w' (Some q) i err)
           (res_map (\<lambda>x. (x, fp_view p)) (hash_update X r w w' q i err))"
  using assms
  by (auto simp: fp_verify_merkle_root_def fp_update_merkle_root_def hash_verify_def hash_update_def
      sim_state_def sim_val_def split: sum.splits)
     (cases "path_compute_root X q (as_canonical_u64 i) w'"; auto)+

lemma fp_stack_views:
  assumes "fp_good p"
  shows "i < 16 \<Longrightarrow> stack_get p i = Inr (v_stack (fp_view p) !! i)"
    and "i \<le> 12 \<Longrightarrow> stack_get_word p i = Inr (stack_word (v_stack (fp_view p)) i)"
    and "stack_depth p = Inr (of_nat (v_depth (fp_view p)))"
    and "16 \<le> v_depth (fp_view p)"
  using assms by (auto simp: stack_get_eq stack_get_word_eq stack_depth_eq fp_good_def simp del: snth.simps)

subsection \<open>\<open>FastProcessor\<close> satisfies the contracts\<close>

interpretation fp_system: system_laws "fast_processor_impl X" fp_good fp_view
  for X :: "('m, 'q) crypto_lib"
  by unfold_locales (simp_all add: fast_processor_impl_def)

interpretation fp_stack: stack_laws "fast_processor_impl X" fp_good fp_view
  for X :: "('m, 'q) crypto_lib"
  by unfold_locales
     (simp_all add: fast_processor_impl_def fp_stack_views stack_write_yields
       stack_write_word_yields stack_swap_yields swapw_nth_yields rotate_left_yields rotate_right_yields
       decrement_size_yields increment_size_cases del: snth.simps fp_view_simps One_nat_def)

interpretation fp_memory: memory_laws "fast_processor_impl X" fp_good fp_view
  for X :: "('m, 'q) crypto_lib"
  by unfold_locales
     (simp_all add: fast_processor_impl_def with_memory_sim sim_val_res_map)

interpretation fp_advice: advice_laws X "fast_processor_impl X" fp_good fp_view
  for X :: "('m, 'q) crypto_lib"
  by unfold_locales
     (simp_all add: fast_processor_impl_def with_advice_sim update_merkle_node_sim)

interpretation fp_hasher: hasher_laws X "fast_processor_impl X" fp_good fp_view
  for X :: "('m, 'q) crypto_lib"
  by unfold_locales
     (simp_all add: fast_processor_impl_def merkle_root_sims)

interpretation fp_context: context_laws "fast_processor_impl X" fp_good fp_view
  for X :: "('m, 'q) crypto_lib"
  by unfold_locales
     (simp_all add: fast_processor_impl_def save_context_yields restore_context_sim)

interpretation fp: processor_laws X "fast_processor_impl X" fp_good fp_view
  for X :: "('m, 'q) crypto_lib" ..

end
