(* ===== verification/System_Event.thy ===== *)
theory System_Event
  imports Vm_Errors
begin

text \<open>
  System events, \<open>core/src/events/sys_events.rs\<close>, and event identifiers, \<open>core/src/events/mod.rs\<close>: the
  enumeration, the lookup table of identifiers and names, and the searches in it.  A \<open>while\<close> loop over
  the table is a \<open>find\<close>.  The properties show that the table is consistent: an event is recovered from
  its identifier, as it appears on the operand stack, and from its name.
\<close>

section \<open>Model\<close>

datatype system_event =
    MerkleNodeMerge
  | MerkleNodeToStack
  | MapValueToStack
  | MapValueCountToStack
  | MapValueToStackN0
  | MapValueToStackN4
  | MapValueToStackN8
  | HasMapKey
  | Ext2Inv
  | U32Clz
  | U32Ctz
  | U32Clo
  | U32Cto
  | ILog2
  | MemToMap
  | HdwordToMap
  | HdwordToMapWithDomain
  | HqwordToMap
  | HpermToMap

text \<open>The discriminant of a variant, \<open>*self as usize\<close>.\<close>

primrec discriminant :: "system_event \<Rightarrow> nat" where
  "discriminant MerkleNodeMerge = 0"
| "discriminant MerkleNodeToStack = 1"
| "discriminant MapValueToStack = 2"
| "discriminant MapValueCountToStack = 3"
| "discriminant MapValueToStackN0 = 4"
| "discriminant MapValueToStackN4 = 5"
| "discriminant MapValueToStackN8 = 6"
| "discriminant HasMapKey = 7"
| "discriminant Ext2Inv = 8"
| "discriminant U32Clz = 9"
| "discriminant U32Ctz = 10"
| "discriminant U32Clo = 11"
| "discriminant U32Cto = 12"
| "discriminant ILog2 = 13"
| "discriminant MemToMap = 14"
| "discriminant HdwordToMap = 15"
| "discriminant HdwordToMapWithDomain = 16"
| "discriminant HqwordToMap = 17"
| "discriminant HpermToMap = 18"

definition all_system_events :: "system_event list" where
  "all_system_events =
     [MerkleNodeMerge,
      MerkleNodeToStack,
      MapValueToStack,
      MapValueCountToStack,
      MapValueToStackN0,
      MapValueToStackN4,
      MapValueToStackN8,
      HasMapKey,
      Ext2Inv,
      U32Clz,
      U32Ctz,
      U32Clo,
      U32Cto,
      ILog2,
      MemToMap,
      HdwordToMap,
      HdwordToMapWithDomain,
      HqwordToMap,
      HpermToMap]"

text \<open>\<open>EventId\<close> wraps a \<open>u64\<close>.\<close>

definition event_id_from_u64 :: "u64 \<Rightarrow> u64" where
  "event_id_from_u64 event_id = event_id mod 18446744069414584321"

definition event_id_from_felt :: "felt \<Rightarrow> u64" where
  "event_id_from_felt event_id = as_canonical_u64 event_id"

definition event_id_as_felt :: "u64 \<Rightarrow> felt" where
  "event_id_as_felt event_id = felt_from_u64 event_id"

record system_event_entry =
  entry_id :: u64
  entry_event :: system_event
  entry_name :: string

definition LOOKUP :: "system_event_entry list" where
  "LOOKUP =
     [\<lparr>entry_id = event_id_from_u64 7243907139105902342, entry_event = MerkleNodeMerge, entry_name = ''sys::merkle_node_merge''\<rparr>,
      \<lparr>entry_id = event_id_from_u64 6873007751276594108, entry_event = MerkleNodeToStack, entry_name = ''sys::merkle_node_to_stack''\<rparr>,
      \<lparr>entry_id = event_id_from_u64 17843484659000820118, entry_event = MapValueToStack, entry_name = ''sys::map_value_to_stack''\<rparr>,
      \<lparr>entry_id = event_id_from_u64 3470274154276391308, entry_event = MapValueCountToStack, entry_name = ''sys::map_value_count_to_stack''\<rparr>,
      \<lparr>entry_id = event_id_from_u64 11775886982554463322, entry_event = MapValueToStackN0, entry_name = ''sys::map_value_to_stack_n_0''\<rparr>,
      \<lparr>entry_id = event_id_from_u64 3443305460233942990, entry_event = MapValueToStackN4, entry_name = ''sys::map_value_to_stack_n_4''\<rparr>,
      \<lparr>entry_id = event_id_from_u64 1741586542981559489, entry_event = MapValueToStackN8, entry_name = ''sys::map_value_to_stack_n_8''\<rparr>,
      \<lparr>entry_id = event_id_from_u64 5642583036089175977, entry_event = HasMapKey, entry_name = ''sys::has_map_key''\<rparr>,
      \<lparr>entry_id = event_id_from_u64 9660728691489438960, entry_event = Ext2Inv, entry_name = ''sys::ext2_inv''\<rparr>,
      \<lparr>entry_id = event_id_from_u64 1503707361178382932, entry_event = U32Clz, entry_name = ''sys::u32_clz''\<rparr>,
      \<lparr>entry_id = event_id_from_u64 10656887096526143429, entry_event = U32Ctz, entry_name = ''sys::u32_ctz''\<rparr>,
      \<lparr>entry_id = event_id_from_u64 12846584985739176048, entry_event = U32Clo, entry_name = ''sys::u32_clo''\<rparr>,
      \<lparr>entry_id = event_id_from_u64 6773574803673468616, entry_event = U32Cto, entry_name = ''sys::u32_cto''\<rparr>,
      \<lparr>entry_id = event_id_from_u64 7444351342957461231, entry_event = ILog2, entry_name = ''sys::ilog2''\<rparr>,
      \<lparr>entry_id = event_id_from_u64 5768534446586058686, entry_event = MemToMap, entry_name = ''sys::mem_to_map''\<rparr>,
      \<lparr>entry_id = event_id_from_u64 5988159172915333521, entry_event = HdwordToMap, entry_name = ''sys::hdword_to_map''\<rparr>,
      \<lparr>entry_id = event_id_from_u64 6143777601072385586, entry_event = HdwordToMapWithDomain, entry_name = ''sys::hdword_to_map_with_domain''\<rparr>,
      \<lparr>entry_id = event_id_from_u64 11723176702659679401, entry_event = HqwordToMap, entry_name = ''sys::hqword_to_map''\<rparr>,
      \<lparr>entry_id = event_id_from_u64 6190830263511605775, entry_event = HpermToMap, entry_name = ''sys::hperm_to_map''\<rparr>]"

definition from_event_id :: "u64 \<Rightarrow> system_event option" where
  "from_event_id event_id = map_option entry_event (find (\<lambda>entry. entry_id entry = event_id) LOOKUP)"

definition from_name :: "string \<Rightarrow> system_event option" where
  "from_name name = map_option entry_event (find (\<lambda>entry. name = entry_name entry) LOOKUP)"

definition event_name :: "system_event \<Rightarrow> string" where
  "event_name e = entry_name (LOOKUP ! discriminant e)"

definition event_id :: "system_event \<Rightarrow> u64" where
  "event_id e = entry_id (LOOKUP ! discriminant e)"

section \<open>Properties\<close>

lemma uint_event_id_from_int:
  assumes "0 \<le> k" "k < 18446744069414584321"
  shows "uint (event_id_from_u64 (word_of_int k)) = k"
proof -
  from assms have "uint (word_of_int k :: u64) = k" by (simp add: uint_word_of_int)
  with assms show ?thesis by (simp add: event_id_from_u64_def uint_mod)
qed

lemma uint_event_id_from_u64:
  "(numeral k :: int) < 18446744069414584321 \<Longrightarrow> uint (event_id_from_u64 (numeral k)) = numeral k"
  using uint_event_id_from_int [of "numeral k"] by (simp only: word_of_int_numeral zero_le_numeral)

lemmas event_id_simps = event_id_def from_event_id_def LOOKUP_def word_uint_eq_iff uint_event_id_from_u64

text \<open>C32. The lookup table of the system events is consistent with the enumeration: the discriminant of an event is its position in the list of all events, the identifier of an event finds the event again, also after a round trip through a field element on the operand stack, and so does its name.\<close>

theorem system_event_roundtrip:
  "all_system_events ! discriminant e = e \<and>
   from_event_id (event_id_from_felt (event_id_as_felt (event_id e))) = Some e \<and>
   from_name (event_name e) = Some e"
proof (intro conjI)
  show "all_system_events ! discriminant e = e" by (cases e) (simp_all add: all_system_events_def)
  have "from_event_id (event_id e) = Some e" by (cases e) (simp_all add: event_id_simps)
  moreover have "uint (event_id e) < ORDER" by (cases e) (simp_all add: event_id_simps ORDER_def)
  ultimately show "from_event_id (event_id_from_felt (event_id_as_felt (event_id e))) = Some e"
    by (simp add: event_id_from_felt_def event_id_as_felt_def as_canonical_u64_from_u64)
  show "from_name (event_name e) = Some e"
    by (cases e) (simp_all add: from_name_def event_name_def LOOKUP_def)
qed

end
