(* ===== verification/Asm_Base.thy ===== *)
theory Asm_Base
  imports Execute_Op System_Event
begin

text \<open>
  Foundations of the instruction lowering of the assembler (\<open>assembly/src/instruction\<close>).  A lowering
  appends operations to a basic block; it is modelled by the list of the operations it appends, with
  an assembly error as the left injection.  \<open>run_stack\<close> executes a list of operations that only
  transform the operand stack, and the rules below compute it one operation at a time: they are the
  collection \<open>stack_rules\<close>, with operands of the 32-bit operations in the form \<open>felt_from_u32 w\<close>.
\<close>

unbundle bit_operations_syntax

named_theorems stack_rules "effect of single operations on the operand stack"

section \<open>Appending operations\<close>

datatype asm_error =
    DivisionByZero
  | ArgumentOutOfRange nat
  | NoLocals
  | TooFewLocals
  | LocalIndexOutOfBounds
  | LocalWordUnaligned
  | InvalidRange
  | EmptySlice
  | Unreachable

type_synonym lowered = "asm_error + operation list"

definition push_op_many :: "operation \<Rightarrow> nat \<Rightarrow> operation list" where
  "push_op_many op n = replicate n op"

definition push_system_event :: "system_event \<Rightarrow> operation list" where
  "push_system_event sys_event = [Push (event_id_as_felt (event_id sys_event)), Emit, Drop]"

definition push_value_ops :: "felt \<Rightarrow> operation list" where
  "push_value_ops value =
     (if value = 0 then [Pad]
      else if value = 1 then [Pad, Incr]
      else [Push value])"

definition push_felt :: "felt \<Rightarrow> operation list" where
  "push_felt value = push_value_ops value"

definition push_u32_value :: "u32 \<Rightarrow> operation list" where
  "push_u32_value value =
     (if value = 0 then [Pad]
      else if value = 1 then [Pad] @ [Incr]
      else [Push (felt_from_u32 value)])"

definition push_reversew :: "operation list" where
  "push_reversew = [MovDn3, Swap, MovUp2]"

definition MAX_U32_SHIFT_VALUE :: nat where
  "MAX_U32_SHIFT_VALUE = 31"

definition MAX_U32_ROTATE_VALUE :: nat where
  "MAX_U32_ROTATE_VALUE = 31"

definition MAX_EXP_BITS :: nat where
  "MAX_EXP_BITS = 64"

declare push_felt_def [lowering] and push_reversew_def [lowering]
  and MAX_U32_SHIFT_VALUE_def [lowering] and MAX_U32_ROTATE_VALUE_def [lowering] and MAX_EXP_BITS_def [lowering]

section \<open>Running operations on the operand stack\<close>

text \<open>\<open>None\<close> marks an operation that needs more than the operand stack.\<close>

primrec run_stack ::
    "(felt \<Rightarrow> string option) \<Rightarrow> operation list \<Rightarrow> felt stream \<Rightarrow> (operation_error + felt stream) option" where
  "run_stack resolve [] s = Some (Inr s)"
| "run_stack resolve (op # ops) s = (case stack_op resolve op of
      None \<Rightarrow> None
    | Some f \<Rightarrow> (case f s of Inl e \<Rightarrow> Some (Inl e) | Inr s' \<Rightarrow> run_stack resolve ops s'))"

lemma run_stack_append:
  "run_stack resolve ops s = Some (Inr s') \<Longrightarrow> run_stack resolve (ops @ ops') s = run_stack resolve ops' s'"
  by (induction ops arbitrary: s) (auto split: option.splits sum.splits)

lemma run_stack_append_err:
  "run_stack resolve ops s = Some (Inl e) \<Longrightarrow> run_stack resolve (ops @ ops') s = Some (Inl e)"
  by (induction ops arbitrary: s) (auto split: option.splits sum.splits)

lemma run_stack_append_if:
  "run_stack resolve ops s = Some (if c then Inr s' else Inl e) \<Longrightarrow>
   run_stack resolve (ops @ ops') s = (if c then run_stack resolve ops' s' else Some (Inl e))"
  by (simp add: run_stack_append run_stack_append_err split: if_splits)

subsection \<open>Moving elements\<close>

lemma rotl_rules [stack_rules]:
  "rotl 3 (a ## b ## c ## t) = c ## a ## b ## t"
  "rotl 4 (a ## b ## c ## d ## t) = d ## a ## b ## c ## t"
  "rotl 5 (a ## b ## c ## d ## e ## t) = e ## a ## b ## c ## d ## t"
  "rotl 6 (a ## b ## c ## d ## e ## f ## t) = f ## a ## b ## c ## d ## e ## t"
  "rotl 7 (a ## b ## c ## d ## e ## f ## g ## t) = g ## a ## b ## c ## d ## e ## f ## t"
  "rotl 8 (a ## b ## c ## d ## e ## f ## g ## h ## t) = h ## a ## b ## c ## d ## e ## f ## g ## t"
  "rotl 9 (a ## b ## c ## d ## e ## f ## g ## h ## i ## t) = i ## a ## b ## c ## d ## e ## f ## g ## h ## t"
  by (simp_all add: rotl_def eval_nat_numeral)

lemma rotr_rules [stack_rules]:
  "rotr 3 (a ## b ## c ## t) = b ## c ## a ## t"
  "rotr 4 (a ## b ## c ## d ## t) = b ## c ## d ## a ## t"
  "rotr 5 (a ## b ## c ## d ## e ## t) = b ## c ## d ## e ## a ## t"
  "rotr 6 (a ## b ## c ## d ## e ## f ## t) = b ## c ## d ## e ## f ## a ## t"
  "rotr 7 (a ## b ## c ## d ## e ## f ## g ## t) = b ## c ## d ## e ## f ## g ## a ## t"
  "rotr 8 (a ## b ## c ## d ## e ## f ## g ## h ## t) = b ## c ## d ## e ## f ## g ## h ## a ## t"
  "rotr 9 (a ## b ## c ## d ## e ## f ## g ## h ## i ## t) = b ## c ## d ## e ## f ## g ## h ## i ## a ## t"
  by (simp_all add: rotr_def eval_nat_numeral)

lemma swap_words_eq:
  assumes "1 \<le> n"
  shows "swap_words n s = stake 4 (sdrop (4 * n) s) @- stake (4 * n - 4) (sdrop 4 s) @- stake 4 s @- sdrop (4 * n + 4) s"
proof (rule stream_eqI)
  fix i
  have "i < 4 \<or> 4 \<le> i \<and> i < 4 * n \<or> 4 * n \<le> i \<and> i < 4 * n + 4 \<or> 4 * n + 4 \<le> i" by linarith
  with assms show "swap_words n s !! i =
      (stake 4 (sdrop (4 * n) s) @- stake (4 * n - 4) (sdrop 4 s) @- stake 4 s @- sdrop (4 * n + 4) s) !! i"
    by (auto simp: swap_words_def sdrop_snth add.commute)
qed

lemma swap_words_rules [stack_rules]:
  "swap_words 1 (a0 ## a1 ## a2 ## a3 ## b0 ## b1 ## b2 ## b3 ## t) = b0 ## b1 ## b2 ## b3 ## a0 ## a1 ## a2 ## a3 ## t"
  "swap_words 2 (a0 ## a1 ## a2 ## a3 ## b0 ## b1 ## b2 ## b3 ## c0 ## c1 ## c2 ## c3 ## t) =
     c0 ## c1 ## c2 ## c3 ## b0 ## b1 ## b2 ## b3 ## a0 ## a1 ## a2 ## a3 ## t"
  "swap_words 3 (a0 ## a1 ## a2 ## a3 ## b0 ## b1 ## b2 ## b3 ## c0 ## c1 ## c2 ## c3 ## d0 ## d1 ## d2 ## d3 ## t) =
     d0 ## d1 ## d2 ## d3 ## b0 ## b1 ## b2 ## b3 ## c0 ## c1 ## c2 ## c3 ## a0 ## a1 ## a2 ## a3 ## t"
  by (simp_all add: swap_words_eq eval_nat_numeral)

subsection \<open>32-bit operands\<close>

definition lo32 :: "felt \<Rightarrow> u32" where
  "lo32 x = word_of_int (Rep_felt x)"

definition hi32 :: "felt \<Rightarrow> u32" where
  "hi32 x = word_of_int (Rep_felt x div 2 ^ 32)"

lemma uint_lo32: "uint (lo32 x) = Rep_felt x mod 2 ^ 32"
  by (simp add: lo32_def uint_word_of_int)

lemma uint_hi32: "uint (hi32 x) = Rep_felt x div 2 ^ 32"
proof -
  have "Rep_felt x div 2 ^ 32 < 2 ^ 32" using Rep_felt_bounds(2) [of x] by (simp add: ORDER_def)
  then show ?thesis by (simp add: hi32_def uint_word_of_int pos_imp_zdiv_nonneg_iff)
qed

lemma Rep_felt_split: "Rep_felt x = uint (hi32 x) * 2 ^ 32 + uint (lo32 x)"
  by (simp only: uint_hi32 uint_lo32 div_mult_mod_eq)

lemma of_int_uint_felt [simp]: "of_int (uint w) = felt_from_u32 w"
  by (simp add: felt_from_u32_def)

lemma felt_from_u32_of_int: "0 \<le> k \<Longrightarrow> k < 2 ^ 32 \<Longrightarrow> felt_from_u32 (word_of_int k) = of_int k"
  by (simp add: felt_from_u32_def uint_word_of_int)

lemma is_u32_from_u32 [simp]: "is_u32 (felt_from_u32 w)"
  using uint_bounded [of w] by (simp add: is_u32_def)

lemma is_u32_iff: "is_u32 x \<longleftrightarrow> (\<exists>w. x = felt_from_u32 w)"
proof
  assume "is_u32 x"
  then have "felt_from_u32 (lo32 x) = x"
    by (simp add: is_u32_def felt_from_u32_def uint_lo32)
  then show "\<exists>w. x = felt_from_u32 w" by metis
qed auto

lemma felt_from_u32_eq_simps [simp]:
  "felt_from_u32 w = 0 \<longleftrightarrow> w = 0" "felt_from_u32 w = 1 \<longleftrightarrow> w = 1" "felt_from_u32 0 = 0" "felt_from_u32 1 = 1"
  using felt_from_u32_inject [of w 0] felt_from_u32_inject [of w 1] by (simp_all add: felt_from_u32_def)

lemma felt_numeral_u32:
  assumes "(numeral k :: int) < 4294967296"
  shows "(numeral k :: felt) = felt_from_u32 (numeral k)"
proof -
  have "uint (word_of_int (numeral k) :: u32) = numeral k mod 2 ^ 32"
    by (simp only: uint_word_of_int) simp
  also have "\<dots> = numeral k" using assms by (intro mod_pos_pos_trivial) simp_all
  finally have "uint (numeral k :: u32) = numeral k" by (simp only: word_of_int_numeral)
  then show ?thesis by (simp only: felt_from_u32_def of_int_numeral)
qed

lemma is_u32_simps [simp]: "is_u32 0" "is_u32 1"
  by (simp_all add: is_u32_def)

lemma is_u32_numeral [simp]: "(numeral k :: int) < 4294967296 \<Longrightarrow> is_u32 (numeral k)"
  by (simp only: felt_numeral_u32 is_u32_from_u32)

lemma not_u32_rules [stack_rules]:
  "not_u32 [] = []" "is_u32 x \<Longrightarrow> not_u32 (x # xs) = not_u32 xs"
  "\<not> is_u32 x \<Longrightarrow> not_u32 (x # xs) = x # not_u32 xs"
  by (simp_all add: not_u32_def)

text \<open>The effect of the 32-bit operations on words; moduli are written as numerals, the form the
  simplifier gives them.\<close>

lemma u32_low [stack_rules]: "of_int (k mod 4294967296) = felt_from_u32 (word_of_int k)"
  by (simp add: felt_from_u32_def uint_word_of_int)

lemma word_of_Rep_felt [stack_rules]: "word_of_int (Rep_felt x) = lo32 x"
  by (simp add: lo32_def)

lemma u32split_high [stack_rules]: "of_int (Rep_felt x div 4294967296) = felt_from_u32 (hi32 x)"
  using uint_hi32 [of x] by (simp add: felt_from_u32_def)

lemma u32add_high [stack_rules]:
  "of_int ((uint (a::u32) + uint (b::u32)) div 4294967296) = felt_from_bool (2 ^ 32 \<le> uint a + uint b)"
proof -
  have "uint a + uint b < 2 * 2 ^ 32" using uint_bounded [of a] uint_bounded [of b] by simp
  moreover have "0 \<le> uint a + uint b" by simp
  ultimately have "(uint a + uint b) div 2 ^ 32 = (if 2 ^ 32 \<le> uint a + uint b then 1 else 0)"
    by (auto simp: div_eq_0_iff intro: int_div_pos_eq [where r = "uint a + uint b - 2 ^ 32"])
  then show ?thesis by simp
qed

definition mul_high :: "u32 \<Rightarrow> u32 \<Rightarrow> u32 \<Rightarrow> u32" where
  "mul_high a b c = word_of_int ((uint a * uint b + uint c) div 2 ^ 32)"

lemma uint_mul_high: "uint (mul_high a b c) = (uint a * uint b + uint c) div 2 ^ 32"
proof -
  have "uint a * uint b \<le> 4294967295 * 4294967295"
    using uint_bounded [of a] uint_bounded [of b] by (intro mult_mono) auto
  then have "(uint a * uint b + uint c) div 2 ^ 32 < 2 ^ 32" using uint_bounded [of c] by simp
  then show ?thesis by (simp add: mul_high_def uint_word_of_int pos_imp_zdiv_nonneg_iff)
qed

lemma u32mul_high [stack_rules]:
  "of_int ((uint a * uint b + uint c) div 4294967296) = felt_from_u32 (mul_high a b c)"
  "of_int ((uint a * uint b) div 4294967296) = felt_from_u32 (mul_high a b 0)"
  using uint_mul_high [of a b c] uint_mul_high [of a b 0] by (simp_all add: felt_from_u32_def)

lemma u32_word_rules [stack_rules]:
  "word_of_int (uint a + uint b) = (a + b :: u32)" "word_of_int (uint a - uint b) = (a - b :: u32)"
  "word_of_int (uint a * uint b) = (a * b :: u32)" "word_of_int (uint a * uint b + uint c) = (a * b + c :: u32)"
  "word_of_int (uint a + uint b + uint c) = (a + b + c :: u32)"
  "uint a < uint b \<longleftrightarrow> (a < b)"
  "of_int (uint a mod uint b) = felt_from_u32 (a mod b)" "of_int (uint a div uint b) = felt_from_u32 (a div b)"
  "of_int (uint a AND uint b) = felt_from_u32 (a AND b)" "of_int (uint a XOR uint b) = felt_from_u32 (a XOR b)"
  by (simp_all add: wi_hom_syms word_less_def felt_from_u32_def uint_mod uint_div uint_and uint_xor)

lemma limbs_less_iff:
  fixes h g x y :: int
  assumes "0 \<le> x" "x < 2 ^ 32" "0 \<le> y" "y < 2 ^ 32"
  shows "h * 2 ^ 32 + x < g * 2 ^ 32 + y \<longleftrightarrow> h < g \<or> h = g \<and> x < y"
  using assms by (cases h g rule: linorder_cases) auto

lemma felt_compare: "Rep_felt a < Rep_felt b \<longleftrightarrow> hi32 a < hi32 b \<or> hi32 a = hi32 b \<and> lo32 a < lo32 b"
proof -
  have "uint (lo32 x) < 2 ^ 32" for x using uint_bounded [of "lo32 x"] by simp
  then have "Rep_felt a < Rep_felt b \<longleftrightarrow>
      uint (hi32 a) < uint (hi32 b) \<or> uint (hi32 a) = uint (hi32 b) \<and> uint (lo32 a) < uint (lo32 b)"
    unfolding Rep_felt_split [of a] Rep_felt_split [of b] by (intro limbs_less_iff) simp_all
  then show ?thesis by (simp only: word_less_def word_uint_eq_iff)
qed

lemma felt_eq_split: "a = b \<longleftrightarrow> hi32 a = hi32 b \<and> lo32 a = lo32 b"
  by (metis Rep_felt_inject Rep_felt_split)

end
