(* ===== verification/Asm_Field.thy ===== *)
theory Asm_Field
  imports Asm_Base
begin

text \<open>
  Lowering of the instructions on field elements, \<open>assembly/src/instruction/field_ops.rs\<close>, and the
  part of the dispatch in \<open>instruction/mod.rs\<close> for them.  The 64-bit comparisons are built from
  32-bit subtractions on the two halves of a field element and the powers from \<open>EXPACC\<close>; the lemmas
  show that they compute the comparison of the canonical representatives and the power in the field,
  and that an exponent that does not fit is rejected at run time.
\<close>

section \<open>Model\<close>

definition assertw :: "felt \<Rightarrow> operation list" where
  "assertw err_code =
     [MovUp4, Eq, Assert err_code,
      MovUp3, Eq, Assert err_code,
      MovUp2, Eq, Assert err_code,
      Eq, Assert err_code]"

definition add_imm :: "felt \<Rightarrow> operation list" where
  "add_imm imm =
     (if imm = 0 then [Noop]
      else if imm = 1 then [Incr]
      else if imm = 2 then [Incr, Incr]
      else [Push imm, Add])"

definition sub_imm :: "felt \<Rightarrow> operation list" where
  "sub_imm imm = (if imm = 0 then [Noop] else [Push (- imm), Add])"

definition mul_imm :: "felt \<Rightarrow> operation list" where
  "mul_imm imm =
     (if imm = 0 then [Drop, Pad]
      else if imm = 1 then [Noop]
      else [Push imm, Mul])"

definition div_imm :: "felt \<Rightarrow> lowered" where
  "div_imm imm =
     (if imm = 0 then Inl DivisionByZero
      else if imm = 1 then Inr [Noop]
      else Inr [Push (inverse imm), Mul])"

definition append_pow2_op :: "operation list" where
  "append_pow2_op =
     [Push 2] @ [Pad, Incr] @ [Swap, Pad] @
     [Expacc, Expacc, Expacc, Expacc, Expacc, Expacc] @
     [Drop, Drop] @ [Swap, Eqz, Assert 0]"

definition pow2 :: "operation list" where
  "pow2 = append_pow2_op"

definition exp_ops :: "nat \<Rightarrow> lowered" where
  "exp_ops num_pow_bits =
     (if num_pow_bits > MAX_EXP_BITS then Inl (ArgumentOutOfRange MAX_EXP_BITS)
      else Inr ([Pad, Incr, MovUp2, Pad] @ push_op_many Expacc num_pow_bits @ [Drop, Drop] @ [Swap, Eqz, Assert 0]))"

definition perform_exp_for_small_power :: "nat \<Rightarrow> lowered" where
  "perform_exp_for_small_power pow =
     (if pow = 0 then Inr ([Drop] @ [Pad] @ [Incr])
      else if pow = 1 then Inr [Noop]
      else if pow = 2 then Inr ([Dup0] @ [Mul])
      else if pow = 3 then Inr (push_op_many Dup0 2 @ push_op_many Mul 2)
      else if pow = 4 then Inr (push_op_many Dup0 3 @ push_op_many Mul 3)
      else if pow = 5 then Inr (push_op_many Dup0 4 @ push_op_many Mul 4)
      else if pow = 6 then Inr (push_op_many Dup0 5 @ push_op_many Mul 5)
      else if pow = 7 then Inr (push_op_many Dup0 6 @ push_op_many Mul 6)
      else Inl Unreachable)"

text \<open>The number of leading zeros of a 64-bit word.\<close>

primrec bit_length_upto :: "nat \<Rightarrow> nat \<Rightarrow> nat" where
  "bit_length_upto 0 n = 0"
| "bit_length_upto (Suc k) n = (if n = 0 then 0 else Suc (bit_length_upto k (n div 2)))"

definition leading_zeros_u64 :: "u64 \<Rightarrow> nat" where
  "leading_zeros_u64 w = 64 - bit_length_upto 64 (unat w)"

definition exp_imm :: "felt \<Rightarrow> lowered" where
  "exp_imm pow =
     (if as_canonical_u64 pow \<le> 7 then perform_exp_for_small_power (unat (as_canonical_u64 pow))
      else let num_pow_bits = 64 - leading_zeros_u64 (as_canonical_u64 pow) in
           res_map (\<lambda>ops. [Push pow] @ ops) (exp_ops num_pow_bits))"

definition eq_imm :: "felt \<Rightarrow> operation list" where
  "eq_imm imm = (if imm = 0 then [Eqz] else [Push imm, Eq])"

definition neq_imm :: "felt \<Rightarrow> operation list" where
  "neq_imm imm = (if imm = 0 then [Eqz, Not_op] else [Push imm, Eq, Not_op])"

definition eqw :: "operation list" where
  "eqw =
     [Dup7, Dup4, Eq,
      Dup7, Dup4, Eq, And, Dup6, Dup3, Eq, And, Dup5, Dup2, Eq, And]"

definition split_elements :: "operation list" where
  "split_elements = [Swap] @ [U32split] @ [MovUp2] @ [U32split]"

definition check_lt_and_eq :: "operation list" where
  "check_lt_and_eq = [U32sub] @ [Swap, Eqz]"

definition check_lt_high_bits :: "operation list" where
  "check_lt_high_bits = [MovUp3] @ [MovUp2] @ check_lt_and_eq @ [MovUp2] @ [MovUp3] @ [Swap]"

definition check_lt :: "operation list" where
  "check_lt = [U32sub] @ [Swap, Drop]"

definition set_result :: "operation list" where
  "set_result = [And] @ [Or]"

definition check_lte :: "operation list" where
  "check_lte = [U32sub] @ [Swap, Eqz] @ [Or]"

definition check_gt_high_bits :: "operation list" where
  "check_gt_high_bits = [Swap] @ [MovUp3] @ check_lt_and_eq @ [MovUp2] @ [MovUp3]"

definition lt :: "operation list" where
  "lt = split_elements @ check_lt_high_bits @ check_lt @ set_result"

definition lte :: "operation list" where
  "lte = split_elements @ check_lt_high_bits @ check_lte @ set_result"

definition gt :: "operation list" where
  "gt = split_elements @ check_gt_high_bits @ check_lt @ set_result"

definition gte :: "operation list" where
  "gte = split_elements @ check_gt_high_bits @ check_lte @ set_result"

definition is_odd :: "operation list" where
  "is_odd = [U32split, Swap, Drop, Pad, Incr, U32and]"

definition ilog2 :: "operation list" where
  "ilog2 =
     push_system_event ILog2 @ [AdvPop] @
     [Dup0] @ append_pow2_op @
     [MovUp2, Dup1, Dup1, Swap] @ gte @ [Assert 0, MovDn2] @
     [MovUp2, Swap, Push 2, Mul] @ lt @
     [Dup1, Push 63, Eq, Or, Assert 0]"

text \<open>The instructions of this group and their dispatch; \<open>error_code\<close> is the code that the MAST forest
  registers for an error message (a hash computed outside the repository).\<close>

datatype (plugins only: code size) field_instruction =
    I_Nop | I_Assert | I_AssertWithError string | I_AssertEq | I_AssertEqWithError string
  | I_AssertEqw | I_AssertEqwWithError string | I_Assertz | I_AssertzWithError string
  | I_Add | I_AddImm felt | I_Sub | I_SubImm felt | I_Mul | I_MulImm felt | I_Div | I_DivImm felt
  | I_Neg | I_ILog2 | I_Inv | I_Incr | I_Pow2 | I_Exp | I_ExpImm felt | I_ExpBitLength "8 word"
  | I_Not | I_And | I_Or | I_Xor | I_Eq | I_EqImm felt | I_Neq | I_NeqImm felt | I_Eqw
  | I_Lt | I_Lte | I_Gt | I_Gte | I_IsOdd

primrec compile_field :: "(string \<Rightarrow> felt) \<Rightarrow> field_instruction \<Rightarrow> lowered" where
  "compile_field error_code I_Nop = Inr [Noop]"
| "compile_field error_code I_Assert = Inr [Assert 0]"
| "compile_field error_code (I_AssertWithError err_msg) = Inr [Assert (error_code err_msg)]"
| "compile_field error_code I_AssertEq = Inr [Eq, Assert 0]"
| "compile_field error_code (I_AssertEqWithError err_msg) = Inr [Eq, Assert (error_code err_msg)]"
| "compile_field error_code I_AssertEqw = Inr (assertw 0)"
| "compile_field error_code (I_AssertEqwWithError err_msg) = Inr (assertw (error_code err_msg))"
| "compile_field error_code I_Assertz = Inr [Eqz, Assert 0]"
| "compile_field error_code (I_AssertzWithError err_msg) = Inr [Eqz, Assert (error_code err_msg)]"
| "compile_field error_code I_Add = Inr [Add]"
| "compile_field error_code (I_AddImm imm) = Inr (add_imm imm)"
| "compile_field error_code I_Sub = Inr [Neg, Add]"
| "compile_field error_code (I_SubImm imm) = Inr (sub_imm imm)"
| "compile_field error_code I_Mul = Inr [Mul]"
| "compile_field error_code (I_MulImm imm) = Inr (mul_imm imm)"
| "compile_field error_code I_Div = Inr [Inv, Mul]"
| "compile_field error_code (I_DivImm imm) = div_imm imm"
| "compile_field error_code I_Neg = Inr [Neg]"
| "compile_field error_code I_ILog2 = Inr ilog2"
| "compile_field error_code I_Inv = Inr [Inv]"
| "compile_field error_code I_Incr = Inr [Incr]"
| "compile_field error_code I_Pow2 = Inr pow2"
| "compile_field error_code I_Exp = exp_ops 64"
| "compile_field error_code (I_ExpImm pow) = exp_imm pow"
| "compile_field error_code (I_ExpBitLength num_pow_bits) = exp_ops (unat num_pow_bits)"
| "compile_field error_code I_Not = Inr [Not_op]"
| "compile_field error_code I_And = Inr [And]"
| "compile_field error_code I_Or = Inr [Or]"
| "compile_field error_code I_Xor = Inr [Dup0, Dup2, Or, MovDn2, And, Not_op, And]"
| "compile_field error_code I_Eq = Inr [Eq]"
| "compile_field error_code (I_EqImm imm) = Inr (eq_imm imm)"
| "compile_field error_code I_Neq = Inr [Eq, Not_op]"
| "compile_field error_code (I_NeqImm imm) = Inr (neq_imm imm)"
| "compile_field error_code I_Eqw = Inr eqw"
| "compile_field error_code I_Lt = Inr lt"
| "compile_field error_code I_Lte = Inr lte"
| "compile_field error_code I_Gt = Inr gt"
| "compile_field error_code I_Gte = Inr gte"
| "compile_field error_code I_IsOdd = Inr is_odd"

declare assertw_def [lowering] and pow2_def [lowering] and eqw_def [lowering]
  and split_elements_def [lowering] and check_lt_and_eq_def [lowering] and check_lt_high_bits_def [lowering]
  and check_lt_def [lowering] and set_result_def [lowering] and check_lte_def [lowering]
  and check_gt_high_bits_def [lowering] and lt_def [lowering] and lte_def [lowering]
  and gt_def [lowering] and gte_def [lowering] and is_odd_def [lowering]

section \<open>Comparisons\<close>

lemma run_lt: "run_stack resolve lt (b ## a ## t) = Some (Inr (felt_from_bool (Rep_felt a < Rep_felt b) ## t))"
  by (simp add: lowering stack_rules felt_compare)

lemma run_gt: "run_stack resolve gt (b ## a ## t) = Some (Inr (felt_from_bool (Rep_felt b < Rep_felt a) ## t))"
  by (simp add: lowering stack_rules felt_compare)

lemma run_lte: "run_stack resolve lte (b ## a ## t) = Some (Inr (felt_from_bool (Rep_felt a \<le> Rep_felt b) ## t))"
  by (auto simp add: lowering stack_rules felt_compare not_less [symmetric] not_less_iff_gr_or_eq)

lemma run_gte: "run_stack resolve gte (b ## a ## t) = Some (Inr (felt_from_bool (Rep_felt b \<le> Rep_felt a) ## t))"
  by (auto simp add: lowering stack_rules felt_compare not_less [symmetric] not_less_iff_gr_or_eq)

lemma run_is_odd: "run_stack resolve is_odd (a ## t) = Some (Inr (felt_from_bool (odd (Rep_felt a)) ## t))"
proof -
  have "of_int (uint (lo32 a) mod 2) = felt_from_bool (odd (Rep_felt a))"
    by (cases "Rep_felt a mod 2 = 1") (auto simp: uint_lo32 mod_mod_cancel odd_iff_mod_2_eq_one)
  then show ?thesis by (simp add: lowering stack_rules one_and_eq)
qed

lemma run_eqw: "run_stack resolve eqw (a0 ## a1 ## a2 ## a3 ## b0 ## b1 ## b2 ## b3 ## t) =
    Some (Inr (felt_from_bool (a0 = b0 \<and> a1 = b1 \<and> a2 = b2 \<and> a3 = b3) ## a0 ## a1 ## a2 ## a3 ## b0 ## b1 ## b2 ## b3 ## t))"
  by (auto simp add: lowering stack_rules intro!: arg_cong [where f = felt_from_bool])

lemma run_assertw: "run_stack resolve (assertw e) (a0 ## a1 ## a2 ## a3 ## b0 ## b1 ## b2 ## b3 ## t) =
    Some (if a0 = b0 \<and> a1 = b1 \<and> a2 = b2 \<and> a3 = b3 then Inr t else Inl (FailedAssertion e (resolve e)))"
  by (auto simp add: lowering stack_rules)

section \<open>Powers\<close>

text \<open>After k steps of \<open>EXPACC\<close> the base has been squared k times, the accumulator holds the power for
  the low k bits of the exponent and the exponent is shifted by k bits.\<close>

lemma expacc_step:
  "b ^ nat (n mod 2 ^ Suc k) = (if odd n then b else 1) * (b * b) ^ nat (n div 2 mod 2 ^ k)" for b :: felt and n :: int
proof -
  have "n mod 2 ^ Suc k = n mod 2 + 2 * (n div 2 mod 2 ^ k)"
    by (simp add: zmod_zmult2_eq)
  then have "nat (n mod 2 ^ Suc k) = nat (n mod 2) + 2 * nat (n div 2 mod 2 ^ k)"
    by (simp add: nat_add_distrib nat_mult_distrib)
  moreover have "b ^ nat (n mod 2) = (if odd n then b else 1)"
    by (simp add: mod2_eq_if)
  ultimately show ?thesis by (simp add: power_add power_mult power2_eq_square)
qed

lemma Rep_felt_shift: "Rep_felt (of_int (Rep_felt e div 2 ^ k)) = Rep_felt e div 2 ^ k"
proof (rule Rep_felt_of_int_small)
  have "Rep_felt e div 2 ^ k \<le> Rep_felt e div 1" by (rule zdiv_mono2) simp_all
  also have "\<dots> < ORDER" by simp
  finally show "Rep_felt e div 2 ^ k < ORDER" .
qed (simp add: pos_imp_zdiv_nonneg_iff)

lemma run_expacc:
  "\<exists>z'. run_stack resolve (replicate k Expacc @ ops) (z ## b ## acc ## e ## t) =
     run_stack resolve ops (z' ## b ^ (2 ^ k) ## acc * b ^ nat (Rep_felt e mod 2 ^ k) ## of_int (Rep_felt e div 2 ^ k) ## t)"
proof (induction k arbitrary: z b acc e)
  case 0
  then show ?case by auto
next
  case (Suc k)
  obtain z' where "run_stack resolve (replicate k Expacc @ ops)
      (felt_from_bool (odd (Rep_felt e)) ## b * b ## acc * (if odd (Rep_felt e) then b else 1) ## of_int (Rep_felt e div 2) ## t) =
     run_stack resolve ops (z' ## (b * b) ^ (2 ^ k) ##
       acc * (if odd (Rep_felt e) then b else 1) * (b * b) ^ nat (Rep_felt e div 2 mod 2 ^ k) ##
       of_int (Rep_felt e div 2 div 2 ^ k) ## t)"
    using Suc [of "felt_from_bool (odd (Rep_felt e))" "b * b" "acc * (if odd (Rep_felt e) then b else 1)" "of_int (Rep_felt e div 2)"]
    unfolding Rep_felt_shift [of e 1, unfolded power_one_right] by blast
  moreover have "(b * b) ^ (2 ^ k) = b ^ (2 ^ Suc k)" by (simp add: power_mult power2_eq_square)
  ultimately show ?case
    by (intro exI [of _ z']) (simp add: expacc_step mult.assoc zdiv_zmult2_eq del: power_Suc; simp add: zdiv_zmult2_eq)
qed

text \<open>The code that closes an exponentiation asserts that no bits of the exponent are left.\<close>

lemma run_exp_tail:
  "run_stack resolve (replicate k Expacc @ [Drop, Drop] @ [Swap, Eqz, Assert 0]) (z ## b ## 1 ## e ## t) =
     Some (if Rep_felt e < 2 ^ k then Inr (b ^ nat (Rep_felt e) ## t) else Inl (FailedAssertion 0 (resolve 0)))"
proof -
  obtain z' where run: "run_stack resolve (replicate k Expacc @ [Drop, Drop] @ [Swap, Eqz, Assert 0]) (z ## b ## 1 ## e ## t) =
     run_stack resolve ([Drop, Drop] @ [Swap, Eqz, Assert 0])
       (z' ## b ^ (2 ^ k) ## 1 * b ^ nat (Rep_felt e mod 2 ^ k) ## of_int (Rep_felt e div 2 ^ k) ## t)"
    using run_expacc by blast
  have "(of_int (Rep_felt e div 2 ^ k) :: felt) = 0 \<longleftrightarrow> Rep_felt e div 2 ^ k = 0"
    by (metis Rep_felt_eq_0 Rep_felt_shift)
  moreover have "Rep_felt e div 2 ^ k = 0 \<longleftrightarrow> Rep_felt e < 2 ^ k"
    using Rep_felt_bounds [of e] by (auto simp: zdiv_eq_0_iff)
  ultimately show ?thesis unfolding run by simp
qed

lemma run_exp_ops:
  assumes "n \<le> 64"
  obtains ops where "exp_ops n = Inr ops"
    "\<And>e b t. run_stack resolve ops (e ## b ## t) =
       Some (if Rep_felt e < 2 ^ n then Inr (b ^ nat (Rep_felt e) ## t) else Inl (FailedAssertion 0 (resolve 0)))"
proof
  show "exp_ops n = Inr ([Pad, Incr, MovUp2, Pad] @ replicate n Expacc @ [Drop, Drop] @ [Swap, Eqz, Assert 0])"
    using assms by (simp add: exp_ops_def push_op_many_def lowering)
  show "run_stack resolve ([Pad, Incr, MovUp2, Pad] @ replicate n Expacc @ [Drop, Drop] @ [Swap, Eqz, Assert 0]) (e ## b ## t) =
       Some (if Rep_felt e < 2 ^ n then Inr (b ^ nat (Rep_felt e) ## t) else Inl (FailedAssertion 0 (resolve 0)))" for e b t
    by (subst run_stack_append [where s' = "0 ## b ## 1 ## e ## t"]) (simp add: stack_rules, rule run_exp_tail)
qed

lemma run_append_pow2_op:
  "run_stack resolve append_pow2_op (e ## t) =
     Some (if Rep_felt e < 64 then Inr (2 ^ nat (Rep_felt e) ## t) else Inl (FailedAssertion 0 (resolve 0)))"
proof -
  have ops: "append_pow2_op = [Push 2, Pad, Incr, Swap, Pad] @ replicate 6 Expacc @ [Drop, Drop] @ [Swap, Eqz, Assert 0]"
    by (simp add: append_pow2_op_def eval_nat_numeral)
  show ?thesis unfolding ops
    by (subst run_stack_append [where s' = "0 ## 2 ## 1 ## e ## t"]) (simp, simp only: run_exp_tail, simp)
qed

lemma run_small_power:
  assumes "k \<le> 7"
  obtains ops where "perform_exp_for_small_power k = Inr ops"
    "\<And>b t. run_stack resolve ops (b ## t) = Some (Inr (b ^ k ## t))"
proof -
  from assms have "k \<in> {0, 1, 2, 3, 4, 5, 6, 7}" by auto
  then have "\<exists>ops. perform_exp_for_small_power k = Inr ops \<and>
      (\<forall>b t. run_stack resolve ops (b ## t) = Some (Inr (b ^ k ## t)))"
    by (elim insertE emptyE)
       (simp_all add: perform_exp_for_small_power_def push_op_many_def numeral_eq_Suc power_Suc mult.assoc)
  with that show thesis by blast
qed

lemma bit_length_upto: "n < 2 ^ k \<Longrightarrow> n < 2 ^ bit_length_upto k n \<and> bit_length_upto k n \<le> k"
proof (induction k arbitrary: n)
  case (Suc k)
  then have "n div 2 < 2 ^ bit_length_upto k (n div 2) \<and> bit_length_upto k (n div 2) \<le> k" by simp
  then show ?case by auto
qed simp

lemma run_exp_imm:
  obtains ops where "exp_imm p = Inr ops"
    "\<And>b t. run_stack resolve ops (b ## t) = Some (Inr (b ^ nat (Rep_felt p) ## t))"
proof (cases "as_canonical_u64 p \<le> 7")
  case True
  have n: "unat (as_canonical_u64 p) = nat (Rep_felt p)" by (simp add: flip: nat_uint_eq)
  with True have "nat (Rep_felt p) \<le> 7" by (simp add: word_le_nat_alt)
  from run_small_power [OF this, of resolve] obtain ops where
    "perform_exp_for_small_power (nat (Rep_felt p)) = Inr ops"
    "\<And>b t. run_stack resolve ops (b ## t) = Some (Inr (b ^ nat (Rep_felt p) ## t))" by blast
  with True n that show thesis by (simp add: exp_imm_def)
next
  case False
  define k where "k = bit_length_upto 64 (nat (Rep_felt p))"
  have "nat (Rep_felt p) < 2 ^ 64" using Rep_felt_bounds(2) [of p] by (simp add: ORDER_def)
  then have k: "nat (Rep_felt p) < 2 ^ k" "k \<le> 64" using bit_length_upto [of "nat (Rep_felt p)" 64] by (simp_all add: k_def)
  from run_exp_ops [OF k(2), of resolve] obtain ops where ops: "exp_ops k = Inr ops"
    "\<And>e b t. run_stack resolve ops (e ## b ## t) =
       Some (if Rep_felt e < 2 ^ k then Inr (b ^ nat (Rep_felt e) ## t) else Inl (FailedAssertion 0 (resolve 0)))" by blast
  have "Rep_felt p < 2 ^ k" using k(1) Rep_felt_bounds(1) [of p] by (simp add: nat_less_iff)
  moreover have "64 - leading_zeros_u64 (as_canonical_u64 p) = k"
    using k(2) by (simp add: leading_zeros_u64_def k_def flip: nat_uint_eq)
  ultimately show thesis using False ops that [of "Push p # ops"] by (simp add: exp_imm_def)
qed

section \<open>Verification of the integer logarithm\<close>

lemma Rep_felt_pow2:
  assumes "k < 64"
  shows "Rep_felt (2 ^ k) = 2 ^ k"
proof -
  from assms have "(2 :: int) ^ k \<le> 2 ^ 63" by (intro power_increasing) simp_all
  then have "(2 :: int) ^ k < ORDER" by (simp add: ORDER_def)
  then have "Rep_felt (of_int (2 ^ k)) = 2 ^ k" by (intro Rep_felt_of_int_small) simp_all
  then show ?thesis by simp
qed

text \<open>The two comparisons of \<open>ilog2\<close>: for the exponent 63 the upper bound does not fit the field and
  holds for every element.\<close>

lemma ilog2_upper:
  assumes "k < 64"
  shows "Rep_felt n < Rep_felt (2 ^ k * 2) \<or> k = 63 \<longleftrightarrow> Rep_felt n < 2 ^ (k + 1)"
proof (cases "k = 63")
  case True
  then show ?thesis using Rep_felt_bounds(2) [of n] by (simp add: ORDER_def)
next
  case False
  with assms Rep_felt_pow2 [of "k + 1"] show ?thesis by (simp add: mult.commute)
qed

lemma run_ilog2:
  "run_stack resolve (drop 4 ilog2) (k ## n ## t) =
     Some (if 2 ^ nat (Rep_felt k) \<le> Rep_felt n \<and> Rep_felt n < 2 ^ (nat (Rep_felt k) + 1) then Inr (k ## t)
           else Inl (FailedAssertion 0 (resolve 0)))"
proof -
  define j where "j = nat (Rep_felt k)"
  have "63 = k \<longleftrightarrow> Rep_felt 63 = Rep_felt k" by (simp only: Rep_felt_inject)
  then have k63: "k = 63 \<longleftrightarrow> j = 63" by (auto simp: j_def)
  note run_if = run_stack_append_if [OF run_append_pow2_op] run_stack_append [OF run_gte] run_stack_append [OF run_lt]
  have run: "run_stack resolve (drop 4 ilog2) (k ## n ## t) =
    (if Rep_felt k < 64 then
       (if Rep_felt (2 ^ j) \<le> Rep_felt n then
         (if Rep_felt n < Rep_felt (2 ^ j * 2) \<or> j = 63 then Some (Inr (k ## t)) else Some (Inl (FailedAssertion 0 (resolve 0))))
        else Some (Inl (FailedAssertion 0 (resolve 0))))
     else Some (Inl (FailedAssertion 0 (resolve 0))))"
    by (auto simp add: ilog2_def push_system_event_def run_if stack_rules k63 simp flip: j_def)
  show ?thesis
  proof (cases "j < 64")
    case True
    then have "Rep_felt k < 64" by (simp add: j_def)
    with True show ?thesis unfolding j_def [symmetric] run ilog2_upper [OF True] Rep_felt_pow2 [OF True] by simp
  next
    case False
    then have "\<not> Rep_felt k < 64" by (simp add: j_def)
    moreover have "(2 :: int) ^ 64 \<le> 2 ^ j" using False by (intro power_increasing) simp_all
    then have "\<not> 2 ^ j \<le> Rep_felt n" using Rep_felt_bounds(2) [of n] by (simp add: ORDER_def)
    ultimately show ?thesis unfolding j_def [symmetric] run by simp
  qed
qed

section \<open>Semantics of the instructions\<close>

text \<open>What the instructions of the group compute, from the user documentation of the assembly
  language: the transformation of the operand stack, or the error of the failing assertion or of the
  operand that is not allowed.\<close>

definition assert_that :: "(felt \<Rightarrow> string option) \<Rightarrow> felt \<Rightarrow> bool \<Rightarrow> felt stream \<Rightarrow> operation_error + felt stream" where
  "assert_that resolve e b t = (if b then Inr t else Inl (FailedAssertion e (resolve e)))"

fun binary :: "felt list \<Rightarrow> felt stream \<Rightarrow> operation_error + felt stream" where
  "binary [] r = Inr r"
| "binary (x # xs) r = (if x = 0 \<or> x = 1 then binary xs r else Inl (NotBinaryValue x))"

primrec field_semantics ::
    "(felt \<Rightarrow> string option) \<Rightarrow> (string \<Rightarrow> felt) \<Rightarrow> field_instruction \<Rightarrow> (felt stream \<Rightarrow> operation_error + felt stream) option" where
  "field_semantics resolve ec I_Nop = Some Inr"
| "field_semantics resolve ec I_Assert = Some (\<lambda>s. case s of a ## t \<Rightarrow> assert_that resolve 0 (a = 1) t)"
| "field_semantics resolve ec (I_AssertWithError m) = Some (\<lambda>s. case s of a ## t \<Rightarrow> assert_that resolve (ec m) (a = 1) t)"
| "field_semantics resolve ec I_AssertEq = Some (\<lambda>s. case s of b ## a ## t \<Rightarrow> assert_that resolve 0 (a = b) t)"
| "field_semantics resolve ec (I_AssertEqWithError m) = Some (\<lambda>s. case s of b ## a ## t \<Rightarrow> assert_that resolve (ec m) (a = b) t)"
| "field_semantics resolve ec I_AssertEqw = Some (\<lambda>s.
     assert_that resolve 0 (stack_word s 0 = stack_word s 4) (sdrop 8 s))"
| "field_semantics resolve ec (I_AssertEqwWithError m) = Some (\<lambda>s.
     assert_that resolve (ec m) (stack_word s 0 = stack_word s 4) (sdrop 8 s))"
| "field_semantics resolve ec I_Assertz = Some (\<lambda>s. case s of a ## t \<Rightarrow> assert_that resolve 0 (a = 0) t)"
| "field_semantics resolve ec (I_AssertzWithError m) = Some (\<lambda>s. case s of a ## t \<Rightarrow> assert_that resolve (ec m) (a = 0) t)"
| "field_semantics resolve ec I_Add = Some (\<lambda>s. case s of b ## a ## t \<Rightarrow> Inr ((a + b) ## t))"
| "field_semantics resolve ec (I_AddImm b) = Some (\<lambda>s. case s of a ## t \<Rightarrow> Inr ((a + b) ## t))"
| "field_semantics resolve ec I_Sub = Some (\<lambda>s. case s of b ## a ## t \<Rightarrow> Inr ((a - b) ## t))"
| "field_semantics resolve ec (I_SubImm b) = Some (\<lambda>s. case s of a ## t \<Rightarrow> Inr ((a - b) ## t))"
| "field_semantics resolve ec I_Mul = Some (\<lambda>s. case s of b ## a ## t \<Rightarrow> Inr ((a * b) ## t))"
| "field_semantics resolve ec (I_MulImm b) = Some (\<lambda>s. case s of a ## t \<Rightarrow> Inr ((a * b) ## t))"
| "field_semantics resolve ec I_Div = Some (\<lambda>s. case s of b ## a ## t \<Rightarrow> if b = 0 then Inl DivideByZero else Inr ((a / b) ## t))"
| "field_semantics resolve ec (I_DivImm b) = Some (\<lambda>s. case s of a ## t \<Rightarrow> Inr ((a / b) ## t))"
| "field_semantics resolve ec I_Neg = Some (\<lambda>s. case s of a ## t \<Rightarrow> Inr ((- a) ## t))"
| "field_semantics resolve ec I_ILog2 = None"
| "field_semantics resolve ec I_Inv = Some (\<lambda>s. case s of a ## t \<Rightarrow> if a = 0 then Inl DivideByZero else Inr ((1 / a) ## t))"
| "field_semantics resolve ec I_Incr = Some (\<lambda>s. case s of a ## t \<Rightarrow> Inr ((a + 1) ## t))"
| "field_semantics resolve ec I_Pow2 = Some (\<lambda>s. case s of e ## t \<Rightarrow> assert_that resolve 0 (Rep_felt e < 64) (2 ^ nat (Rep_felt e) ## t))"
| "field_semantics resolve ec I_Exp = Some (\<lambda>s. case s of e ## b ## t \<Rightarrow> Inr (b ^ nat (Rep_felt e) ## t))"
| "field_semantics resolve ec (I_ExpImm e) = Some (\<lambda>s. case s of b ## t \<Rightarrow> Inr (b ^ nat (Rep_felt e) ## t))"
| "field_semantics resolve ec (I_ExpBitLength n) = Some (\<lambda>s. case s of e ## b ## t \<Rightarrow>
     assert_that resolve 0 (Rep_felt e < 2 ^ unat n) (b ^ nat (Rep_felt e) ## t))"
| "field_semantics resolve ec I_Not = Some (\<lambda>s. case s of a ## t \<Rightarrow> binary [a] (felt_from_bool (a = 0) ## t))"
| "field_semantics resolve ec I_And = Some (\<lambda>s. case s of b ## a ## t \<Rightarrow> binary [b, a] (felt_from_bool (a = 1 \<and> b = 1) ## t))"
| "field_semantics resolve ec I_Or = Some (\<lambda>s. case s of b ## a ## t \<Rightarrow> binary [b, a] (felt_from_bool (a = 1 \<or> b = 1) ## t))"
| "field_semantics resolve ec I_Xor = Some (\<lambda>s. case s of b ## a ## t \<Rightarrow> binary [a, b] (felt_from_bool (a \<noteq> b) ## t))"
| "field_semantics resolve ec I_Eq = Some (\<lambda>s. case s of b ## a ## t \<Rightarrow> Inr (felt_from_bool (a = b) ## t))"
| "field_semantics resolve ec (I_EqImm b) = Some (\<lambda>s. case s of a ## t \<Rightarrow> Inr (felt_from_bool (a = b) ## t))"
| "field_semantics resolve ec I_Neq = Some (\<lambda>s. case s of b ## a ## t \<Rightarrow> Inr (felt_from_bool (a \<noteq> b) ## t))"
| "field_semantics resolve ec (I_NeqImm b) = Some (\<lambda>s. case s of a ## t \<Rightarrow> Inr (felt_from_bool (a \<noteq> b) ## t))"
| "field_semantics resolve ec I_Eqw = Some (\<lambda>s. Inr (felt_from_bool (stack_word s 0 = stack_word s 4) ## s))"
| "field_semantics resolve ec I_Lt = Some (\<lambda>s. case s of b ## a ## t \<Rightarrow> Inr (felt_from_bool (Rep_felt a < Rep_felt b) ## t))"
| "field_semantics resolve ec I_Lte = Some (\<lambda>s. case s of b ## a ## t \<Rightarrow> Inr (felt_from_bool (Rep_felt a \<le> Rep_felt b) ## t))"
| "field_semantics resolve ec I_Gt = Some (\<lambda>s. case s of b ## a ## t \<Rightarrow> Inr (felt_from_bool (Rep_felt a > Rep_felt b) ## t))"
| "field_semantics resolve ec I_Gte = Some (\<lambda>s. case s of b ## a ## t \<Rightarrow> Inr (felt_from_bool (Rep_felt a \<ge> Rep_felt b) ## t))"
| "field_semantics resolve ec I_IsOdd = Some (\<lambda>s. case s of a ## t \<Rightarrow> Inr (felt_from_bool (odd (Rep_felt a)) ## t))"

lemma run_exp_compiled:
  assumes "exp_ops n = Inr ops"
  shows "run_stack resolve ops (e ## b ## t) = Some (assert_that resolve 0 (Rep_felt e < 2 ^ n) (b ^ nat (Rep_felt e) ## t))"
proof -
  from assms have "n \<le> 64" by (simp add: exp_ops_def MAX_EXP_BITS_def split: if_splits)
  then obtain ops' where "exp_ops n = Inr ops'" "\<And>e b t. run_stack resolve ops' (e ## b ## t) =
       Some (if Rep_felt e < 2 ^ n then Inr (b ^ nat (Rep_felt e) ## t) else Inl (FailedAssertion 0 (resolve 0)))"
    by (rule run_exp_ops [of n resolve]) blast
  with assms show ?thesis by (simp only: assert_that_def sum.inject)
qed

lemma run_exp_imm_compiled:
  assumes "exp_imm p = Inr ops"
  shows "run_stack resolve ops (b ## t) = Some (Inr (b ^ nat (Rep_felt p) ## t))"
proof -
  obtain ops' where "exp_imm p = Inr ops'"
    "\<And>b t. run_stack resolve ops' (b ## t) = Some (Inr (b ^ nat (Rep_felt p) ## t))" by (rule run_exp_imm [of p resolve]) blast
  with assms show ?thesis by (simp only: sum.inject)
qed

lemma sdrop_8: "sdrop 8 (a0 ## a1 ## a2 ## a3 ## a4 ## a5 ## a6 ## a7 ## t) = t"
  by (simp add: eval_nat_numeral)

lemma exp_in_range: "Rep_felt e < 2 ^ 64"
  using Rep_felt_bounds(2) [of e] by (simp add: ORDER_def)



end
