(* ===== verification/Asm_U32.thy ===== *)
theory Asm_U32
  imports Asm_Field
begin

text \<open>
  Lowering of the instructions on 32-bit values, \<open>assembly/src/instruction/u32_ops.rs\<close>, and their
  dispatch in \<open>instruction/mod.rs\<close>.  Immediates of type \<open>u32\<close> and \<open>u8\<close> are words.  The semantics of the
  group is given in the arithmetic of 32-bit words.
\<close>

unbundle bit_operations_syntax

section \<open>Model\<close>

datatype u32_op_mode = Wrapping | Overflowing

definition u32testw :: "operation list" where
  "u32testw =
     [Dup3, U32split, Drop, Eqz,
      Dup3, U32split, Drop, Eqz, And,
      Dup2, U32split, Drop, Eqz, And,
      Dup1, U32split, Drop, Eqz, And]"

definition u32assertw :: "felt \<Rightarrow> operation list" where
  "u32assertw err_code =
     [U32assert2 err_code, MovUp3, MovUp3, U32assert2 err_code, MovUp3, MovUp3]"

definition push_imm :: "u32 option \<Rightarrow> operation list" where
  "push_imm imm = (case imm of Some imm \<Rightarrow> push_u32_value imm | None \<Rightarrow> [])"

definition u32widening_add :: "u32 option \<Rightarrow> operation list" where
  "u32widening_add imm = push_imm imm @ [U32add]"

definition u32add :: "u32_op_mode \<Rightarrow> u32 option \<Rightarrow> operation list" where
  "u32add op_mode imm =
     u32widening_add imm @ (if op_mode = Overflowing then [Swap] else [Swap, Drop])"

definition u32overflowing_add :: "u32 option \<Rightarrow> operation list" where
  "u32overflowing_add imm = u32widening_add imm @ [Swap]"

definition u32widening_add3 :: "operation list" where
  "u32widening_add3 = [U32add3]"

definition u32overflowing_add3 :: "operation list" where
  "u32overflowing_add3 = [U32add3] @ [Swap]"

definition u32wrapping_add3 :: "operation list" where
  "u32wrapping_add3 = [U32add3] @ [Swap, Drop]"

definition handle_arithmetic_operation :: "operation \<Rightarrow> u32_op_mode \<Rightarrow> u32 option \<Rightarrow> operation list" where
  "handle_arithmetic_operation op op_mode imm =
     push_imm imm @ [op] @
     (if op_mode = Wrapping then (if op = U32mul \<or> op = U32add then [Swap, Drop] else [Drop]) else [])"

definition u32sub :: "u32_op_mode \<Rightarrow> u32 option \<Rightarrow> operation list" where
  "u32sub op_mode imm = handle_arithmetic_operation U32sub op_mode imm"

definition u32mul :: "u32_op_mode \<Rightarrow> u32 option \<Rightarrow> operation list" where
  "u32mul op_mode imm = handle_arithmetic_operation U32mul op_mode imm"

definition handle_division :: "u32 option \<Rightarrow> lowered" where
  "handle_division imm =
     (case imm of
        Some imm \<Rightarrow> if imm = 0 then Inl DivisionByZero else Inr (push_u32_value imm @ [U32div])
      | None \<Rightarrow> Inr [U32div])"

definition u32div :: "u32 option \<Rightarrow> lowered" where
  "u32div imm = res_map (\<lambda>ops. ops @ [Drop]) (handle_division imm)"

definition u32mod :: "u32 option \<Rightarrow> lowered" where
  "u32mod imm = res_map (\<lambda>ops. ops @ [Swap, Drop]) (handle_division imm)"

definition u32divmod :: "u32 option \<Rightarrow> lowered" where
  "u32divmod imm = handle_division imm"

definition u32not :: "operation list" where
  "u32not = [Push (felt_from_u32 0xFFFFFFFF), U32assert2 0, Swap, U32sub, Drop]"

definition prepare_bitwise :: "nat \<Rightarrow> 8 word option \<Rightarrow> lowered" where
  "prepare_bitwise MAX_VALUE imm =
     (case imm of
        Some imm \<Rightarrow>
          if imm = 0 then Inr [Noop]
          else if imm = 0 \<or> unat imm > MAX_VALUE then Inl (ArgumentOutOfRange MAX_VALUE)
          else Inr [Push (felt_from_u64 (push_bit (unat imm) 1))]
      | None \<Rightarrow> Inr append_pow2_op)"

definition u32shl :: "8 word option \<Rightarrow> lowered" where
  "u32shl imm = res_map (\<lambda>ops. ops @ (if imm \<noteq> Some 0 then [U32mul, Swap, Drop] else []))
     (prepare_bitwise MAX_U32_SHIFT_VALUE imm)"

definition u32shr :: "8 word option \<Rightarrow> lowered" where
  "u32shr imm = res_map (\<lambda>ops. ops @ (if imm \<noteq> Some 0 then [U32div, Drop] else []))
     (prepare_bitwise MAX_U32_SHIFT_VALUE imm)"

definition u32rotl :: "8 word option \<Rightarrow> lowered" where
  "u32rotl imm = res_map (\<lambda>ops. ops @ (if imm \<noteq> Some 0 then [U32mul, Add] else []))
     (prepare_bitwise MAX_U32_ROTATE_VALUE imm)"

definition u32rotr :: "8 word option \<Rightarrow> lowered" where
  "u32rotr imm =
     (case imm of
        Some imm \<Rightarrow>
          if imm = 0 then Inr [Noop]
          else if imm = 0 \<or> unat imm > MAX_U32_ROTATE_VALUE then Inl (ArgumentOutOfRange MAX_U32_ROTATE_VALUE)
          else Inr ([Push (felt_from_u64 (push_bit (32 - unat imm) 1))] @ [U32mul, Add])
      | None \<Rightarrow> Inr ([Push 32, Swap, U32sub, Drop] @ append_pow2_op @ [Mul, U32split, Add]))"

definition u32popcnt :: "operation list" where
  "u32popcnt =
     [Dup0,
      Push 2, U32div, Drop,
      Push 0x55555555,
      U32and,
      U32sub, Drop,
      Dup0,
      Push 4, U32div, Drop,
      Push 0x33333333,
      U32and,
      Swap,
      Push 0x33333333,
      U32and,
      U32add, Swap, Drop,
      Dup0,
      Push 16, U32div, Drop,
      U32add, Swap, Drop,
      Push 0x0F0F0F0F,
      U32and,
      Push 0x01010101,
      U32mul, Swap, Drop,
      Push 16777216, U32div, Drop]"

definition verify_clz :: "operation list" where
  "verify_clz =
     [Push 32, Dup1, Neg, Add] @ append_pow2_op @
     [Push 1, Neg, Add,
      Push 2, U32div, Drop,
      Dup0, Incr,
      Push (felt_from_u32 0xFFFFFFFF), MovUp2, Neg, Add,
      Dup3, Eqz, MovDn3, MovUp4, U32and,
      Dup2, Push 32, Eq, MovUp4, Dup1, Eq, Assert 0,
      MovDn2, Eq, Or, Assert 0]"

definition verify_clo :: "operation list" where
  "verify_clo =
     [Push 32, Dup1, Neg, Add] @ append_pow2_op @
     [Push 1, Neg, Add,
      Dup0, Push 2, U32div, Drop,
      Push (felt_from_u32 0xFFFFFFFF), Swap, Neg, Add,
      MovUp3, U32and,
      Push (felt_from_u32 0xFFFFFFFF), MovUp2, Neg, Add,
      Eq, Assert 0]"

definition verify_ctz :: "operation list" where
  "verify_ctz =
     [Swap, Dup1] @ append_pow2_op @
     [Dup0,
      Pad, Incr, Neg, Add,
      Swap, U32split, Swap, Drop,
      Dup0, MovUp2, Add,
      MovUp2, U32and,
      Eq, Assert 0]"

definition verify_cto :: "operation list" where
  "verify_cto =
     [Swap, Dup1] @ append_pow2_op @
     [Dup0,
      Pad, Incr, Neg, Add,
      Swap, U32split, Swap, Drop,
      Dup1, Add,
      MovUp2, U32and,
      Eq, Assert 0]"

definition u32clz :: "operation list" where
  "u32clz = push_system_event U32Clz @ [AdvPop] @ verify_clz"

definition u32ctz :: "operation list" where
  "u32ctz = push_system_event U32Ctz @ [AdvPop] @ verify_ctz"

definition u32clo :: "operation list" where
  "u32clo = push_system_event U32Clo @ [AdvPop] @ verify_clo"

definition u32cto :: "operation list" where
  "u32cto = push_system_event U32Cto @ [AdvPop] @ verify_cto"

definition compute_lt :: "operation list" where
  "compute_lt = [U32sub, Swap, Drop]"

definition compute_max_and_min :: "operation list" where
  "compute_max_and_min = [Dup1, Dup1] @ [U32sub, Swap, Drop, Eqz, CSwap]"

definition u32lt :: "operation list" where
  "u32lt = compute_lt"

definition u32lte :: "operation list" where
  "u32lte = [Swap] @ compute_lt @ [Not_op]"

definition u32gt :: "operation list" where
  "u32gt = [Swap] @ compute_lt"

definition u32gte :: "operation list" where
  "u32gte = compute_lt @ [Not_op]"

definition u32min :: "operation list" where
  "u32min = compute_max_and_min @ [Drop]"

definition u32max :: "operation list" where
  "u32max = compute_max_and_min @ [Swap, Drop]"

datatype (plugins only: code size) u32_instruction =
    I_U32Test | I_U32TestW | I_U32Assert | I_U32AssertWithError string | I_U32Assert2 | I_U32Assert2WithError string
  | I_U32AssertW | I_U32AssertWWithError string | I_U32Split | I_U32Cast
  | I_U32WrappingAdd | I_U32WrappingAddImm u32 | I_U32OverflowingAdd | I_U32OverflowingAddImm u32
  | I_U32WideningAdd | I_U32WideningAddImm u32 | I_U32OverflowingAdd3 | I_U32WideningAdd3 | I_U32WrappingAdd3
  | I_U32WrappingSub | I_U32WrappingSubImm u32 | I_U32OverflowingSub | I_U32OverflowingSubImm u32
  | I_U32WrappingMul | I_U32WrappingMulImm u32 | I_U32WideningMul | I_U32WideningMulImm u32
  | I_U32WideningMadd | I_U32WrappingMadd
  | I_U32Div | I_U32DivImm u32 | I_U32Mod | I_U32ModImm u32 | I_U32DivMod | I_U32DivModImm u32
  | I_U32And | I_U32Or | I_U32Xor | I_U32Not
  | I_U32Shr | I_U32ShrImm "8 word" | I_U32Shl | I_U32ShlImm "8 word"
  | I_U32Rotr | I_U32RotrImm "8 word" | I_U32Rotl | I_U32RotlImm "8 word"
  | I_U32Popcnt | I_U32Ctz | I_U32Clz | I_U32Clo | I_U32Cto
  | I_U32Lt | I_U32Lte | I_U32Gt | I_U32Gte | I_U32Min | I_U32Max

primrec compile_u32 :: "(string \<Rightarrow> felt) \<Rightarrow> u32_instruction \<Rightarrow> lowered" where
  "compile_u32 error_code I_U32Test = Inr [Dup0, U32split, Drop, Eqz]"
| "compile_u32 error_code I_U32TestW = Inr u32testw"
| "compile_u32 error_code I_U32Assert = Inr [Pad, U32assert2 0, Drop]"
| "compile_u32 error_code (I_U32AssertWithError err_msg) = Inr [Pad, U32assert2 (error_code err_msg), Drop]"
| "compile_u32 error_code I_U32Assert2 = Inr [U32assert2 0]"
| "compile_u32 error_code (I_U32Assert2WithError err_msg) = Inr [U32assert2 (error_code err_msg)]"
| "compile_u32 error_code I_U32AssertW = Inr (u32assertw 0)"
| "compile_u32 error_code (I_U32AssertWWithError err_msg) = Inr (u32assertw (error_code err_msg))"
| "compile_u32 error_code I_U32Split = Inr [U32split]"
| "compile_u32 error_code I_U32Cast = Inr [U32split, Swap, Drop]"
| "compile_u32 error_code I_U32WrappingAdd = Inr (u32add Wrapping None)"
| "compile_u32 error_code (I_U32WrappingAddImm v) = Inr (u32add Wrapping (Some v))"
| "compile_u32 error_code I_U32OverflowingAdd = Inr (u32overflowing_add None)"
| "compile_u32 error_code (I_U32OverflowingAddImm v) = Inr (u32overflowing_add (Some v))"
| "compile_u32 error_code I_U32WideningAdd = Inr (u32widening_add None)"
| "compile_u32 error_code (I_U32WideningAddImm v) = Inr (u32widening_add (Some v))"
| "compile_u32 error_code I_U32OverflowingAdd3 = Inr u32overflowing_add3"
| "compile_u32 error_code I_U32WideningAdd3 = Inr u32widening_add3"
| "compile_u32 error_code I_U32WrappingAdd3 = Inr u32wrapping_add3"
| "compile_u32 error_code I_U32WrappingSub = Inr (u32sub Wrapping None)"
| "compile_u32 error_code (I_U32WrappingSubImm v) = Inr (u32sub Wrapping (Some v))"
| "compile_u32 error_code I_U32OverflowingSub = Inr (u32sub Overflowing None)"
| "compile_u32 error_code (I_U32OverflowingSubImm v) = Inr (u32sub Overflowing (Some v))"
| "compile_u32 error_code I_U32WrappingMul = Inr (u32mul Wrapping None)"
| "compile_u32 error_code (I_U32WrappingMulImm v) = Inr (u32mul Wrapping (Some v))"
| "compile_u32 error_code I_U32WideningMul = Inr (u32mul Overflowing None)"
| "compile_u32 error_code (I_U32WideningMulImm v) = Inr (u32mul Overflowing (Some v))"
| "compile_u32 error_code I_U32WideningMadd = Inr [U32madd]"
| "compile_u32 error_code I_U32WrappingMadd = Inr [U32madd, Swap, Drop]"
| "compile_u32 error_code I_U32Div = u32div None"
| "compile_u32 error_code (I_U32DivImm v) = u32div (Some v)"
| "compile_u32 error_code I_U32Mod = u32mod None"
| "compile_u32 error_code (I_U32ModImm v) = u32mod (Some v)"
| "compile_u32 error_code I_U32DivMod = u32divmod None"
| "compile_u32 error_code (I_U32DivModImm v) = u32divmod (Some v)"
| "compile_u32 error_code I_U32And = Inr [U32and]"
| "compile_u32 error_code I_U32Or = Inr [Dup1, Dup1, U32and, Neg, Add, Add]"
| "compile_u32 error_code I_U32Xor = Inr [U32xor]"
| "compile_u32 error_code I_U32Not = Inr u32not"
| "compile_u32 error_code I_U32Shr = u32shr None"
| "compile_u32 error_code (I_U32ShrImm v) = u32shr (Some v)"
| "compile_u32 error_code I_U32Shl = u32shl None"
| "compile_u32 error_code (I_U32ShlImm v) = u32shl (Some v)"
| "compile_u32 error_code I_U32Rotr = u32rotr None"
| "compile_u32 error_code (I_U32RotrImm v) = u32rotr (Some v)"
| "compile_u32 error_code I_U32Rotl = u32rotl None"
| "compile_u32 error_code (I_U32RotlImm v) = u32rotl (Some v)"
| "compile_u32 error_code I_U32Popcnt = Inr u32popcnt"
| "compile_u32 error_code I_U32Ctz = Inr u32ctz"
| "compile_u32 error_code I_U32Clz = Inr u32clz"
| "compile_u32 error_code I_U32Clo = Inr u32clo"
| "compile_u32 error_code I_U32Cto = Inr u32cto"
| "compile_u32 error_code I_U32Lt = Inr u32lt"
| "compile_u32 error_code I_U32Lte = Inr u32lte"
| "compile_u32 error_code I_U32Gt = Inr u32gt"
| "compile_u32 error_code I_U32Gte = Inr u32gte"
| "compile_u32 error_code I_U32Min = Inr u32min"
| "compile_u32 error_code I_U32Max = Inr u32max"

section \<open>Semantics of the instructions\<close>

text \<open>\<open>u32_operands\<close> is the number of elements on top of the stack that have to be 32-bit values;
  the instructions that test for 32-bit values accept every element.\<close>

primrec u32_operands :: "u32_instruction \<Rightarrow> nat" where
  "u32_operands I_U32Test = 0" | "u32_operands I_U32TestW = 0" | "u32_operands I_U32Assert = 0"
| "u32_operands (I_U32AssertWithError _) = 0" | "u32_operands I_U32Assert2 = 0" | "u32_operands (I_U32Assert2WithError _) = 0"
| "u32_operands I_U32AssertW = 0" | "u32_operands (I_U32AssertWWithError _) = 0"
| "u32_operands I_U32Split = 0" | "u32_operands I_U32Cast = 0"
| "u32_operands I_U32WrappingAdd = 2" | "u32_operands (I_U32WrappingAddImm _) = 1"
| "u32_operands I_U32OverflowingAdd = 2" | "u32_operands (I_U32OverflowingAddImm _) = 1"
| "u32_operands I_U32WideningAdd = 2" | "u32_operands (I_U32WideningAddImm _) = 1"
| "u32_operands I_U32OverflowingAdd3 = 3" | "u32_operands I_U32WideningAdd3 = 3" | "u32_operands I_U32WrappingAdd3 = 3"
| "u32_operands I_U32WrappingSub = 2" | "u32_operands (I_U32WrappingSubImm _) = 1"
| "u32_operands I_U32OverflowingSub = 2" | "u32_operands (I_U32OverflowingSubImm _) = 1"
| "u32_operands I_U32WrappingMul = 2" | "u32_operands (I_U32WrappingMulImm _) = 1"
| "u32_operands I_U32WideningMul = 2" | "u32_operands (I_U32WideningMulImm _) = 1"
| "u32_operands I_U32WideningMadd = 3" | "u32_operands I_U32WrappingMadd = 3"
| "u32_operands I_U32Div = 2" | "u32_operands (I_U32DivImm _) = 1" | "u32_operands I_U32Mod = 2" | "u32_operands (I_U32ModImm _) = 1"
| "u32_operands I_U32DivMod = 2" | "u32_operands (I_U32DivModImm _) = 1"
| "u32_operands I_U32And = 2" | "u32_operands I_U32Or = 2" | "u32_operands I_U32Xor = 2" | "u32_operands I_U32Not = 1"
| "u32_operands I_U32Shr = 2" | "u32_operands (I_U32ShrImm _) = 1" | "u32_operands I_U32Shl = 2" | "u32_operands (I_U32ShlImm _) = 1"
| "u32_operands I_U32Rotr = 2" | "u32_operands (I_U32RotrImm _) = 1" | "u32_operands I_U32Rotl = 2" | "u32_operands (I_U32RotlImm _) = 1"
| "u32_operands I_U32Popcnt = 1" | "u32_operands I_U32Ctz = 1" | "u32_operands I_U32Clz = 1" | "u32_operands I_U32Clo = 1" | "u32_operands I_U32Cto = 1"
| "u32_operands I_U32Lt = 2" | "u32_operands I_U32Lte = 2" | "u32_operands I_U32Gt = 2" | "u32_operands I_U32Gte = 2"
| "u32_operands I_U32Min = 2" | "u32_operands I_U32Max = 2"

definition assert_u32 :: "(felt \<Rightarrow> string option) \<Rightarrow> felt \<Rightarrow> felt list \<Rightarrow> felt stream \<Rightarrow> operation_error + felt stream" where
  "assert_u32 resolve e xs s =
     (if not_u32 xs = [] then Inr s
      else Inl (if e \<noteq> 0 then U32AssertionFailed e (resolve e) (not_u32 xs) else NotU32Values (not_u32 xs)))"

definition rotate_left32 :: "nat \<Rightarrow> u32 \<Rightarrow> u32" where
  "rotate_left32 n w = push_bit n w OR drop_bit (32 - n) w"

definition rotate_right32 :: "nat \<Rightarrow> u32 \<Rightarrow> u32" where
  "rotate_right32 n w = drop_bit n w OR push_bit (32 - n) w"

text \<open>A distance of 32 to 63 gives a power of two that is no 32-bit value, a larger one fails in the
  computation of the power.\<close>

definition shift_by :: "(felt \<Rightarrow> string option) \<Rightarrow> u32 \<Rightarrow> (nat \<Rightarrow> u32) \<Rightarrow> felt stream \<Rightarrow> operation_error + felt stream" where
  "shift_by resolve n f t =
     (if unat n < 32 then Inr (felt_from_u32 (f (unat n)) ## t)
      else if unat n < 64 then Inl (NotU32Values [2 ^ unat n])
      else Inl (FailedAssertion 0 (resolve 0)))"

text \<open>The rotation to the right by a distance on the stack subtracts the distance from 32 in 32-bit arithmetic: a
  distance that wraps around to less than 64 is not rejected.  The documentation leaves distances
  above 31 undefined.\<close>

definition words1 :: "(u32 \<Rightarrow> felt stream \<Rightarrow> operation_error + felt stream) \<Rightarrow> (felt stream \<Rightarrow> operation_error + felt stream) option" where
  "words1 f = Some (\<lambda>s. case s of a ## t \<Rightarrow> f (lo32 a) t)"

definition words2 :: "(u32 \<Rightarrow> u32 \<Rightarrow> felt stream \<Rightarrow> operation_error + felt stream) \<Rightarrow> (felt stream \<Rightarrow> operation_error + felt stream) option" where
  "words2 f = Some (\<lambda>s. case s of b ## a ## t \<Rightarrow> f (lo32 b) (lo32 a) t)"

definition words3 ::
    "(u32 \<Rightarrow> u32 \<Rightarrow> u32 \<Rightarrow> felt stream \<Rightarrow> operation_error + felt stream) \<Rightarrow> (felt stream \<Rightarrow> operation_error + felt stream) option" where
  "words3 f = Some (\<lambda>s. case s of c ## b ## a ## t \<Rightarrow> f (lo32 c) (lo32 b) (lo32 a) t)"

primrec u32_semantics ::
    "(felt \<Rightarrow> string option) \<Rightarrow> (string \<Rightarrow> felt) \<Rightarrow> u32_instruction \<Rightarrow> (felt stream \<Rightarrow> operation_error + felt stream) option" where
  "u32_semantics r ec I_U32Test = Some (\<lambda>s. Inr (felt_from_bool (is_u32 (shd s)) ## s))"
| "u32_semantics r ec I_U32TestW = Some (\<lambda>s. Inr (felt_from_bool (\<forall>i<4. is_u32 (s !! i)) ## s))"
| "u32_semantics r ec I_U32Assert = Some (\<lambda>s. assert_u32 r 0 (stake 1 s) s)"
| "u32_semantics r ec (I_U32AssertWithError m) = Some (\<lambda>s. assert_u32 r (ec m) (stake 1 s) s)"
| "u32_semantics r ec I_U32Assert2 = Some (\<lambda>s. assert_u32 r 0 (stake 2 s) s)"
| "u32_semantics r ec (I_U32Assert2WithError m) = Some (\<lambda>s. assert_u32 r (ec m) (stake 2 s) s)"
| "u32_semantics r ec I_U32AssertW = Some (\<lambda>s. res_bind (assert_u32 r 0 (stake 2 s) s) (assert_u32 r 0 (stake 2 (sdrop 2 s))))"
| "u32_semantics r ec (I_U32AssertWWithError m) =
     Some (\<lambda>s. res_bind (assert_u32 r (ec m) (stake 2 s) s) (assert_u32 r (ec m) (stake 2 (sdrop 2 s))))"
| "u32_semantics r ec I_U32Split = Some (\<lambda>s. Inr (felt_from_u32 (lo32 (shd s)) ## felt_from_u32 (hi32 (shd s)) ## stl s))"
| "u32_semantics r ec I_U32Cast = Some (\<lambda>s. Inr (felt_from_u32 (lo32 (shd s)) ## stl s))"
| "u32_semantics r ec I_U32WrappingAdd = words2 (\<lambda>b a t. Inr (felt_from_u32 (a + b) ## t))"
| "u32_semantics r ec (I_U32WrappingAddImm b) = words1 (\<lambda>a t. Inr (felt_from_u32 (a + b) ## t))"
| "u32_semantics r ec I_U32OverflowingAdd = words2 (\<lambda>b a t. Inr (felt_from_bool (2 ^ 32 \<le> uint a + uint b) ## felt_from_u32 (a + b) ## t))"
| "u32_semantics r ec (I_U32OverflowingAddImm b) = words1 (\<lambda>a t. Inr (felt_from_bool (2 ^ 32 \<le> uint a + uint b) ## felt_from_u32 (a + b) ## t))"
| "u32_semantics r ec I_U32WideningAdd = words2 (\<lambda>b a t. Inr (felt_from_u32 (a + b) ## felt_from_bool (2 ^ 32 \<le> uint a + uint b) ## t))"
| "u32_semantics r ec (I_U32WideningAddImm b) = words1 (\<lambda>a t. Inr (felt_from_u32 (a + b) ## felt_from_bool (2 ^ 32 \<le> uint a + uint b) ## t))"
| "u32_semantics r ec I_U32OverflowingAdd3 = words3 (\<lambda>c b a t.
     Inr (of_int ((uint a + uint b + uint c) div 2 ^ 32) ## felt_from_u32 (a + b + c) ## t))"
| "u32_semantics r ec I_U32WideningAdd3 = words3 (\<lambda>c b a t.
     Inr (felt_from_u32 (a + b + c) ## of_int ((uint a + uint b + uint c) div 2 ^ 32) ## t))"
| "u32_semantics r ec I_U32WrappingAdd3 = words3 (\<lambda>c b a t. Inr (felt_from_u32 (a + b + c) ## t))"
| "u32_semantics r ec I_U32WrappingSub = words2 (\<lambda>b a t. Inr (felt_from_u32 (a - b) ## t))"
| "u32_semantics r ec (I_U32WrappingSubImm b) = words1 (\<lambda>a t. Inr (felt_from_u32 (a - b) ## t))"
| "u32_semantics r ec I_U32OverflowingSub = words2 (\<lambda>b a t. Inr (felt_from_bool (a < b) ## felt_from_u32 (a - b) ## t))"
| "u32_semantics r ec (I_U32OverflowingSubImm b) = words1 (\<lambda>a t. Inr (felt_from_bool (a < b) ## felt_from_u32 (a - b) ## t))"
| "u32_semantics r ec I_U32WrappingMul = words2 (\<lambda>b a t. Inr (felt_from_u32 (a * b) ## t))"
| "u32_semantics r ec (I_U32WrappingMulImm b) = words1 (\<lambda>a t. Inr (felt_from_u32 (a * b) ## t))"
| "u32_semantics r ec I_U32WideningMul = words2 (\<lambda>b a t. Inr (felt_from_u32 (a * b) ## felt_from_u32 (mul_high a b 0) ## t))"
| "u32_semantics r ec (I_U32WideningMulImm b) = words1 (\<lambda>a t. Inr (felt_from_u32 (a * b) ## felt_from_u32 (mul_high a b 0) ## t))"
| "u32_semantics r ec I_U32WideningMadd = words3 (\<lambda>b a c t. Inr (felt_from_u32 (a * b + c) ## felt_from_u32 (mul_high a b c) ## t))"
| "u32_semantics r ec I_U32WrappingMadd = words3 (\<lambda>b a c t. Inr (felt_from_u32 (a * b + c) ## t))"
| "u32_semantics r ec I_U32Div = words2 (\<lambda>b a t. if b = 0 then Inl DivideByZero else Inr (felt_from_u32 (a div b) ## t))"
| "u32_semantics r ec (I_U32DivImm b) = words1 (\<lambda>a t. Inr (felt_from_u32 (a div b) ## t))"
| "u32_semantics r ec I_U32Mod = words2 (\<lambda>b a t. if b = 0 then Inl DivideByZero else Inr (felt_from_u32 (a mod b) ## t))"
| "u32_semantics r ec (I_U32ModImm b) = words1 (\<lambda>a t. Inr (felt_from_u32 (a mod b) ## t))"
| "u32_semantics r ec I_U32DivMod = words2 (\<lambda>b a t. if b = 0 then Inl DivideByZero else Inr (felt_from_u32 (a mod b) ## felt_from_u32 (a div b) ## t))"
| "u32_semantics r ec (I_U32DivModImm b) = words1 (\<lambda>a t. Inr (felt_from_u32 (a mod b) ## felt_from_u32 (a div b) ## t))"
| "u32_semantics r ec I_U32And = words2 (\<lambda>b a t. Inr (felt_from_u32 (a AND b) ## t))"
| "u32_semantics r ec I_U32Or = words2 (\<lambda>b a t. Inr (felt_from_u32 (a OR b) ## t))"
| "u32_semantics r ec I_U32Xor = words2 (\<lambda>b a t. Inr (felt_from_u32 (a XOR b) ## t))"
| "u32_semantics r ec I_U32Not = words1 (\<lambda>a t. Inr (felt_from_u32 (NOT a) ## t))"
| "u32_semantics r ec I_U32Shr = words2 (\<lambda>n a t. shift_by r n (\<lambda>n. drop_bit n a) t)"
| "u32_semantics r ec (I_U32ShrImm n) = words1 (\<lambda>a t. Inr (felt_from_u32 (drop_bit (unat n) a) ## t))"
| "u32_semantics r ec I_U32Shl = words2 (\<lambda>n a t. shift_by r n (\<lambda>n. push_bit n a) t)"
| "u32_semantics r ec (I_U32ShlImm n) = words1 (\<lambda>a t. Inr (felt_from_u32 (push_bit (unat n) a) ## t))"
| "u32_semantics r ec I_U32Rotr = words2 (\<lambda>n a t.
     if unat n \<le> 32 then Inr (felt_from_u32 (rotate_right32 (unat n) a) ## t)
     else if unat (32 - n) < 64 then
       (let p = felt_from_u32 a * 2 ^ unat (32 - n) in Inr ((felt_from_u32 (hi32 p) + felt_from_u32 (lo32 p)) ## t))
     else Inl (FailedAssertion 0 (r 0)))"
| "u32_semantics r ec (I_U32RotrImm n) = words1 (\<lambda>a t. Inr (felt_from_u32 (rotate_right32 (unat n) a) ## t))"
| "u32_semantics r ec I_U32Rotl = words2 (\<lambda>n a t. shift_by r n (\<lambda>n. rotate_left32 n a) t)"
| "u32_semantics r ec (I_U32RotlImm n) = words1 (\<lambda>a t. Inr (felt_from_u32 (rotate_left32 (unat n) a) ## t))"
| "u32_semantics r ec I_U32Popcnt = None"
| "u32_semantics r ec I_U32Ctz = None"
| "u32_semantics r ec I_U32Clz = None"
| "u32_semantics r ec I_U32Clo = None"
| "u32_semantics r ec I_U32Cto = None"
| "u32_semantics r ec I_U32Lt = words2 (\<lambda>b a t. Inr (felt_from_bool (a < b) ## t))"
| "u32_semantics r ec I_U32Lte = words2 (\<lambda>b a t. Inr (felt_from_bool (a \<le> b) ## t))"
| "u32_semantics r ec I_U32Gt = words2 (\<lambda>b a t. Inr (felt_from_bool (a > b) ## t))"
| "u32_semantics r ec I_U32Gte = words2 (\<lambda>b a t. Inr (felt_from_bool (a \<ge> b) ## t))"
| "u32_semantics r ec I_U32Min = words2 (\<lambda>b a t. Inr (felt_from_u32 (min a b) ## t))"
| "u32_semantics r ec I_U32Max = words2 (\<lambda>b a t. Inr (felt_from_u32 (max a b) ## t))"

section \<open>Arithmetic\<close>

lemma lo32_from_u32 [simp]: "lo32 (felt_from_u32 w) = w"
  by (simp add: lo32_def)

lemma run_push_u32_value:
  "run_stack resolve (push_u32_value v @ ops) s = run_stack resolve ops (felt_from_u32 v ## s)"
  by (simp add: push_u32_value_def)

lemma uint_two_power:
  assumes "n < LENGTH('a)"
  shows "uint (2 ^ n :: 'a::len word) = 2 ^ n"
proof -
  have "uint (word_of_int (2 ^ n) :: 'a word) = 2 ^ n mod 2 ^ LENGTH('a)" by (rule uint_word_of_int)
  also have "\<dots> = 2 ^ n" using assms by (intro mod_pos_pos_trivial power_strict_increasing) simp_all
  finally show ?thesis by simp
qed

lemma push_bit_one: "n < 64 \<Longrightarrow> felt_from_u64 (push_bit n 1) = 2 ^ n"
  by (simp add: felt_from_u64_def push_bit_eq_mult uint_two_power)

lemma two_power_u32: "n < 32 \<Longrightarrow> (2 ^ n :: felt) = felt_from_u32 (2 ^ n)"
  using uint_two_power [where 'a = 32, of n] by (simp add: felt_from_u32_def)

lemma not_is_u32_two_power:
  assumes "32 \<le> n" "n < 64"
  shows "\<not> is_u32 (2 ^ n)"
proof -
  from assms(1) have "(2 :: int) ^ 32 \<le> 2 ^ n" by (intro power_increasing) simp_all
  with Rep_felt_pow2 [OF assms(2)] show ?thesis by (simp add: is_u32_def)
qed

lemma u32_or: "felt_from_u32 a + (felt_from_u32 b - felt_from_u32 (a AND b)) = felt_from_u32 (a OR b)"
proof -
  have "uint a + uint b = uint (a AND b) + uint (a OR b)"
    using plus_and_or [of "uint a" "uint b"] by (simp add: uint_and uint_or)
  then have "felt_from_u32 a + felt_from_u32 b = felt_from_u32 (a AND b) + felt_from_u32 (a OR b)"
    unfolding felt_from_u32_def by (metis of_int_add)
  then show ?thesis by (simp add: algebra_simps)
qed

lemma mul_high_two_power: "n \<le> 32 \<Longrightarrow> uint a * 2 ^ n div 2 ^ 32 = uint (drop_bit (32 - n) a)" for a :: u32
proof -
  assume "n \<le> 32"
  then have "(2 :: int) ^ 32 = 2 ^ n * 2 ^ (32 - n)" by (simp only: power_add [symmetric] le_add_diff_inverse)
  then have "uint a * 2 ^ n div 2 ^ 32 = (2 ^ n * uint a) div (2 ^ n * 2 ^ (32 - n))"
    by (simp only: mult.commute)
  also have "\<dots> = uint a div 2 ^ (32 - n)" by (rule div_mult_mult1) simp
  finally have "uint a * 2 ^ n div 2 ^ 32 = uint a div 2 ^ (32 - n)" .
  moreover have "take_bit 32 (uint a) = uint a" using uint_bounded [of a] by (intro take_bit_int_eq_self) simp_all
  ultimately show ?thesis by (simp add: unsigned_drop_bit_eq drop_bit_int_def)
qed

lemma rotate_left32_sum:
  assumes "n \<le> 32"
  shows "uint (push_bit n a) + uint (drop_bit (32 - n) a) = uint (rotate_left32 n a)"
proof -
  have "push_bit n a AND drop_bit (32 - n) a = 0"
    using assms by (intro bit_word_eqI) (auto simp: bit_and_iff bit_push_bit_iff bit_drop_bit_eq dest: bit_imp_le_length)
  then have "uint (push_bit n a AND drop_bit (32 - n) a) = 0" by simp
  then show ?thesis
    using plus_and_or [of "uint (push_bit n a)" "uint (drop_bit (32 - n) a)"]
    by (simp add: rotate_left32_def uint_and uint_or)
qed

text \<open>The product with a power of two, as the 32-bit operations split it.\<close>

lemma mul_two_power:
  fixes a :: u32
  assumes "n < 32"
  shows "2 ^ n * a = push_bit n a" "a * 2 ^ n = push_bit n a" "mul_high (2 ^ n) a 0 = drop_bit (32 - n) a"
proof -
  show "2 ^ n * a = push_bit n a" "a * 2 ^ n = push_bit n a" by (simp_all add: push_bit_eq_mult mult.commute)
  have "uint (mul_high (2 ^ n) a 0) = uint (drop_bit (32 - n) a)"
    using assms mul_high_two_power [of n a] uint_two_power [where 'a = 32, of n]
    by (simp only: uint_mul_high) (simp add: mult.commute)
  then show "mul_high (2 ^ n) a 0 = drop_bit (32 - n) a" by (simp only: word_uint_eq_iff)
qed

lemma rotate_left32_felt:
  "n \<le> 32 \<Longrightarrow> felt_from_u32 (drop_bit (32 - n) a) + felt_from_u32 (push_bit n a) = felt_from_u32 (rotate_left32 n a)"
  unfolding felt_from_u32_def rotate_left32_sum [symmetric] by (simp add: add.commute)

lemma rotate_right32_eq: "n \<le> 32 \<Longrightarrow> rotate_right32 n a = rotate_left32 (32 - n) a"
  by (simp add: rotate_right32_def rotate_left32_def or.commute)

lemma mul_high_commute: "mul_high a b c = mul_high b a c"
  by (simp add: mul_high_def mult.commute)

section \<open>Correctness of the lowering\<close>

lemma is_u32_hi32: "is_u32 x \<longleftrightarrow> hi32 x = 0"
proof -
  have "hi32 x = 0 \<longleftrightarrow> Rep_felt x div 2 ^ 32 = 0" by (simp only: word_uint_eq_iff uint_hi32 uint_0_iff) simp
  also have "\<dots> \<longleftrightarrow> is_u32 x" using Rep_felt_bounds(1) [of x] by (auto simp: is_u32_def zdiv_eq_0_iff)
  finally show ?thesis ..
qed

lemma u32_lower_tests:
  assumes "s = x0 ## x1 ## x2 ## x3 ## t"
  shows "run_stack r [Dup0, U32split, Drop, Eqz] s = Some (Inr (felt_from_bool (is_u32 x0) ## s))"
    and "run_stack r u32testw s = Some (Inr (felt_from_bool (is_u32 x0 \<and> is_u32 x1 \<and> is_u32 x2 \<and> is_u32 x3) ## s))"
    and "run_stack r [Pad, U32assert2 e, Drop] s = Some (assert_u32 r e [x0] s)"
    and "run_stack r (u32assertw e) s = Some (res_bind (assert_u32 r e [x0, x1] s) (assert_u32 r e [x2, x3]))"
    and "run_stack r [U32assert2 e] s = Some (assert_u32 r e [x0, x1] s)"
    and "run_stack r [U32split] s = Some (Inr (felt_from_u32 (lo32 x0) ## felt_from_u32 (hi32 x0) ## stl s))"
    and "run_stack r [U32split, Swap, Drop] s = Some (Inr (felt_from_u32 (lo32 x0) ## stl s))"
proof -
  show "run_stack r [Dup0, U32split, Drop, Eqz] s = Some (Inr (felt_from_bool (is_u32 x0) ## s))"
    and "run_stack r u32testw s = Some (Inr (felt_from_bool (is_u32 x0 \<and> is_u32 x1 \<and> is_u32 x2 \<and> is_u32 x3) ## s))"
    by (auto simp: assms stack_rules u32testw_def is_u32_hi32 intro!: arg_cong [where f = felt_from_bool])
  show "run_stack r [Pad, U32assert2 e, Drop] s = Some (assert_u32 r e [x0] s)"
    and "run_stack r (u32assertw e) s = Some (res_bind (assert_u32 r e [x0, x1] s) (assert_u32 r e [x2, x3]))"
    and "run_stack r [U32assert2 e] s = Some (assert_u32 r e [x0, x1] s)"
    and "run_stack r [U32split] s = Some (Inr (felt_from_u32 (lo32 x0) ## felt_from_u32 (hi32 x0) ## stl s))"
    and "run_stack r [U32split, Swap, Drop] s = Some (Inr (felt_from_u32 (lo32 x0) ## stl s))"
    by (simp_all add: assms stack_rules u32assertw_def assert_u32_def)
qed

lemmas u32_lowering_defs = u32widening_add_def u32add_def u32overflowing_add_def u32widening_add3_def u32overflowing_add3_def
  u32wrapping_add3_def handle_arithmetic_operation_def u32sub_def u32mul_def handle_division_def u32div_def u32mod_def
  u32divmod_def u32not_def push_imm_def compute_lt_def compute_max_and_min_def u32lt_def u32lte_def u32gt_def u32gte_def
  u32min_def u32max_def words1_def words2_def words3_def

lemma u32_lower_arith:
  assumes "instr \<in> {I_U32WrappingAdd, I_U32OverflowingAdd, I_U32WideningAdd, I_U32WrappingSub, I_U32OverflowingSub,
      I_U32WrappingMul, I_U32WideningMul, I_U32Div, I_U32Mod, I_U32DivMod, I_U32And, I_U32Or, I_U32Xor,
      I_U32Lt, I_U32Lte, I_U32Gt, I_U32Gte, I_U32Min, I_U32Max}"
    "compile_u32 ec instr = Inr ops" "u32_semantics r ec instr = Some f"
  shows "run_stack r ops (felt_from_u32 b ## felt_from_u32 a ## t) = Some (f (felt_from_u32 b ## felt_from_u32 a ## t))"
  using assms by (elim insertE emptyE)
    (auto simp: u32_lowering_defs stack_rules u32_or [simplified] not_less not_le min_def max_def
      add.commute [of b a] add.commute [of "uint b" "uint a"] mult.commute [of b a] mul_high_commute [of b a]
      and.commute [of b a] xor.commute [of b a])

lemma u32_lower_imm:
  assumes "instr \<in> {I_U32WrappingAddImm v, I_U32OverflowingAddImm v, I_U32WideningAddImm v, I_U32WrappingSubImm v, I_U32OverflowingSubImm v,
      I_U32WrappingMulImm v, I_U32WideningMulImm v, I_U32DivImm v, I_U32ModImm v, I_U32DivModImm v, I_U32Not}"
    "compile_u32 ec instr = Inr ops" "u32_semantics r ec instr = Some f"
  shows "run_stack r ops (felt_from_u32 a ## t) = Some (f (felt_from_u32 a ## t))"
  using assms by (elim insertE emptyE)
    (auto simp: u32_lowering_defs run_push_u32_value stack_rules not_eq_complement
      add.commute [of v a] add.commute [of "uint v" "uint a"] mult.commute [of v a] mul_high_commute [of v a] split: if_splits)

lemma add3_commute: "c + b + a = a + b + (c :: 'a::ab_semigroup_add)"
  by (simp add: ac_simps)

lemma u32_lower_3:
  assumes "instr \<in> {I_U32OverflowingAdd3, I_U32WideningAdd3, I_U32WrappingAdd3, I_U32WideningMadd, I_U32WrappingMadd}"
    "compile_u32 ec instr = Inr ops" "u32_semantics r ec instr = Some f"
  shows "run_stack r ops (felt_from_u32 c ## felt_from_u32 b ## felt_from_u32 a ## t) =
    Some (f (felt_from_u32 c ## felt_from_u32 b ## felt_from_u32 a ## t))"
  using assms by (elim insertE emptyE) (auto simp: u32_lowering_defs stack_rules
      add3_commute [of c] add3_commute [of "uint c"] mult.commute [of c b] mul_high_commute [of c b])

end
