(* ===== verification/Asm_Shift.thy ===== *)
theory Asm_Shift
  imports Asm_U32
begin

text \<open>
  Shifts and rotations of the 32-bit instruction group, and the correctness theorem of the lowering of
  the whole group.
\<close>

unbundle bit_operations_syntax

text \<open>Shifts and rotations: by an immediate distance below 32, and by a distance on the stack.\<close>

lemma run_shift_tail:
  assumes "n < 32"
  shows "run_stack r [U32mul, Swap, Drop] (2 ^ n ## felt_from_u32 a ## t) = Some (Inr (felt_from_u32 (push_bit n a) ## t))"
    and "run_stack r [U32div, Drop] (2 ^ n ## felt_from_u32 a ## t) = Some (Inr (felt_from_u32 (drop_bit n a) ## t))"
    and "run_stack r [U32mul, Add] (2 ^ n ## felt_from_u32 a ## t) = Some (Inr (felt_from_u32 (rotate_left32 n a) ## t))"
proof -
  have "(2 ^ n :: u32) \<noteq> 0" using uint_two_power [where 'a = 32, of n] assms by (auto simp: word_uint_eq_iff)
  then show "run_stack r [U32div, Drop] (2 ^ n ## felt_from_u32 a ## t) = Some (Inr (felt_from_u32 (drop_bit n a) ## t))"
    unfolding two_power_u32 [OF assms] by (simp add: stack_rules drop_bit_eq_div)
  show "run_stack r [U32mul, Swap, Drop] (2 ^ n ## felt_from_u32 a ## t) = Some (Inr (felt_from_u32 (push_bit n a) ## t))"
    "run_stack r [U32mul, Add] (2 ^ n ## felt_from_u32 a ## t) = Some (Inr (felt_from_u32 (rotate_left32 n a) ## t))"
    unfolding two_power_u32 [OF assms] using assms rotate_left32_felt [of n a]
    by (simp_all add: stack_rules mul_two_power)
qed

lemma run_shift_tail_error:
  assumes "32 \<le> n" "n < 64"
  shows "run_stack r (U32mul # ops) (2 ^ n ## felt_from_u32 a ## t) = Some (Inl (NotU32Values [2 ^ n]))"
    and "run_stack r (U32div # ops) (2 ^ n ## felt_from_u32 a ## t) = Some (Inl (NotU32Values [2 ^ n]))"
  using not_is_u32_two_power [OF assms] by (simp_all add: stack_rules)

lemma run_shift_by:
  assumes "\<And>n. n < 32 \<Longrightarrow> run_stack r (op # ops) (2 ^ n ## felt_from_u32 a ## t) = Some (Inr (felt_from_u32 (f n) ## t))"
    and "op = U32mul \<or> op = U32div"
  shows "run_stack r (append_pow2_op @ op # ops) (felt_from_u32 n ## felt_from_u32 a ## t) = Some (shift_by r n f t)"
proof -
  have "Rep_felt (felt_from_u32 n) = int (unat n)" by simp
  then have "Rep_felt (felt_from_u32 n) < 64 \<longleftrightarrow> unat n < 64" "nat (Rep_felt (felt_from_u32 n)) = unat n"
    by linarith+
  then have run: "run_stack r (append_pow2_op @ op # ops) (felt_from_u32 n ## felt_from_u32 a ## t) =
      (if unat n < 64 then run_stack r (op # ops) (2 ^ unat n ## felt_from_u32 a ## t) else Some (Inl (FailedAssertion 0 (r 0))))"
    by (simp only: run_stack_append_if [OF run_append_pow2_op])
  show ?thesis
  proof (cases "unat n < 32")
    case True
    then show ?thesis by (simp add: run shift_by_def assms(1) del: run_stack.simps)
  next
    case False
    then show ?thesis using assms(2) run_shift_tail_error [of "unat n" r ops a t]
      by (auto simp add: run shift_by_def simp del: run_stack.simps)
  qed
qed

lemma u32_lower_shift:
  assumes "instr \<in> {I_U32Shr, I_U32Shl, I_U32Rotl}"
    "compile_u32 ec instr = Inr ops" "u32_semantics r ec instr = Some f"
  shows "run_stack r ops (felt_from_u32 n ## felt_from_u32 a ## t) = Some (f (felt_from_u32 n ## felt_from_u32 a ## t))"
  using assms run_shift_by [OF run_shift_tail(1), where a = a and t = t and n = n]
    run_shift_by [OF run_shift_tail(2), where a = a and t = t and n = n]
    run_shift_by [OF run_shift_tail(3), where a = a and t = t and n = n]
  by (elim insertE emptyE)
     (auto simp: u32shl_def u32shr_def u32rotl_def prepare_bitwise_def words2_def simp del: run_stack.simps)

lemma u32_lower_shift_imm:
  assumes "instr \<in> {I_U32ShrImm v, I_U32ShlImm v, I_U32RotlImm v, I_U32RotrImm v}"
    "compile_u32 ec instr = Inr ops" "u32_semantics r ec instr = Some f"
  shows "run_stack r ops (felt_from_u32 a ## t) = Some (f (felt_from_u32 a ## t))"
proof (cases "v = 0")
  case True
  with assms show ?thesis
    by (elim insertE emptyE) (auto simp: u32shl_def u32shr_def u32rotl_def u32rotr_def prepare_bitwise_def words1_def
        rotate_left32_def rotate_right32_def)
next
  case False
  then have pos: "0 < unat v" by (simp add: unat_gt_0)
  show ?thesis
  proof (cases "unat v \<le> 31")
    case True
    have pow: "felt_from_u64 (push_bit (unat v) 1) = 2 ^ unat v" "felt_from_u64 (push_bit (32 - unat v) 1) = 2 ^ (32 - unat v)"
      using True by (intro push_bit_one; simp)+
    note pow = pow [simplified]
    from True pos have less: "unat v < 32" "32 - unat v < 32" by simp_all
    have head: "run_stack r (Push x # ops') s = run_stack r ops' (x ## s)" for x ops' s by simp
    have rot: "rotate_right32 (unat v) a = rotate_left32 (32 - unat v) a" using True by (intro rotate_right32_eq) simp
    show ?thesis using assms False True
      by (elim insertE emptyE)
         (auto simp: u32shl_def u32shr_def u32rotl_def u32rotr_def prepare_bitwise_def words1_def lowering pow head rot
           run_shift_tail [OF less(1)] run_shift_tail [OF less(2)] simp del: run_stack.simps)
  next
    case False2: False
    with assms False show ?thesis
      by (elim insertE emptyE) (auto simp: u32shl_def u32shr_def u32rotl_def u32rotr_def prepare_bitwise_def lowering)
  qed
qed

text \<open>The rotation to the right by a distance n on the stack multiplies by the power of \<open>32 - n\<close> in the field; the
  product with a 32-bit value stays below the modulus also for the distance 0.\<close>

lemma rotr_product:
  assumes "n \<le> 32"
  shows "Rep_felt (felt_from_u32 a * 2 ^ n) = uint a * 2 ^ n"
proof -
  have "uint a * 2 ^ n \<le> (2 ^ 32 - 1) * 2 ^ 32"
    using assms uint_bounded [of a] by (intro mult_mono power_increasing) simp_all
  then have "uint a * 2 ^ n < ORDER" by (simp add: ORDER_def)
  then have "Rep_felt (of_int (uint a * 2 ^ n)) = uint a * 2 ^ n" by (intro Rep_felt_of_int_small) simp_all
  then show ?thesis by (simp only: of_int_mult of_int_power of_int_uint_felt of_int_numeral)
qed

lemma rotr_limbs:
  assumes "n \<le> 32"
  shows "lo32 (felt_from_u32 a * 2 ^ n) = push_bit n a" "hi32 (felt_from_u32 a * 2 ^ n) = drop_bit (32 - n) a"
proof -
  have "word_of_int (uint a * 2 ^ n) = a * word_of_int (2 ^ n)" by (simp flip: wi_hom_mult)
  then show "lo32 (felt_from_u32 a * 2 ^ n) = push_bit n a"
    by (simp add: lo32_def rotr_product [OF assms] push_bit_eq_mult)
  show "hi32 (felt_from_u32 a * 2 ^ n) = drop_bit (32 - n) a"
    using mul_high_two_power [OF assms, of a]
    by (simp only: word_uint_eq_iff uint_hi32 rotr_product [OF assms])
qed

lemma u32_lower_rotr:
  assumes "compile_u32 ec I_U32Rotr = Inr ops" "u32_semantics r ec I_U32Rotr = Some f"
  shows "run_stack r ops (felt_from_u32 n ## felt_from_u32 a ## t) = Some (f (felt_from_u32 n ## felt_from_u32 a ## t))"
proof -
  have Rep: "Rep_felt (felt_from_u32 w) < 64 \<longleftrightarrow> unat w < 64" "nat (Rep_felt (felt_from_u32 w)) = unat w" for w :: u32
  proof -
    have "Rep_felt (felt_from_u32 w) = int (unat w)" by simp
    then show "Rep_felt (felt_from_u32 w) < 64 \<longleftrightarrow> unat w < 64" "nat (Rep_felt (felt_from_u32 w)) = unat w" by linarith+
  qed
  have "run_stack r [Push 32, Swap, U32sub, Drop] (felt_from_u32 n ## felt_from_u32 a ## t) =
      Some (Inr (felt_from_u32 (32 - n) ## felt_from_u32 a ## t))"
    by (simp add: felt_numeral_u32 stack_rules del: felt_numeral_eq)
  note run = run_stack_append [OF this] run_stack_append_if [OF run_append_pow2_op] Rep
  have n: "unat (32 - n) = 32 - unat n" if "unat n \<le> 32"
    using that by (simp add: unat_sub word_le_nat_alt)
  show ?thesis
  proof (cases "unat n \<le> 32")
    case True
    then have "rotate_right32 (unat n) a = rotate_left32 (32 - unat n) a" by (rule rotate_right32_eq)
    moreover have "uint (32 - n) < 64" using True Rep(1) [of "32 - n"] n by simp
    ultimately show ?thesis using True n rotate_left32_felt [of "32 - unat n" a] rotr_limbs [of "32 - unat n" a] assms
      by (auto simp: u32rotr_def words2_def run stack_rules)
  next
    case False
    moreover have "uint (32 - n) < 64 \<longleftrightarrow> unat (32 - n) < 64" using Rep(1) [of "32 - n"] by simp
    ultimately show ?thesis using assms by (auto simp: u32rotr_def words2_def run stack_rules Let_def)
  qed
qed


lemma stake_2: "stake 2 (a ## b ## t) = [a, b]"
  by (simp add: eval_nat_numeral)


end
