(* ===== verification/Asm_Bits.thy ===== *)
theory Asm_Bits
  imports Asm_Shift
begin

text \<open>
  Bit counts.  \<open>u32clz\<close>, \<open>u32ctz\<close>, \<open>u32clo\<close> and \<open>u32cto\<close> take the count from the advice stack and verify
  it: the lemmas show that the verification accepts exactly the right count.  \<open>u32popcnt\<close> adds up bits
  in parallel: it is shown equal to counting them.
\<close>

unbundle bit_operations_syntax

section \<open>Counting\<close>

text \<open>The methods \<open>leading_zeros\<close>, \<open>trailing_zeros\<close>, \<open>leading_ones\<close>, \<open>trailing_ones\<close> and \<open>count_ones\<close> of \<open>u32\<close>.\<close>

definition trailing_zeros :: "u32 \<Rightarrow> nat" where
  "trailing_zeros w = length (takeWhile (\<lambda>i. \<not> bit w i) [0..<32])"

definition leading_zeros :: "u32 \<Rightarrow> nat" where
  "leading_zeros w = length (takeWhile (\<lambda>i. \<not> bit w (31 - i)) [0..<32])"

definition trailing_ones :: "u32 \<Rightarrow> nat" where
  "trailing_ones w = length (takeWhile (\<lambda>i. bit w i) [0..<32])"

definition leading_ones :: "u32 \<Rightarrow> nat" where
  "leading_ones w = length (takeWhile (\<lambda>i. bit w (31 - i)) [0..<32])"

definition count_ones :: "u32 \<Rightarrow> nat" where
  "count_ones w = length (filter (bit w) [0..<32])"

lemma length_takeWhile_upt:
  "length (takeWhile P [0..<n]) = k \<longleftrightarrow> k \<le> n \<and> (\<forall>i<k. P i) \<and> (k < n \<longrightarrow> \<not> P k)"
proof -
  define l where "l = length (takeWhile P [0..<n])"
  have "l \<le> n" using length_takeWhile_le [of P "[0..<n]"] by (simp add: l_def)
  moreover have "P i" if "i < l" for i
    using that \<open>l \<le> n\<close> takeWhile_nth [of i P "[0..<n]"] nth_mem [of i "takeWhile P [0..<n]"]
      set_takeWhileD [of i P "[0..<n]"] by (simp add: l_def)
  moreover have "\<not> P l" if "l < n"
    using that nth_length_takeWhile [of P "[0..<n]"] by (simp add: l_def)
  ultimately have "l = k \<longleftrightarrow> k \<le> n \<and> (\<forall>i<k. P i) \<and> (k < n \<longrightarrow> \<not> P k)"
    by (metis le_neq_implies_less linorder_neqE_nat order_le_less_trans order_less_le_trans)
  then show ?thesis by (simp add: l_def)
qed

lemma trailing_ones_eq: "trailing_ones w = trailing_zeros (NOT w)"
  by (auto simp: trailing_ones_def trailing_zeros_def bit_not_iff intro!: arg_cong [where f = length] takeWhile_cong)

lemma leading_ones_eq: "leading_ones w = leading_zeros (NOT w)"
  by (auto simp: leading_ones_def leading_zeros_def bit_not_iff intro!: arg_cong [where f = length] takeWhile_cong)

section \<open>Masks\<close>

lemma uint_mask: "k \<le> 32 \<Longrightarrow> uint (mask k :: u32) = 2 ^ k - 1"
  by (simp add: uint_mask_eq min_def; simp add: mask_eq_exp_minus_1)

lemma felt_mask: "k \<le> 32 \<Longrightarrow> 2 ^ k - 1 = felt_from_u32 (mask k)"
  unfolding felt_from_u32_def by (simp add: uint_mask)

lemma felt_complement: "felt_from_u32 0xFFFFFFFF - felt_from_u32 w = felt_from_u32 (NOT w)"
proof -
  have "uint (0xFFFFFFFF - w) = uint (0xFFFFFFFF :: u32) - uint w"
    using uint_bounded [of w] by (intro uint_sub_lem [THEN iffD1]) simp
  moreover have "(0xFFFFFFFF :: u32) = - 1" by simp
  then have "NOT w = 0xFFFFFFFF - w" unfolding not_eq_complement by (simp only:) simp
  ultimately have "uint (NOT w) = 0xFFFFFFFF - uint w" by (simp only: uint_numeral) simp
  then show ?thesis by (simp add: felt_from_u32_def)
qed

lemma mask_half:
  assumes "k \<le> 32"
  shows "mask k div 2 = (mask (k - 1) :: u32)"
proof -
  have "drop_bit 1 (mask k :: u32) = mask (k - 1)"
    using assms by (intro bit_word_eqI) (auto simp: bit_drop_bit_eq bit_mask_iff)
  then show ?thesis by (simp add: drop_bit_eq_div)
qed

text \<open>The counts in terms of masked words.\<close>

lemma first_index:
  fixes k n :: nat
  assumes "k < n"
  shows "(\<forall>i<n. P i \<and> i \<le> k \<longleftrightarrow> i = k) \<longleftrightarrow> (\<forall>i<k. \<not> P i) \<and> P k"
proof
  assume L: "\<forall>i<n. P i \<and> i \<le> k \<longleftrightarrow> i = k"
  have "\<not> P i" if "i < k" for i using L [rule_format, of i] that assms by simp
  with L [rule_format, of k] assms show "(\<forall>i<k. \<not> P i) \<and> P k" by simp
next
  assume "(\<forall>i<k. \<not> P i) \<and> P k"
  then show "\<forall>i<n. P i \<and> i \<le> k \<longleftrightarrow> i = k" by (auto simp: le_less)
qed

lemma trailing_zeros_iff:
  assumes "k < 32"
  shows "trailing_zeros w = k \<longleftrightarrow> w AND mask (Suc k) = 2 ^ k"
proof -
  have "w AND mask (Suc k) = 2 ^ k \<longleftrightarrow> (\<forall>i<32. bit w i \<and> i \<le> k \<longleftrightarrow> i = k)"
    using assms by (auto simp: bit_eq_iff bit_and_iff bit_mask_iff bit_exp_iff less_Suc_eq_le)
  also have "\<dots> \<longleftrightarrow> (\<forall>i<k. \<not> bit w i) \<and> bit w k"
    using assms by (rule first_index)
  finally show ?thesis using assms by (simp add: trailing_zeros_def length_takeWhile_upt)
qed

lemma trailing_zeros_32: "trailing_zeros w = 32 \<longleftrightarrow> w = 0"
proof -
  have "w = 0 \<longleftrightarrow> (\<forall>i<32. \<not> bit w i)" by (auto simp: bit_eq_iff dest: bit_imp_le_length)
  then show ?thesis by (simp add: trailing_zeros_def length_takeWhile_upt)
qed

lemma trailing_zeros_le: "trailing_zeros w \<le> 32"
  using length_takeWhile_le [of _ "[0..<32]"] by (simp add: trailing_zeros_def)

lemma all_from_top: "(\<forall>i<32. P (31 - i)) \<longleftrightarrow> (\<forall>i<32. P (i :: nat))"
proof
  assume top: "\<forall>i<32. P (31 - i)"
  show "\<forall>i<32. P i"
  proof (intro allI impI)
    fix i :: nat
    assume "i < 32"
    with top [rule_format, of "31 - i"] show "P i" by simp
  qed
qed simp

lemma leading_zeros_iff:
  assumes "k < 32"
  shows "leading_zeros w = k \<longleftrightarrow> w AND NOT (mask (31 - k)) = 2 ^ (31 - k)"
proof -
  have "w AND NOT (mask (31 - k)) = 2 ^ (31 - k) \<longleftrightarrow> (\<forall>i<32. bit w i \<and> \<not> i < 31 - k \<longleftrightarrow> i = 31 - k)"
    using assms by (auto simp: bit_eq_iff bit_and_iff bit_not_iff bit_mask_iff bit_exp_iff)
  also have "\<dots> \<longleftrightarrow> (\<forall>i<32. bit w (31 - i) \<and> \<not> 31 - i < 31 - k \<longleftrightarrow> 31 - i = 31 - k)"
    by (rule all_from_top [symmetric])
  also have "\<dots> \<longleftrightarrow> (\<forall>i<32. bit w (31 - i) \<and> i \<le> k \<longleftrightarrow> i = k)"
    using assms by (intro all_cong) auto
  also have "\<dots> \<longleftrightarrow> (\<forall>i<k. \<not> bit w (31 - i)) \<and> bit w (31 - k)"
    using assms by (rule first_index)
  finally show ?thesis using assms by (simp add: leading_zeros_def length_takeWhile_upt)
qed

lemma leading_zeros_32: "leading_zeros w = 32 \<longleftrightarrow> w = 0"
proof -
  have "w = 0 \<longleftrightarrow> (\<forall>i<32. \<not> bit w i)" by (auto simp: bit_eq_iff dest: bit_imp_le_length)
  also have "\<dots> \<longleftrightarrow> (\<forall>i<32. \<not> bit w (31 - i))" by (rule all_from_top [symmetric])
  finally show ?thesis by (simp add: leading_zeros_def length_takeWhile_upt)
qed

lemma leading_zeros_le: "leading_zeros w \<le> 32"
  using length_takeWhile_le [of _ "[0..<32]"] by (simp add: leading_zeros_def)

section \<open>Verification of trailing counts\<close>

lemma lo32_two_power: "k < 64 \<Longrightarrow> lo32 (2 ^ k) = 2 ^ k"
  by (simp add: lo32_def Rep_felt_pow2)

lemma two_power_ge_32: "32 \<le> k \<Longrightarrow> (2 ^ k :: u32) = 0"
  by (rule bit_word_eqI) (simp add: bit_exp_iff)

text \<open>The bit mask of \<open>verify_ctz\<close> and \<open>verify_cto\<close> from the power of the count.\<close>

lemma trailing_mask:
  assumes "k < 64"
  shows "felt_from_u32 (2 ^ k) + (2 ^ k - 1) = (if k < 32 then felt_from_u32 (mask (Suc k)) else 2 ^ k - 1)"
proof (cases "k < 32")
  case True
  have "felt_from_u32 (2 ^ k) + (2 ^ k - 1) = 2 ^ Suc k - 1"
    using True by (simp add: two_power_u32 [symmetric])
  also have "\<dots> = felt_from_u32 (mask (Suc k))" using True by (intro felt_mask) simp
  finally show ?thesis using True by simp
qed (simp add: two_power_ge_32)

lemma not_is_u32_mask:
  assumes "32 < k" "k < 64"
  shows "\<not> is_u32 (2 ^ k - 1)"
proof -
  have "(2 :: int) ^ 33 \<le> 2 ^ k" using assms by (intro power_increasing) simp_all
  moreover have "(2 :: int) ^ k \<le> 2 ^ 63" using assms by (intro power_increasing) simp_all
  moreover have "Rep_felt (of_int (2 ^ k - 1)) = 2 ^ k - 1"
    using calculation by (intro Rep_felt_of_int_small) (simp_all add: ORDER_def)
  ultimately show ?thesis by (simp add: is_u32_def)
qed

lemma and_mask_32: "w AND mask 32 = (w :: u32)"
  by (rule bit_word_eqI) (simp add: bit_and_iff bit_mask_iff)

text \<open>What both verifications do after the power has been computed; \<open>y\<close> is the expected value of the masked operand.\<close>

definition masked_check :: "(felt \<Rightarrow> string option) \<Rightarrow> felt \<Rightarrow> felt \<Rightarrow> felt \<Rightarrow> felt stream \<Rightarrow> operation_error + felt stream" where
  "masked_check r n M y s =
     (if not_u32 [n, M] \<noteq> [] then Inl (NotU32Values (not_u32 [n, M]))
      else assert_that r 0 (of_int (Rep_felt n AND Rep_felt M) = y) s)"

lemma masked_check_words:
  "masked_check r (felt_from_u32 w) (felt_from_u32 m) (felt_from_u32 y) s = assert_that r 0 (w AND m = y) s"
  by (simp add: masked_check_def stack_rules)

lemma masked_check_error: "\<not> is_u32 n \<or> \<not> is_u32 M \<Longrightarrow> \<exists>e. masked_check r n M y s = Inl e"
  by (auto simp: masked_check_def not_u32_Nil)

lemma verify_ctz_tail:
  assumes "k < 64"
  shows "run_stack r [Dup0, Pad, Incr, Neg, Add, Swap, U32split, Swap, Drop, Dup0, MovUp2, Add, MovUp2, U32and, Eq, Assert 0]
       (2 ^ k ## n ## c ## t) =
     Some (masked_check r n (felt_from_u32 (2 ^ k) + (2 ^ k - 1)) (felt_from_u32 (2 ^ k)) (c ## t))"
  using assms by (auto simp: masked_check_def assert_that_def stack_rules lo32_two_power)

lemma verify_cto_tail:
  assumes "k < 64"
  shows "run_stack r [Dup0, Pad, Incr, Neg, Add, Swap, U32split, Swap, Drop, Dup1, Add, MovUp2, U32and, Eq, Assert 0]
       (2 ^ k ## n ## c ## t) =
     Some (masked_check r n (felt_from_u32 (2 ^ k) + (2 ^ k - 1)) (2 ^ k - 1) (c ## t))"
  using assms by (auto simp: masked_check_def assert_that_def stack_rules lo32_two_power)

definition accepts_count :: "(felt \<Rightarrow> string option) \<Rightarrow> operation list \<Rightarrow> (u32 \<Rightarrow> nat) \<Rightarrow> bool" where
  "accepts_count r ops cnt \<longleftrightarrow> (\<forall>c n t. \<exists>e. run_stack r ops (c ## n ## t) =
     Some (if is_u32 n \<and> Rep_felt c = int (cnt (lo32 n)) then Inr (c ## t) else Inl e))"

lemma trailing_check:
  assumes "k < 64"
    and "\<And>w. cnt w \<le> 32" "\<And>w. cnt w = 32 \<longleftrightarrow> w = ymax"
    and "\<And>w. k < 32 \<Longrightarrow> cnt w = k \<longleftrightarrow> w AND mask (Suc k) = y"
    and y: "k < 32 \<Longrightarrow> y' = felt_from_u32 y" "k = 32 \<Longrightarrow> y' = felt_from_u32 ymax"
  shows "\<exists>e. masked_check r n (felt_from_u32 (2 ^ k) + (2 ^ k - 1)) y' s =
     (if is_u32 n \<and> k = cnt (lo32 n) then Inr s else Inl e)"
proof (cases "is_u32 n")
  case True
  then obtain w where n: "n = felt_from_u32 w" by (auto simp: is_u32_iff)
  consider "k < 32" | "k = 32" | "32 < k" by linarith
  then show ?thesis
  proof cases
    case 1
    with y(1) assms(4) [OF 1, of w] show ?thesis
      unfolding trailing_mask [OF assms(1)] n by (auto simp: masked_check_words assert_that_def)
  next
    case 2
    have "(if k < 32 then felt_from_u32 (mask (Suc k)) else 2 ^ k - 1) = felt_from_u32 (mask 32)"
      using 2 felt_mask [of 32] by simp
    then have "masked_check r n (felt_from_u32 (2 ^ k) + (2 ^ k - 1)) y' s = assert_that r 0 (w = ymax) s"
      unfolding trailing_mask [OF assms(1)] n by (simp only: y(2) [OF 2] masked_check_words and_mask_32)
    with 2 assms(3) [of w] show ?thesis by (auto simp: n assert_that_def)
  next
    case 3
    then have "k \<noteq> cnt (lo32 n)" using assms(2) [of "lo32 n"] by linarith
    with masked_check_error [of n "2 ^ k - 1" r y' s] not_is_u32_mask [OF 3 assms(1)] 3 show ?thesis
      unfolding trailing_mask [OF assms(1)] by auto
  qed
next
  case False
  then show ?thesis using masked_check_error by auto
qed

lemma run_verify_pow2:
  assumes "\<And>k. k < 64 \<Longrightarrow> \<exists>e. run_stack r ops (2 ^ k ## n ## c ## t) = Some (if is_u32 n \<and> k = cnt (lo32 n) then Inr (c ## t) else Inl e)"
    and "\<And>w. cnt w \<le> 32"
  shows "\<exists>e. run_stack r ([Swap, Dup1] @ append_pow2_op @ ops) (c ## n ## t) =
     Some (if is_u32 n \<and> Rep_felt c = int (cnt (lo32 n)) then Inr (c ## t) else Inl e)"
proof -
  have "run_stack r [Swap, Dup1] (c ## n ## t) = Some (Inr (c ## n ## c ## t))" by simp
  note run = run_stack_append [OF this] run_stack_append_if [OF run_append_pow2_op]
  have c: "Rep_felt c = int (cnt (lo32 n)) \<longleftrightarrow> nat (Rep_felt c) = cnt (lo32 n)" by (simp add: nat_eq_iff)
  show ?thesis
  proof (cases "Rep_felt c < 64")
    case True
    then have "nat (Rep_felt c) < 64" by simp
    from assms(1) [OF this] True show ?thesis unfolding run c by simp
  next
    case False
    then have "Rep_felt c \<noteq> int (cnt (lo32 n))" using assms(2) [of "lo32 n"] by linarith
    with False show ?thesis unfolding run by simp
  qed
qed

lemma verify_ctz_accepts: "accepts_count r verify_ctz trailing_zeros"
  unfolding accepts_count_def verify_ctz_def
  by (intro allI run_verify_pow2, simp only: verify_ctz_tail option.inject, rule trailing_check [where ymax = 0])
     (simp_all add: trailing_zeros_le trailing_zeros_32 trailing_zeros_iff two_power_ge_32)

lemma and_mask_complement: "NOT w AND mask (Suc k) = 2 ^ k \<longleftrightarrow> w AND mask (Suc k) = mask k" if "k < 32" for w :: u32
proof -
  have "NOT w AND mask (Suc k) = 2 ^ k \<longleftrightarrow> (\<forall>i<32. \<not> bit w i \<and> i < Suc k \<longleftrightarrow> i = k)"
    using that by (auto simp: bit_eq_iff bit_and_iff bit_not_iff bit_mask_iff bit_exp_iff)
  also have "\<dots> \<longleftrightarrow> (\<forall>i<32. bit w i \<and> i < Suc k \<longleftrightarrow> i < k)"
    using that by (intro all_cong) (auto simp: less_Suc_eq)
  also have "\<dots> \<longleftrightarrow> w AND mask (Suc k) = mask k"
    using that by (auto simp: bit_eq_iff bit_and_iff bit_mask_iff)
  finally show ?thesis .
qed

lemma not_eq_0_iff: "NOT w = 0 \<longleftrightarrow> w = mask 32" for w :: u32
  by (auto simp: bit_eq_iff bit_not_iff bit_mask_iff dest: bit_imp_le_length)

lemma trailing_ones_facts:
  "trailing_ones w \<le> 32" "trailing_ones w = 32 \<longleftrightarrow> w = mask 32"
  "k < 32 \<Longrightarrow> trailing_ones w = k \<longleftrightarrow> w AND mask (Suc k) = mask k"
  by (simp_all add: trailing_ones_eq trailing_zeros_le trailing_zeros_32 not_eq_0_iff trailing_zeros_iff and_mask_complement)

lemma verify_cto_accepts: "accepts_count r verify_cto trailing_ones"
  unfolding accepts_count_def verify_cto_def
  by (intro allI run_verify_pow2, simp only: verify_cto_tail option.inject, rule trailing_check [where ymax = "mask 32"])
     (simp_all only: trailing_ones_facts felt_mask)

section \<open>Verification of leading counts\<close>

lemma Rep_felt_32_minus: "Rep_felt c \<le> 32 \<Longrightarrow> Rep_felt (32 - c) = 32 - Rep_felt c"
proof -
  assume "Rep_felt c \<le> 32"
  then have "Rep_felt (of_int (32 - Rep_felt c)) = 32 - Rep_felt c"
    unfolding ORDER_def [symmetric] by (intro Rep_felt_of_int_small) (use Rep_felt_bounds(1) [of c] in \<open>unfold ORDER_def, linarith+\<close>)
  then show ?thesis by simp
qed

lemma u32_half [stack_rules]: "of_int (uint w div 2) = felt_from_u32 (w div 2)"
  by (simp add: felt_from_u32_def uint_div)

lemma felt_mask_Suc: "e < 32 \<Longrightarrow> felt_from_u32 (mask e) + 1 = felt_from_u32 (2 ^ e)"
  using felt_mask [of e] two_power_u32 [of e] by (simp add: algebra_simps)

lemma verify_clz_tail:
  assumes "e \<le> 32"
  shows "run_stack r [Push 1, Neg, Add, Push 2, U32div, Drop, Dup0, Incr, Push (felt_from_u32 0xFFFFFFFF), MovUp2, Neg, Add,
       Dup3, Eqz, MovDn3, MovUp4, U32and, Dup2, Push 32, Eq, MovUp4, Dup1, Eq, Assert 0, MovDn2, Eq, Or, Assert 0]
       (2 ^ e ## c ## felt_from_u32 w ## t) =
     Some (assert_that r 0 ((w = 0 \<longleftrightarrow> c = 32) \<and> (c = 32 \<or> felt_from_u32 (w AND NOT (mask (e - 1))) = felt_from_u32 (mask (e - 1)) + 1)) (c ## t))"
  using assms by (cases "c = 32") (auto simp: assert_that_def stack_rules felt_mask mask_half felt_complement)

lemma verify_clo_tail:
  assumes "e \<le> 32"
  shows "run_stack r [Push 1, Neg, Add, Dup0, Push 2, U32div, Drop, Push (felt_from_u32 0xFFFFFFFF), Swap, Neg, Add, MovUp3, U32and,
       Push (felt_from_u32 0xFFFFFFFF), MovUp2, Neg, Add, Eq, Assert 0]
       (2 ^ e ## c ## felt_from_u32 w ## t) =
     Some (assert_that r 0 (w AND NOT (mask (e - 1)) = NOT (mask e)) (c ## t))"
  using assms by (auto simp: assert_that_def stack_rules felt_mask mask_half felt_complement)

text \<open>Both verifications start with the subtraction of the count from 32; the power exceeds 32 bits when the
  count is not between 0 and 32.\<close>

lemma leading_tail_error:
  assumes "32 < e" "e < 64"
  shows "\<exists>err. run_stack r (Push 1 # Neg # Add # Push 2 # U32div # ops) (2 ^ e ## s) = Some (Inl err)"
    and "\<exists>err. run_stack r (Push 1 # Neg # Add # Dup0 # Push 2 # U32div # ops) (2 ^ e ## s) = Some (Inl err)"
  using not_is_u32_mask [OF assms] by (simp_all add: stack_rules)

lemma run_verify_leading:
  assumes small: "\<And>e w. e \<le> 32 \<Longrightarrow> Rep_felt c = 32 - int e \<Longrightarrow>
        \<exists>err. run_stack r ops (2 ^ e ## c ## felt_from_u32 w ## t) = Some (if e + cnt w = 32 then Inr (c ## t) else Inl err)"
    and large: "\<And>e s. 32 < e \<Longrightarrow> e < 64 \<Longrightarrow> \<exists>err. run_stack r ops (2 ^ e ## s) = Some (Inl err)"
    and no_u32: "\<And>e. e \<le> 32 \<Longrightarrow> \<not> is_u32 n \<Longrightarrow> \<exists>err. run_stack r ops (2 ^ e ## c ## n ## t) = Some (Inl err)"
    and cnt: "\<And>w. cnt w \<le> 32"
  shows "\<exists>err. run_stack r ([Push 32, Dup1, Neg, Add] @ append_pow2_op @ ops) (c ## n ## t) =
     Some (if is_u32 n \<and> Rep_felt c = int (cnt (lo32 n)) then Inr (c ## t) else Inl err)"
proof -
  have "run_stack r [Push 32, Dup1, Neg, Add] (c ## n ## t) = Some (Inr ((32 - c) ## c ## n ## t))" by simp
  note run = run_stack_append [OF this] run_stack_append_if [OF run_append_pow2_op]
  define e where "e = nat (Rep_felt (32 - c))"
  have e: "Rep_felt (32 - c) = int e" by (simp add: e_def)
  have down: "Rep_felt c = 32 - int e" if "e \<le> 32"
    using Rep_felt_32_minus [of "32 - c"] that by (simp add: e)
  have up: "e + cnt w = 32" if "Rep_felt c = int (cnt w)" for w
    using Rep_felt_32_minus [of c] cnt [of w] that by (simp add: e)
  consider "64 \<le> e" | "32 < e" "e < 64" | "e \<le> 32" "is_u32 n" | "e \<le> 32" "\<not> is_u32 n" by linarith
  then show ?thesis
  proof cases
    case 1
    then have "Rep_felt c \<noteq> int (cnt (lo32 n))" using up [of "lo32 n"] by auto
    with 1 show ?thesis unfolding run e by simp
  next
    case 2
    then have "Rep_felt c \<noteq> int (cnt (lo32 n))" using up [of "lo32 n"] by auto
    with 2 large show ?thesis unfolding run e by simp
  next
    case 3
    then obtain w where n: "n = felt_from_u32 w" by (auto simp: is_u32_iff)
    have "Rep_felt c = int (cnt w) \<longleftrightarrow> e + cnt w = 32" using up [of w] down 3 by auto
    with small [OF 3(1) down [OF 3(1)], of w] 3 show ?thesis unfolding run e unfolding n by simp
  next
    case 4
    with no_u32 show ?thesis unfolding run e by simp
  qed
qed

lemma clz_condition:
  assumes "e \<le> 32" "Rep_felt c = 32 - int e"
  shows "(w = 0 \<longleftrightarrow> c = 32) \<and> (c = 32 \<or> felt_from_u32 (w AND NOT (mask (e - 1))) = felt_from_u32 (mask (e - 1)) + 1)
     \<longleftrightarrow> e + leading_zeros w = 32"
proof -
  have c: "c = 32 \<longleftrightarrow> e = 0" using assms Rep_felt_inject [of c 32] by auto
  show ?thesis
  proof (cases "e = 0")
    case True
    then show ?thesis using leading_zeros_32 [of w] c by simp
  next
    case False
    then have e: "32 - e < 32" "31 - (32 - e) = e - 1" "e - 1 < 32" using assms(1) by auto
    have "e + leading_zeros w = 32 \<longleftrightarrow> leading_zeros w = 32 - e" using assms(1) by auto
    also have "\<dots> \<longleftrightarrow> w AND NOT (mask (e - 1)) = 2 ^ (e - 1)" using leading_zeros_iff [OF e(1), of w] by (simp only: e)
    finally have iff: "e + leading_zeros w = 32 \<longleftrightarrow> w AND NOT (mask (e - 1)) = 2 ^ (e - 1)" .
    moreover have "w \<noteq> 0" if "e + leading_zeros w = 32" using that False leading_zeros_32 [of w] by auto
    ultimately show ?thesis using c False felt_mask_Suc [OF e(3)] by auto
  qed
qed

lemma leading_ones_facts:
  assumes "e \<le> 32"
  shows "e + leading_ones w = 32 \<longleftrightarrow> w AND NOT (mask (e - 1)) = NOT (mask e)"
proof -
  have "NOT w AND NOT (mask (e - 1)) = 2 ^ (e - 1) \<longleftrightarrow> w AND NOT (mask (e - 1)) = NOT (mask e)" if "e \<noteq> 0"
  proof -
    have "NOT w AND NOT (mask (e - 1)) = 2 ^ (e - 1) \<longleftrightarrow> (\<forall>i<32. \<not> bit w i \<and> \<not> i < e - 1 \<longleftrightarrow> i = e - 1)"
      using that assms by (auto simp: bit_eq_iff bit_and_iff bit_not_iff bit_mask_iff bit_exp_iff)
    also have "\<dots> \<longleftrightarrow> (\<forall>i<32. bit w i \<and> \<not> i < e - 1 \<longleftrightarrow> \<not> i < e)" using that by (intro all_cong) auto
    also have "\<dots> \<longleftrightarrow> w AND NOT (mask (e - 1)) = NOT (mask e)"
      by (auto simp: bit_eq_iff bit_and_iff bit_not_iff bit_mask_iff)
    finally show ?thesis .
  qed
  moreover have "e + leading_ones w = 32 \<longleftrightarrow> NOT w AND NOT (mask (e - 1)) = 2 ^ (e - 1)" if "e \<noteq> 0"
  proof -
    have e: "32 - e < 32" "31 - (32 - e) = e - 1" using assms that by auto
    have "e + leading_ones w = 32 \<longleftrightarrow> leading_zeros (NOT w) = 32 - e" using assms by (auto simp: leading_ones_eq)
    then show ?thesis using leading_zeros_iff [OF e(1), of "NOT w"] by (simp only: e)
  qed
  moreover have "mask 32 = (- 1 :: u32)" by (rule bit_word_eqI) (simp add: bit_mask_iff)
  then have "leading_ones w = 32 \<longleftrightarrow> w AND NOT (mask 0) = NOT (mask 0)"
    by (simp add: leading_ones_eq leading_zeros_32 not_eq_0_iff)
  ultimately show ?thesis by (cases "e = 0") auto
qed

lemma verify_clz_accepts: "accepts_count r verify_clz leading_zeros"
  unfolding accepts_count_def verify_clz_def
proof (intro allI run_verify_leading leading_zeros_le, goal_cases)
  case (1 c n t e w)
  then show ?case unfolding verify_clz_tail [OF 1(1)] clz_condition [OF 1] by (simp add: assert_that_def)
next
  case (2 c n t e s)
  then show ?case by (rule leading_tail_error)
next
  case (3 c n t e)
  then show ?case by (auto simp: stack_rules felt_mask mask_half felt_complement)
qed

lemma verify_clo_accepts: "accepts_count r verify_clo leading_ones"
  unfolding accepts_count_def verify_clo_def
proof (intro allI run_verify_leading, goal_cases)
  case (1 c n t e w)
  then show ?case unfolding verify_clo_tail [OF 1(1)] leading_ones_facts [OF 1(1)] by (simp add: assert_that_def)
next
  case (2 c n t e s)
  then show ?case by (rule leading_tail_error)
next
  case (3 c n t e)
  then show ?case by (auto simp: stack_rules felt_mask mask_half felt_complement)
next
  case (4 c n t w)
  show ?case by (simp add: leading_ones_eq leading_zeros_le)
qed

section \<open>Population count\<close>

text \<open>The parallel sum works on groups of four bits.  \<open>nibble_count\<close> is the number of ones of such a group
  and \<open>nibble_sums k x\<close> the number that has these counts as its k hexadecimal digits.\<close>

definition nibble_count :: "int \<Rightarrow> int" where
  "nibble_count n = of_bool (bit n 0) + of_bool (bit n 1) + of_bool (bit n 2) + of_bool (bit n 3)"

primrec nibble_sums :: "nat \<Rightarrow> int \<Rightarrow> int" where
  "nibble_sums 0 x = 0"
| "nibble_sums (Suc k) x = nibble_count (x mod 16) + 16 * nibble_sums k (x div 16)"

primrec repeat_hex :: "int \<Rightarrow> nat \<Rightarrow> int" where
  "repeat_hex d 0 = 0"
| "repeat_hex d (Suc k) = d + 16 * repeat_hex d k"

lemma and_16:
  fixes a b x y :: int
  assumes "0 \<le> a" "a < 16" "0 \<le> b" "b < 16"
  shows "(a + 16 * x) AND (b + 16 * y) = (a AND b) + 16 * (x AND y)"
proof -
  have "take_bit 4 (a + 16 * x) = a" "take_bit 4 (b + 16 * y) = b" using assms by (simp_all add: take_bit_eq_mod)
  then have "take_bit 4 ((a + 16 * x) AND (b + 16 * y)) = a AND b" by (simp only: take_bit_and)
  moreover have "drop_bit 4 (a + 16 * x) = x" "drop_bit 4 (b + 16 * y) = y" using assms by (simp_all add: drop_bit_eq_div)
  then have "drop_bit 4 ((a + 16 * x) AND (b + 16 * y)) = x AND y" by (simp only: drop_bit_and)
  ultimately show ?thesis
    using bits_ident [of 4 "(a + 16 * x) AND (b + 16 * y)"] by (simp add: push_bit_eq_mult)
qed

lemma nibble_cases:
  assumes "0 \<le> n" "n < (16 :: int)"
  shows "n \<in> {0, 1, 2, 3, 4, 5, 6, 7, 8, 9, 10, 11, 12, 13, 14, 15}"
  using assms by (simp only: insert_iff empty_iff) presburger

definition pairs :: "int \<Rightarrow> int \<Rightarrow> int" where
  "pairs m x = x - ((x div 2) AND m)"

definition nibbles :: "int \<Rightarrow> int \<Rightarrow> int" where
  "nibbles m y = ((y div 4) AND m) + (y AND m)"

lemma pairs_step:
  assumes "0 \<le> n" "n < 16"
  shows "pairs (5 + 16 * m) (n + 16 * x) = pairs 5 n + 16 * pairs m x"
proof -
  have "(n + 16 * x) div 2 = (n div 2 + 8 * (x mod 2)) + 16 * (x div 2)" by presburger
  moreover have "((n div 2 + 8 * (x mod 2)) + 16 * (x div 2)) AND (5 + 16 * m) = ((n div 2 + 8 * (x mod 2)) AND 5) + 16 * ((x div 2) AND m)"
    using assms by (intro and_16) linarith+
  moreover have "(n div 2 + 8 * (x mod 2)) AND 5 = (n div 2) AND 5"
    using nibble_cases [OF assms] by (cases "x mod 2 = 0") (auto simp: not_mod_2_eq_0_eq_1)
  ultimately show ?thesis by (simp add: pairs_def)
qed

lemma nibbles_step:
  assumes "0 \<le> n" "n < 16"
  shows "nibbles (3 + 16 * m) (n + 16 * y) = nibbles 3 n + 16 * nibbles m y"
proof -
  have "(n + 16 * y) div 4 = (n div 4 + 4 * (y mod 4)) + 16 * (y div 4)" by presburger
  moreover have "((n div 4 + 4 * (y mod 4)) + 16 * (y div 4)) AND (3 + 16 * m) = ((n div 4 + 4 * (y mod 4)) AND 3) + 16 * ((y div 4) AND m)"
    using assms by (intro and_16) linarith+
  moreover have "(n div 4 + 4 * (y mod 4)) AND 3 = (n div 4) AND 3"
    using take_bit_eq_mask [of 2 "n div 4 + 4 * (y mod 4)"] take_bit_eq_mask [of 2 "n div 4"]
    by (simp add: take_bit_eq_mod mask_eq_exp_minus_1)
  moreover have "(n + 16 * y) AND (3 + 16 * m) = (n AND 3) + 16 * (y AND m)"
    using assms by (intro and_16) simp_all
  ultimately show ?thesis by (simp add: nibbles_def)
qed

lemma nibble_base:
  assumes "0 \<le> n" "n < 16"
  shows "0 \<le> pairs 5 n" "pairs 5 n < 16" "nibbles 3 (pairs 5 n) = nibble_count n"
  using nibble_cases [OF assms] by (auto simp: pairs_def nibbles_def nibble_count_def)

lemma nibbles_pairs:
  "0 \<le> x \<Longrightarrow> x < 16 ^ k \<Longrightarrow> nibbles (repeat_hex 3 k) (pairs (repeat_hex 5 k) x) = nibble_sums k x"
proof (induction k arbitrary: x)
  case 0
  then show ?case by (simp add: nibbles_def)
next
  case (Suc k)
  define n y where "n = x mod 16" and "y = x div 16"
  have n: "0 \<le> n" "n < 16" by (simp_all add: n_def)
  define z :: int where "z = 16 ^ k"
  have "x < 16 * z" using Suc.prems by (simp add: z_def)
  then have "x div 16 < z" by presburger
  then have y: "0 \<le> y" "y < 16 ^ k" using Suc.prems by (simp_all add: y_def z_def pos_imp_zdiv_nonneg_iff)
  have "nibbles (3 + 16 * repeat_hex 3 k) (pairs (5 + 16 * repeat_hex 5 k) (n + 16 * y)) = nibble_count n + 16 * nibble_sums k y"
    using n nibble_base [OF n] Suc.IH [OF y] by (simp add: pairs_step nibbles_step)
  then show ?case by (simp add: n_def y_def)
qed

lemma and_15_digit: "0 \<le> a \<Longrightarrow> a < 16 \<Longrightarrow> (a + 16 * x) AND (15 + 16 * y) = a + 16 * (x AND y)" for a x y :: int
  using and_16 [of a 15 x y] take_bit_eq_mask [of 4 a] by (simp add: take_bit_eq_mod mask_eq_exp_minus_1)

lemma and_0_digit: "0 \<le> a \<Longrightarrow> a < 16 \<Longrightarrow> (a + 16 * x) AND (16 * y) = 16 * (x AND y)" for a x y :: int
  using and_16 [of a 0 x y] by simp

text \<open>The last two steps add the eight counts.\<close>

lemma byte_sums:
  fixes p0 p1 p2 p3 p4 p5 p6 p7 :: int
  assumes p: "0 \<le> p0" "p0 \<le> 4" "0 \<le> p1" "p1 \<le> 4" "0 \<le> p2" "p2 \<le> 4" "0 \<le> p3" "p3 \<le> 4"
    "0 \<le> p4" "p4 \<le> 4" "0 \<le> p5" "p5 \<le> 4" "0 \<le> p6" "p6 \<le> 4" "0 \<le> p7" "p7 \<le> 4"
    and z: "z = p0 + 16 * (p1 + 16 * (p2 + 16 * (p3 + 16 * (p4 + 16 * (p5 + 16 * (p6 + 16 * p7))))))"
  shows "((z + z div 16) AND 0x0F0F0F0F) * 0x01010101 mod 2 ^ 32 div 2 ^ 24 = p0 + p1 + p2 + p3 + p4 + p5 + p6 + p7"
proof -
  have "z div 16 = p1 + 16 * (p2 + 16 * (p3 + 16 * (p4 + 16 * (p5 + 16 * (p6 + 16 * p7)))))"
    using p z by simp
  then have sum: "z + z div 16 = (p0 + p1) + 16 * ((p1 + p2) + 16 * ((p2 + p3) + 16 * ((p3 + p4) + 16 * ((p4 + p5) + 16 *
      ((p5 + p6) + 16 * ((p6 + p7) + 16 * (p7 + 16 * 0)))))))"
    using z by simp
  have "(z + z div 16) AND (15 + 16 * (16 * (15 + 16 * (16 * (15 + 16 * (16 * (15 + 16 * (16 * 0)))))))) =
      (p0 + p1) + 16 * (16 * ((p2 + p3) + 16 * (16 * ((p4 + p5) + 16 * (16 * ((p6 + p7) + 16 * (16 * 0)))))))"
    unfolding sum using p by (simp only: and_15_digit and_0_digit add_nonneg_nonneg) (simp add: and_15_digit and_0_digit)
  then have masked: "(z + z div 16) AND 0x0F0F0F0F = (p0 + p1) + 256 * (p2 + p3) + 65536 * (p4 + p5) + 16777216 * (p6 + p7)"
    by simp
  define A where "A = (p0 + p1) + 256 * (p0 + p1 + p2 + p3) + 65536 * (p0 + p1 + p2 + p3 + p4 + p5)"
  define T where "T = (p2 + p3 + p4 + p5 + p6 + p7) + 256 * (p4 + p5 + p6 + p7) + 65536 * (p6 + p7)"
  define S where "S = p0 + p1 + p2 + p3 + p4 + p5 + p6 + p7"
  have "((z + z div 16) AND 0x0F0F0F0F) * 0x01010101 = (A + 2 ^ 24 * S) + 2 ^ 32 * T"
    unfolding masked A_def S_def T_def by simp
  moreover have A: "0 \<le> A" "A < 2 ^ 24" "0 \<le> A + 2 ^ 24 * S" "A + 2 ^ 24 * S < 2 ^ 32"
    using p unfolding A_def S_def by simp_all
  ultimately have "((z + z div 16) AND 0x0F0F0F0F) * 0x01010101 mod 2 ^ 32 = A + 2 ^ 24 * S"
    by (simp only: mod_mult_self2 mod_pos_pos_trivial)
  then show ?thesis using A by (simp add: S_def)
qed

lemma nibble_count_bounds: "0 \<le> nibble_count n" "nibble_count n \<le> 4"
  by (simp_all add: nibble_count_def)

primrec ones :: "nat \<Rightarrow> int \<Rightarrow> int" where
  "ones 0 x = 0"
| "ones (Suc k) x = nibble_count (x mod 16) + ones k (x div 16)"

lemma ones_eq: "ones k x = int (length (filter (bit x) [0..<4 * k]))"
proof (induction k arbitrary: x)
  case (Suc k)
  have "[0..<4] = [0, 1, 2, 3 :: nat]" by (simp add: eval_nat_numeral)
  moreover have "[0..<4 * Suc k] = [0..<4] @ [4..<4 * k + 4]"
    using upt_add_eq_append [of 0 4 "4 * k"] by (simp add: add.commute)
  ultimately have "[0..<4 * Suc k] = [0, 1, 2, 3] @ map (\<lambda>i. i + 4) [0..<4 * k]" by (simp only: map_add_upt)
  moreover have "bit x (i + 4) = bit (x div 16) i" for i
    using bit_drop_bit_eq [of 4 x] by (simp add: drop_bit_eq_div add.commute)
  moreover have "nibble_count (x mod 16) = int (length (filter (bit x) [0, 1, 2, 3]))"
    using bit_take_bit_iff [of 4 x] by (simp add: nibble_count_def take_bit_eq_mod)
  ultimately show ?case using Suc.IH [of "x div 16"] by (simp add: filter_map comp_def)
qed simp

lemma ones_8:
  defines "d \<equiv> \<lambda>x j. nibble_count (x div 16 ^ j mod 16)"
  shows "nibble_sums 8 x = d x 0 + 16 * (d x 1 + 16 * (d x 2 + 16 * (d x 3 + 16 * (d x 4 + 16 * (d x 5 + 16 * (d x 6 + 16 * d x 7))))))"
    and "ones 8 x = d x 0 + d x 1 + d x 2 + d x 3 + d x 4 + d x 5 + d x 6 + d x 7"
  by (simp_all add: d_def eval_nat_numeral zdiv_zmult2_eq [symmetric])

lemma nibble_sums_bounds: "0 \<le> nibble_sums k x \<and> nibble_sums k x \<le> repeat_hex 4 k"
proof (induction k arbitrary: x)
  case (Suc k)
  then show ?case using nibble_count_bounds [of "x mod 16"] Suc.IH [of "x div 16"] unfolding nibble_sums.simps repeat_hex.simps by linarith
qed simp

lemma nibble_sums_8_bounds: "0 \<le> nibble_sums 8 x" "nibble_sums 8 x \<le> 0x44444444"
proof -
  have "repeat_hex 4 8 = (0x44444444 :: int)" by (simp add: eval_nat_numeral)
  then show "0 \<le> nibble_sums 8 x" "nibble_sums 8 x \<le> 0x44444444" using nibble_sums_bounds [of 8 x] by linarith+
qed

lemma nibbles_pairs_8:
  assumes "0 \<le> x" "x < 2 ^ 32"
  shows "nibbles 0x33333333 (pairs 0x55555555 x) = nibble_sums 8 x"
proof -
  have "repeat_hex 3 8 = 0x33333333" "repeat_hex 5 8 = 0x55555555" by (simp_all add: eval_nat_numeral)
  then show ?thesis using assms nibbles_pairs [of x 8] by simp
qed

lemma popcnt_int:
  assumes "0 \<le> x" "x < 2 ^ 32" "z = nibbles 0x33333333 (pairs 0x55555555 x)"
  shows "((z + z div 16) AND 0x0F0F0F0F) * 0x01010101 mod 2 ^ 32 div 2 ^ 24 = ones 8 x"
proof -
  have "z = nibble_sums 8 x" using assms by (simp only: nibbles_pairs_8)
  then show ?thesis unfolding ones_8 by (intro byte_sums nibble_count_bounds) (simp add: ones_8)
qed

lemma pairs_bounds:
  fixes x m :: int
  assumes "0 \<le> x"
  shows "0 \<le> (x div 2) AND m" "(x div 2) AND m \<le> x"
proof -
  have "0 \<le> x div 2" using assms by (simp add: pos_imp_zdiv_nonneg_iff)
  then show "0 \<le> (x div 2) AND m" by simp
  have "(x div 2) AND m \<le> x div 2" using \<open>0 \<le> x div 2\<close> by (rule AND_upper1)
  also have "\<dots> \<le> x" using assms by linarith
  finally show "(x div 2) AND m \<le> x" .
qed

lemma uint_count_ones: "uint (of_nat (count_ones w) :: u32) = int (count_ones w)"
proof -
  have "count_ones w \<le> 32" using length_filter_le [of "bit w" "[0..<32]"] by (simp add: count_ones_def)
  then show ?thesis by (simp add: unsigned_of_nat take_bit_nat_eq_self)
qed

lemma popcnt_word:
  fixes w :: u32
  defines "y \<equiv> w - ((w div 2) AND 0x55555555)"
  defines "z \<equiv> ((y div 4) AND 0x33333333) + (y AND 0x33333333)"
  shows "((z + z div 16) AND 0x0F0F0F0F) * 0x01010101 div 0x1000000 = of_nat (count_ones w)"
proof -
  have y: "uint y = pairs 0x55555555 (uint w)"
  proof -
    have "uint ((w div 2) AND 0x55555555) = (uint w div 2) AND 0x55555555" by (simp add: uint_and uint_div)
    moreover have "uint ((w div 2) AND 0x55555555) \<le> uint w"
      unfolding calculation by (rule pairs_bounds) simp
    ultimately show ?thesis unfolding y_def pairs_def by (simp add: uint_sub_lem [THEN iffD1])
  qed
  define Z where "Z = nibbles 0x33333333 (pairs 0x55555555 (uint w))"
  have x: "0 \<le> uint w" "uint w < 2 ^ 32" using uint_bounded [of w] by simp_all
  have Z: "Z = nibble_sums 8 (uint w)"
    unfolding Z_def using x by (rule nibbles_pairs_8)
  have Z_bounds: "0 \<le> Z" "Z \<le> 0x44444444" unfolding Z by (rule nibble_sums_8_bounds)+
  have z: "uint z = Z"
  proof -
    have "uint z = (((uint y div 4) AND 0x33333333) + (uint y AND 0x33333333)) mod 2 ^ 32"
      by (simp add: z_def uint_word_ariths uint_and uint_div)
    also have "\<dots> = Z mod 2 ^ 32" by (simp only: y Z_def nibbles_def)
    also have "\<dots> = Z" using Z_bounds by (intro mod_pos_pos_trivial) auto
    finally show ?thesis .
  qed
  have "uint (z + z div 16) = Z + Z div 16"
  proof -
    have "uint (z + z div 16) = (Z + Z div 16) mod 2 ^ 32" by (simp add: uint_word_ariths uint_div z)
    also have "\<dots> = Z + Z div 16" using Z_bounds by (intro mod_pos_pos_trivial) (auto simp: pos_imp_zdiv_nonneg_iff)
    finally show ?thesis .
  qed
  then have "uint (((z + z div 16) AND 0x0F0F0F0F) * 0x01010101 div 0x1000000) =
      ((Z + Z div 16) AND 0x0F0F0F0F) * 0x01010101 mod 2 ^ 32 div 2 ^ 24"
    by (simp add: uint_word_ariths uint_and uint_div)
  also have "\<dots> = ones 8 (uint w)" using popcnt_int [OF x refl] by (simp only: Z_def)
  also have "\<dots> = int (count_ones w)"
  proof -
    have "filter (bit (uint w)) [0..<32] = filter (bit w) [0..<32]" by (rule filter_cong) (simp_all add: bit_uint_iff)
    then show ?thesis by (simp add: ones_eq count_ones_def)
  qed
  also have "\<dots> = uint (of_nat (count_ones w) :: u32)"
    by (rule uint_count_ones [symmetric])
  finally show ?thesis by (simp only: word_uint_eq_iff)
qed

lemma run_masked_sums:
  fixes w d1 d2 d3 d4 m1 m2 m3 k :: u32
  assumes "d1 \<noteq> 0" "d2 \<noteq> 0" "d3 \<noteq> 0" "d4 \<noteq> 0"
  defines "y \<equiv> w - ((w div d1) AND m1)"
  defines "z \<equiv> ((y div d2) AND m2) + (y AND m2)"
  shows "run_stack r
     [Dup0, Push (felt_from_u32 d1), U32div, Drop, Push (felt_from_u32 m1), U32and, U32sub, Drop,
      Dup0, Push (felt_from_u32 d2), U32div, Drop, Push (felt_from_u32 m2), U32and,
      Swap, Push (felt_from_u32 m2), U32and, U32add, Swap, Drop,
      Dup0, Push (felt_from_u32 d3), U32div, Drop, U32add, Swap, Drop,
      Push (felt_from_u32 m3), U32and, Push (felt_from_u32 k), U32mul, Swap, Drop,
      Push (felt_from_u32 d4), U32div, Drop] (felt_from_u32 w ## t) =
     Some (Inr (felt_from_u32 (((z + z div d3) AND m3) * k div d4) ## t))"
  using assms(1-4) by (simp add: stack_rules y_def z_def ac_simps)

lemma run_u32popcnt_u32: "run_stack r u32popcnt (felt_from_u32 w ## t) = Some (Inr (of_nat (count_ones w) ## t))"
proof -
  have "felt_from_u32 (of_nat (count_ones w)) = of_nat (count_ones w)" unfolding felt_from_u32_def uint_count_ones by simp
  then have count: "Some (Inr (felt_from_u32 (of_nat (count_ones w)) ## t)) = Some (Inr (of_nat (count_ones w) ## t))" by simp
  have ops: "u32popcnt =
     [Dup0, Push (felt_from_u32 2), U32div, Drop, Push (felt_from_u32 0x55555555), U32and, U32sub, Drop,
      Dup0, Push (felt_from_u32 4), U32div, Drop, Push (felt_from_u32 0x33333333), U32and,
      Swap, Push (felt_from_u32 0x33333333), U32and, U32add, Swap, Drop,
      Dup0, Push (felt_from_u32 16), U32div, Drop, U32add, Swap, Drop,
      Push (felt_from_u32 0x0F0F0F0F), U32and, Push (felt_from_u32 0x01010101), U32mul, Swap, Drop,
      Push (felt_from_u32 0x1000000), U32div, Drop]"
    by (simp add: u32popcnt_def felt_numeral_u32 del: felt_numeral_eq)
  have nonzero: "(2 :: u32) \<noteq> 0" "(4 :: u32) \<noteq> 0" "(16 :: u32) \<noteq> 0" "(0x1000000 :: u32) \<noteq> 0" by simp_all
  show ?thesis unfolding ops run_masked_sums [OF nonzero] popcnt_word by (rule count)
qed

text \<open>C31. \<open>u32popcnt\<close> counts bits: on a 32-bit word the 36 operations of the parallel summation leave the number of its one bits in place of the word; on any other element they fail with the element reported as not a 32-bit value.\<close>

theorem u32popcnt_correct:
  "run_stack r u32popcnt (n ## t) = Some (if is_u32 n then Inr (of_nat (count_ones (lo32 n)) ## t) else Inl (NotU32Values [n]))"
proof (cases "is_u32 n")
  case True
  then obtain w where "n = felt_from_u32 w" by (auto simp: is_u32_iff)
  then show ?thesis by (simp add: run_u32popcnt_u32)
next
  case False
  then show ?thesis by (simp add: u32popcnt_def stack_rules felt_numeral_u32 del: felt_numeral_eq)
qed

text \<open>C30. The operations that follow the advice pop of \<open>u32clz\<close>, \<open>u32ctz\<close>, \<open>u32clo\<close> and \<open>u32cto\<close> accept the advised count exactly when the operand is a 32-bit word and the count is the number of its leading or trailing zeros or ones; then they leave the count in place of the word, and on every other pair they fail.\<close>

theorem bit_count_verification:
  "accepts_count r (drop 4 u32clz) leading_zeros \<and> accepts_count r (drop 4 u32ctz) trailing_zeros \<and>
   accepts_count r (drop 4 u32clo) leading_ones \<and> accepts_count r (drop 4 u32cto) trailing_ones"
  by (simp_all add: u32clz_def u32ctz_def u32clo_def u32cto_def push_system_event_def
      verify_clz_accepts verify_ctz_accepts verify_clo_accepts verify_cto_accepts)

end
