(* ===== verification/Op_Batch.thy ===== *)
theory Op_Batch
  imports Operation Program_Types
begin

text \<open>
  Operation batches, \<open>core/src/mast/node/basic_block_node\<close>: the operations of a basic block are packed
  into groups of up to nine opcodes of seven bits, immediate values take a group of their own, and up to
  eight groups form a batch, which is one absorption of the block's hash.  \<open>op_batch.rs\<close> builds batches with an
  accumulator; \<open>mod.rs\<close> validates batches that come from elsewhere and converts indices of raw
  operations to indices of padded ones and back.  Arrays are lists; an access out of their bounds is \<open>Panic\<close>
  in the code that builds batches.
\<close>

unbundle bit_operations_syntax

section \<open>Batches\<close>

definition GROUP_SIZE :: nat where
  "GROUP_SIZE = 9"

definition BATCH_SIZE :: nat where
  "BATCH_SIZE = 8"

definition BATCH_SIZE_PLUS_ONE :: nat where
  "BATCH_SIZE_PLUS_ONE = BATCH_SIZE + 1"

record op_batch =
  b_ops :: "operation list"
  b_indptr :: "nat list"
  b_padding :: "bool list"
  b_groups :: "felt list"
  b_num_groups :: nat

text \<open>The operations from index \<open>i\<close> up to \<open>j\<close>, as in the slice \<open>ops[i..j]\<close>.\<close>

definition slice_of :: "'a list \<Rightarrow> nat \<Rightarrow> nat \<Rightarrow> 'a list" where
  "slice_of xs i j = take (j - i) (drop i xs)"

definition raw_ops :: "op_batch \<Rightarrow> operation list" where
  "raw_ops b = concat (map (\<lambda>group_idx.
     let padded = b_padding b ! group_idx;
         start_idx = b_indptr b ! group_idx;
         end_idx = b_indptr b ! (group_idx + 1) - (if padded then 1 else 0)
     in slice_of (b_ops b) start_idx end_idx) [0..<b_num_groups b])"

definition op_idx_in_batch_to_group :: "op_batch \<Rightarrow> nat \<Rightarrow> (nat \<times> nat) option" where
  "op_idx_in_batch_to_group b op_idx =
     (if op_idx \<ge> length (b_ops b) then None
      else let ends = slice_of (b_indptr b) 1 (b_num_groups b + 1);
               group_idx = length (takeWhile (\<lambda>e. e \<le> op_idx) ends)
           in Some (group_idx, op_idx - b_indptr b ! group_idx))"

definition next_op_group_index :: "op_batch \<Rightarrow> nat \<Rightarrow> nat option" where
  "next_op_group_index b after =
     find (\<lambda>i. b_indptr b ! i \<noteq> b_indptr b ! (i + 1)) [after + 1..<b_num_groups b]"

section \<open>The accumulator\<close>

record op_batch_accumulator =
  acc_ops :: "operation list"
  acc_indptr :: "nat list"
  acc_padding :: "bool list"
  acc_groups :: "felt list"
  acc_group :: u64
  acc_op_idx :: nat
  acc_group_idx :: nat
  acc_next_group_idx :: nat

definition INVALID_IDX :: nat where
  "INVALID_IDX = BATCH_SIZE * GROUP_SIZE + 1"

definition arr_get :: "'a list \<Rightarrow> nat \<Rightarrow> 'a res" where
  "arr_get xs i = (if i < length xs then Inr (xs ! i) else Inl (Panic ''index out of bounds''))"

definition arr_set :: "'a list \<Rightarrow> nat \<Rightarrow> 'a \<Rightarrow> 'a list res" where
  "arr_set xs i x = (if i < length xs then Inr (xs[i := x]) else Inl (Panic ''index out of bounds''))"

definition acc_new :: op_batch_accumulator where
  "acc_new = \<lparr>acc_ops = [], acc_indptr = replicate BATCH_SIZE_PLUS_ONE 0, acc_padding = replicate BATCH_SIZE False,
     acc_groups = replicate BATCH_SIZE 0, acc_group = 0, acc_op_idx = 0, acc_group_idx = 0, acc_next_group_idx = 1\<rparr>"

definition acc_is_empty :: "op_batch_accumulator \<Rightarrow> bool" where
  "acc_is_empty a = (acc_ops a = [])"

definition can_accept_op :: "op_batch_accumulator \<Rightarrow> operation \<Rightarrow> bool" where
  "can_accept_op a op =
     (if imm_value op \<noteq> None
      then (if acc_op_idx a < GROUP_SIZE - 1 then acc_next_group_idx a < BATCH_SIZE
            else acc_next_group_idx a + 1 < BATCH_SIZE)
      else acc_op_idx a < GROUP_SIZE \<or> acc_next_group_idx a < BATCH_SIZE)"

definition push_op :: "op_batch_accumulator \<Rightarrow> operation \<Rightarrow> op_batch_accumulator" where
  "push_op a op =
     (let opcode = ucast (op_code op) :: u64 in
      a\<lparr>acc_group := acc_group a OR push_bit (OP_BITS * acc_op_idx a) opcode,
        acc_ops := acc_ops a @ [op],
        acc_op_idx := acc_op_idx a + 1\<rparr>)"

definition pad_if_needed :: "op_batch_accumulator \<Rightarrow> op_batch_accumulator res" where
  "pad_if_needed a =
     (if acc_op_idx a = 0 \<or> (acc_ops a \<noteq> [] \<and> imm_value (last (acc_ops a)) \<noteq> None)
      then res_bind (ensure (acc_op_idx a < GROUP_SIZE) (Panic ''an immediate can't end a group'')) (\<lambda>_.
           let a = push_op a Noop in
           res_bind (arr_set (acc_padding a) (acc_group_idx a) True) (\<lambda>p.
           Inr (a\<lparr>acc_padding := p\<rparr>)))
      else Inr a)"

text \<open>The loop of \<open>finalize_indptr\<close> over \<open>uninit_group_idx\<close>.\<close>

primrec fix_uninit :: "nat \<Rightarrow> nat \<Rightarrow> nat \<Rightarrow> nat list \<Rightarrow> nat list res" where
  "fix_uninit gi n 0 ptr =
     res_bind (arr_get ptr 0) (\<lambda>v.
     if 0 \<ge> gi \<and> v = INVALID_IDX
     then Inl (Panic ''attempt to subtract with overflow'')
     else Inr ptr)"
| "fix_uninit gi n (Suc i) ptr =
     (if Suc i \<ge> gi
      then res_bind (arr_get ptr (Suc i)) (\<lambda>v.
           if v = INVALID_IDX then res_bind (arr_set ptr (Suc i) n) (fix_uninit gi n i) else Inr ptr)
      else Inr ptr)"

definition finalize_indptr :: "op_batch_accumulator \<Rightarrow> op_batch_accumulator res" where
  "finalize_indptr a =
     res_bind (arr_set (acc_indptr a) (acc_next_group_idx a) (length (acc_ops a))) (\<lambda>ptr.
     res_bind (usize_sub (acc_next_group_idx a) 1) (\<lambda>uninit_group_idx.
     res_bind (fix_uninit (acc_group_idx a) (length (acc_ops a)) uninit_group_idx ptr) (\<lambda>ptr.
     Inr (a\<lparr>acc_indptr := ptr\<rparr>))))"

definition finalize_op_group :: "op_batch_accumulator \<Rightarrow> op_batch_accumulator res" where
  "finalize_op_group a =
     res_bind (pad_if_needed a) (\<lambda>a.
     res_bind (arr_set (acc_groups a) (acc_group_idx a) (felt_from_u64 (acc_group a))) (\<lambda>gs.
     res_bind (finalize_indptr (a\<lparr>acc_groups := gs\<rparr>)) (\<lambda>a.
     Inr (a\<lparr>acc_group_idx := acc_next_group_idx a, acc_next_group_idx := acc_next_group_idx a + 1, acc_op_idx := 0, acc_group := 0\<rparr>))))"

definition add_op :: "op_batch_accumulator \<Rightarrow> operation \<Rightarrow> op_batch_accumulator res" where
  "add_op a op =
     res_bind (if acc_op_idx a = GROUP_SIZE then finalize_op_group a else Inr a) (\<lambda>a.
     res_bind (case imm_value op of
         None \<Rightarrow> Inr a
       | Some imm \<Rightarrow>
           res_bind (if acc_op_idx a = GROUP_SIZE - 1 then finalize_op_group a else Inr a) (\<lambda>a.
           res_bind (arr_set (acc_groups a) (acc_next_group_idx a) imm) (\<lambda>gs.
           res_bind (arr_set (acc_indptr a) (acc_next_group_idx a) INVALID_IDX) (\<lambda>ptr.
           Inr (a\<lparr>acc_groups := gs, acc_indptr := ptr, acc_next_group_idx := acc_next_group_idx a + 1\<rparr>))))) (\<lambda>a.
     Inr (push_op a op)))"

definition into_batch :: "op_batch_accumulator \<Rightarrow> op_batch res" where
  "into_batch a =
     (let num = acc_next_group_idx a in
      res_bind (ok_or (power_from 64 0 num) (Panic ''next_power_of_two'')) (\<lambda>target.
      res_bind (res_fold (\<lambda>_. finalize_op_group) [num..<target] a) (\<lambda>a.
      res_bind (if acc_group a \<noteq> 0 \<or> acc_op_idx a \<noteq> 0
                then res_bind (arr_set (acc_groups a) (acc_group_idx a) (felt_from_u64 (acc_group a))) (\<lambda>gs.
                     Inr (a\<lparr>acc_groups := gs\<rparr>))
                else Inr a) (\<lambda>a.
      res_bind (pad_if_needed a) (\<lambda>a.
      res_bind (finalize_indptr a) (\<lambda>a.
      res_bind (res_fold (\<lambda>i ptr. arr_set ptr i (length (acc_ops a))) [acc_next_group_idx a..<BATCH_SIZE_PLUS_ONE]
                 (acc_indptr a)) (\<lambda>ptr.
      Inr \<lparr>b_ops = acc_ops a, b_indptr = ptr, b_padding = acc_padding a, b_groups = acc_groups a,
           b_num_groups = acc_next_group_idx a\<rparr>))))))) "

definition batch_ops :: "operation list \<Rightarrow> op_batch list res" where
  "batch_ops operations =
     res_bind (res_fold (\<lambda>op (batches, acc).
        res_bind (if \<not> can_accept_op acc op
                  then res_bind (into_batch acc) (\<lambda>batch. Inr (batches @ [batch], acc_new))
                  else Inr (batches, acc)) (\<lambda>(batches, acc).
        res_bind (add_op acc op) (\<lambda>acc. Inr (batches, acc)))) operations ([], acc_new)) (\<lambda>(batches, acc).
     if \<not> acc_is_empty acc then res_bind (into_batch acc) (\<lambda>batch. Inr (batches @ [batch]))
     else Inr batches)"

section \<open>Layout of a batch\<close>

text \<open>A chunk is a group of operations with the flag that its last operation is padding.  A batch is determined
  by its chunks: each takes one group for its opcodes and one for every immediate value.\<close>

type_synonym chunk = "operation list \<times> bool"

definition has_imm :: "operation \<Rightarrow> bool" where
  "has_imm op = (imm_value op \<noteq> None)"

definition imms :: "operation list \<Rightarrow> felt list" where
  "imms g = map (\<lambda>op. the (imm_value op)) (filter has_imm g)"

primrec encode_from :: "nat \<Rightarrow> operation list \<Rightarrow> u64" where
  "encode_from k [] = 0"
| "encode_from k (op # g) = push_bit (OP_BITS * k) (ucast (op_code op)) OR encode_from (Suc k) g"

abbreviation encode_group :: "operation list \<Rightarrow> felt" where
  "encode_group g \<equiv> felt_from_u64 (encode_from 0 g)"

primrec ptrs :: "nat \<Rightarrow> chunk list \<Rightarrow> nat list" where
  "ptrs s [] = []"
| "ptrs s (c # cs) = s # replicate (length (imms (fst c))) (s + length (fst c)) @ ptrs (s + length (fst c)) cs"

primrec vals :: "chunk list \<Rightarrow> felt list" where
  "vals [] = []"
| "vals (c # cs) = encode_group (fst c) # imms (fst c) @ vals cs"

primrec pads :: "chunk list \<Rightarrow> bool list" where
  "pads [] = []"
| "pads (c # cs) = snd c # replicate (length (imms (fst c))) False @ pads cs"

primrec slots :: "chunk list \<Rightarrow> nat" where
  "slots [] = 0"
| "slots (c # cs) = Suc (length (imms (fst c))) + slots cs"

definition chunk_ops :: "chunk list \<Rightarrow> operation list" where
  "chunk_ops cs = concat (map fst cs)"

definition raw_chunk :: "chunk \<Rightarrow> operation list" where
  "raw_chunk c = (if snd c then butlast (fst c) else fst c)"

definition batch_of :: "chunk list \<Rightarrow> op_batch" where
  "batch_of cs = \<lparr>b_ops = chunk_ops cs, b_indptr = ptrs 0 cs @ replicate (9 - slots cs) (length (chunk_ops cs)),
     b_padding = pads cs @ replicate (8 - slots cs) False, b_groups = vals cs @ replicate (8 - slots cs) 0,
     b_num_groups = slots cs\<rparr>"

lemma chunk_ops_simps [simp]: "chunk_ops [] = []" "chunk_ops (c # cs) = fst c @ chunk_ops cs" "chunk_ops (cs @ ds) = chunk_ops cs @ chunk_ops ds"
  by (simp_all add: chunk_ops_def)

lemma layout_append [simp]:
  "ptrs s (cs @ ds) = ptrs s cs @ ptrs (s + length (chunk_ops cs)) ds" "vals (cs @ ds) = vals cs @ vals ds"
  "pads (cs @ ds) = pads cs @ pads ds" "slots (cs @ ds) = slots cs + slots ds"
  by (induction cs arbitrary: s) (simp_all add: add.assoc)

lemma layout_length [simp]: "length (ptrs s cs) = slots cs" "length (vals cs) = slots cs" "length (pads cs) = slots cs"
  by (induction cs arbitrary: s) simp_all

lemma imms_simps [simp]: "imms [] = []" "imms (g @ h) = imms g @ imms h"
  "has_imm op \<Longrightarrow> imms (op # g) = the (imm_value op) # imms g" "\<not> has_imm op \<Longrightarrow> imms (op # g) = imms g"
  by (simp_all add: imms_def)

lemma has_imm_Noop [simp]: "\<not> has_imm Noop"
  by (simp add: has_imm_def imm_value_def)

lemma encode_from_append: "encode_from k (g @ h) = encode_from k g OR encode_from (k + length g) h"
  by (induction g arbitrary: k) (simp_all add: or.assoc)

lemma encode_from_Noop [simp]: "encode_from k [Noop] = 0"
  by simp

section \<open>The accumulator builds layouts\<close>

definition chunk_ok :: "chunk \<Rightarrow> bool" where
  "chunk_ok c \<longleftrightarrow> fst c \<noteq> [] \<and> length (fst c) \<le> 9 \<and> \<not> has_imm (last (fst c)) \<and> (snd c \<longrightarrow> last (fst c) = Noop)"

definition acc_rep :: "op_batch_accumulator \<Rightarrow> chunk list \<Rightarrow> operation list \<Rightarrow> bool" where
  "acc_rep a cs cur \<longleftrightarrow>
     a = \<lparr>acc_ops = chunk_ops cs @ cur,
          acc_indptr = ptrs 0 cs @ length (chunk_ops cs) # replicate (length (imms cur)) INVALID_IDX @
            replicate (8 - slots cs - length (imms cur)) 0,
          acc_padding = pads cs @ replicate (8 - slots cs) False,
          acc_groups = vals cs @ 0 # imms cur @ replicate (7 - slots cs - length (imms cur)) 0,
          acc_group = encode_from 0 cur, acc_op_idx = length cur, acc_group_idx = slots cs,
          acc_next_group_idx = slots cs + 1 + length (imms cur)\<rparr> \<and>
     (\<forall>c \<in> set cs. chunk_ok c) \<and> slots cs + 1 + length (imms cur) \<le> 8 \<and> length cur \<le> 9 \<and>
     (length cur = 9 \<longrightarrow> \<not> has_imm (last cur))"

definition close_chunk :: "operation list \<Rightarrow> chunk" where
  "close_chunk cur = (if cur = [] \<or> has_imm (last cur) then (cur @ [Noop], True) else (cur, False))"

lemma raw_close_chunk [simp]: "raw_chunk (close_chunk cur) = cur"
  by (simp add: close_chunk_def raw_chunk_def)

lemma imms_close_chunk [simp]: "imms (fst (close_chunk cur)) = imms cur"
  by (simp add: close_chunk_def)

lemma encode_close_chunk: "encode_from 0 (fst (close_chunk cur)) = encode_from 0 cur"
  by (simp add: close_chunk_def encode_from_append)

lemma chunk_ok_close_chunk:
  "length cur \<le> 9 \<Longrightarrow> (length cur = 9 \<longrightarrow> \<not> has_imm (last cur)) \<Longrightarrow> chunk_ok (close_chunk cur)"
  by (cases "length cur = 9") (auto simp: chunk_ok_def close_chunk_def)

lemma length_chunk_ops_le: "(\<forall>c \<in> set cs. chunk_ok c) \<Longrightarrow> length (chunk_ops cs) \<le> 9 * slots cs"
  by (induction cs) (auto simp: chunk_ok_def)

lemma arr_set_append: "i = length xs \<Longrightarrow> arr_set (xs @ y # ys) i v = Inr (xs @ v # ys)"
  by (simp add: arr_set_def list_update_append)

lemma acc_rep_new: "acc_rep acc_new [] []"
  by (simp add: acc_rep_def acc_new_def BATCH_SIZE_def BATCH_SIZE_PLUS_ONE_def eval_nat_numeral)

lemma acc_rep_pad:
  assumes "acc_rep a cs cur"
  defines "c \<equiv> close_chunk cur"
  shows "pad_if_needed a = Inr (a\<lparr>acc_ops := chunk_ops cs @ fst c, acc_op_idx := length (fst c),
    acc_padding := pads cs @ snd c # replicate (7 - slots cs) False\<rparr>)"
proof (cases "cur = [] \<or> has_imm (last cur)")
  case True
  have "length cur < 9" using assms(1) True by (cases "length cur = 9") (auto simp: acc_rep_def)
  moreover have "8 - slots cs = Suc (7 - slots cs)" using assms(1) by (auto simp: acc_rep_def)
  ultimately show ?thesis using True assms(1)
    by (auto simp: pad_if_needed_def acc_rep_def c_def close_chunk_def push_op_def Let_def has_imm_def GROUP_SIZE_def
        arr_set_append)
next
  case False
  moreover have "8 - slots cs = Suc (7 - slots cs)" using assms(1) by (auto simp: acc_rep_def)
  ultimately show ?thesis using assms(1)
    by (auto simp: pad_if_needed_def acc_rep_def c_def close_chunk_def has_imm_def)
qed

lemma fix_uninit_replicate:
  assumes "length xs = gi" "s \<noteq> INVALID_IDX"
  shows "fix_uninit gi n (gi + k) (xs @ s # replicate k INVALID_IDX @ ys) = Inr (xs @ s # replicate k n @ ys)"
proof (induction k arbitrary: ys)
  case 0
  have "(xs @ s # ys) ! gi = s" using assms(1) by (simp add: nth_append)
  then show ?case using assms by (cases gi) (simp_all add: arr_get_def)
next
  case (Suc k)
  have "(xs @ s # replicate k INVALID_IDX @ INVALID_IDX # ys) ! Suc (gi + k) = INVALID_IDX"
    using assms(1) by (simp add: nth_append)
  moreover have "(xs @ s # replicate k INVALID_IDX @ INVALID_IDX # ys)[Suc (gi + k) := n] = xs @ s # replicate k INVALID_IDX @ n # ys"
    using assms(1) by (simp add: list_update_append)
  ultimately show ?case using Suc.IH [of "n # ys"] assms(1)
    by (simp add: arr_get_def arr_set_def replicate_append_same [symmetric] del: replicate_append_same)
qed

lemma finalize_indptr_layout:
  assumes "acc_indptr a = ptrs 0 cs @ length (chunk_ops cs) # replicate k INVALID_IDX @ z # zs"
    and "acc_group_idx a = slots cs" "acc_next_group_idx a = slots cs + 1 + k" "length (chunk_ops cs) \<noteq> INVALID_IDX"
  shows "finalize_indptr a = Inr (a\<lparr>acc_indptr := ptrs 0 cs @ length (chunk_ops cs) # replicate k (length (acc_ops a)) @ length (acc_ops a) # zs\<rparr>)"
proof -
  have "arr_set (acc_indptr a) (acc_next_group_idx a) (length (acc_ops a)) =
      Inr (ptrs 0 cs @ length (chunk_ops cs) # replicate k INVALID_IDX @ length (acc_ops a) # zs)"
    using arr_set_append [of "slots cs + 1 + k" "ptrs 0 cs @ length (chunk_ops cs) # replicate k INVALID_IDX" z zs] assms by simp
  then show ?thesis using assms
    by (simp add: finalize_indptr_def usize_sub_def fix_uninit_replicate)
qed

lemma acc_rep_start: "acc_rep a cs cur \<Longrightarrow> length (chunk_ops cs) \<noteq> INVALID_IDX"
  using length_chunk_ops_le [of cs] by (auto simp: acc_rep_def INVALID_IDX_def BATCH_SIZE_def GROUP_SIZE_def)

lemma acc_rep_finalize:
  assumes "acc_rep a cs cur" "slots cs + 1 + length (imms cur) < 8"
  obtains a' where "finalize_op_group a = Inr a'" "acc_rep a' (cs @ [close_chunk cur]) []"
proof
  define c where "c = close_chunk cur"
  define k where "k = length (imms cur)"
  have z: "8 - slots cs - k = Suc (7 - slots cs - k)" "7 - slots cs - k = Suc (6 - slots cs - k)" using assms(2) by (simp_all add: k_def)
  have c: "imms (fst c) = imms cur" "encode_from 0 (fst c) = encode_from 0 cur" "chunk_ok c"
    using assms(1) encode_close_chunk chunk_ok_close_chunk by (simp_all add: c_def acc_rep_def)
  define b where "b = a\<lparr>acc_ops := chunk_ops cs @ fst c, acc_op_idx := length (fst c),
    acc_padding := pads cs @ snd c # replicate (7 - slots cs) False\<rparr>"
  define gs where "gs = vals cs @ encode_group cur # imms cur @ replicate (7 - slots cs - k) 0"
  have "finalize_indptr (b\<lparr>acc_groups := gs\<rparr>) = Inr (b\<lparr>acc_groups := gs, acc_indptr :=
      ptrs 0 cs @ length (chunk_ops cs) # replicate k (length (chunk_ops cs @ fst c)) @ length (chunk_ops cs @ fst c) # replicate (7 - slots cs - k) 0\<rparr>)"
    using finalize_indptr_layout [of "b\<lparr>acc_groups := gs\<rparr>" cs k 0 "replicate (7 - slots cs - k) 0"] acc_rep_start [OF assms(1)]
      assms(1) z(1) by (simp add: b_def acc_rep_def k_def)
  then show "finalize_op_group a = Inr (b\<lparr>acc_groups := gs, acc_indptr :=
      ptrs 0 cs @ length (chunk_ops cs) # replicate k (length (chunk_ops cs @ fst c)) @ length (chunk_ops cs @ fst c) # replicate (7 - slots cs - k) 0,
      acc_group_idx := slots cs + 1 + k, acc_next_group_idx := slots cs + 2 + k, acc_op_idx := 0, acc_group := 0\<rparr>)"
    using assms(1) acc_rep_pad [OF assms(1)]
    by (simp add: finalize_op_group_def b_def c_def gs_def acc_rep_def arr_set_append k_def)
  show "acc_rep (b\<lparr>acc_groups := gs, acc_indptr :=
      ptrs 0 cs @ length (chunk_ops cs) # replicate k (length (chunk_ops cs @ fst c)) @ length (chunk_ops cs @ fst c) # replicate (7 - slots cs - k) 0,
      acc_group_idx := slots cs + 1 + k, acc_next_group_idx := slots cs + 2 + k, acc_op_idx := 0, acc_group := 0\<rparr>)
      (cs @ [close_chunk cur]) []"
  proof -
    have "7 - slots cs = k + (7 - slots cs - k)" using assms(2) by (simp add: k_def)
    then have "replicate (7 - slots cs) False = replicate k False @ replicate (7 - slots cs - k) False"
      by (metis replicate_add)
    then show ?thesis using assms z c unfolding c_def [symmetric]
      by (simp add: acc_rep_def b_def gs_def k_def flip: replicate_Suc)
  qed
qed

text \<open>Adding an operation appends it to the raw operations of the accumulator.\<close>

definition acc_raw :: "chunk list \<Rightarrow> operation list \<Rightarrow> operation list" where
  "acc_raw cs cur = concat (map raw_chunk cs) @ cur"

lemma acc_raw_close [simp]: "acc_raw (cs @ [close_chunk cur]) [] = acc_raw cs cur"
  by (simp add: acc_raw_def)

lemma acc_rep_fields:
  "acc_rep a cs cur \<Longrightarrow> acc_op_idx a = length cur \<and> acc_next_group_idx a = slots cs + 1 + length (imms cur) \<and> length cur \<le> 9"
  by (auto simp: acc_rep_def)

lemma acc_rep_push:
  assumes "acc_rep a cs cur" "\<not> has_imm op" "length cur < 9"
  shows "acc_rep (push_op a op) cs (cur @ [op])"
  using assms by (auto simp: acc_rep_def push_op_def Let_def encode_from_append)

lemma acc_rep_push_imm:
  assumes "acc_rep a cs cur" "imm_value op = Some imm" "length cur < 8" "slots cs + 1 + length (imms cur) < 8"
  shows "\<exists>gs ptr. arr_set (acc_groups a) (acc_next_group_idx a) imm = Inr gs \<and>
    arr_set (acc_indptr a) (acc_next_group_idx a) INVALID_IDX = Inr ptr \<and>
    acc_rep (push_op (a\<lparr>acc_groups := gs, acc_indptr := ptr, acc_next_group_idx := acc_next_group_idx a + 1\<rparr>) op) cs (cur @ [op])"
proof -
  define k where "k = length (imms cur)"
  have z: "8 - slots cs - k = Suc (7 - slots cs - k)" "7 - slots cs - k = Suc (6 - slots cs - k)" using assms(4) by (simp_all add: k_def)
  have op: "has_imm op" "imms [op] = [imm]" using assms(2) by (simp_all add: has_imm_def imms_def)
  have gs: "arr_set (acc_groups a) (acc_next_group_idx a) imm = Inr (vals cs @ 0 # imms cur @ imm # replicate (6 - slots cs - k) 0)"
    using arr_set_append [of "slots cs + 1 + k" "vals cs @ 0 # imms cur" 0 "replicate (6 - slots cs - k) 0"] assms(1) z
    by (simp add: acc_rep_def k_def)
  have ptr: "arr_set (acc_indptr a) (acc_next_group_idx a) INVALID_IDX =
      Inr (ptrs 0 cs @ length (chunk_ops cs) # replicate k INVALID_IDX @ INVALID_IDX # replicate (7 - slots cs - k) 0)"
    using arr_set_append [of "slots cs + 1 + k" "ptrs 0 cs @ length (chunk_ops cs) # replicate k INVALID_IDX" 0 "replicate (7 - slots cs - k) 0"] assms(1) z
    by (simp add: acc_rep_def k_def)
  show ?thesis
    unfolding gs ptr using assms(1,3,4) op
    by (auto simp: acc_rep_def push_op_def Let_def encode_from_append k_def replicate_app_Cons_same)
qed

lemma add_op_rep:
  assumes "acc_rep a cs cur" "can_accept_op a op"
  obtains a' cs' cur' where "add_op a op = Inr a'" "acc_rep a' cs' cur'" "acc_raw cs' cur' = acc_raw cs cur @ [op]" "cur' \<noteq> []"
proof (cases "imm_value op")
  case None
  then have op: "\<not> has_imm op" by (simp add: has_imm_def)
  show ?thesis
  proof (cases "length cur = 9")
    case True
    then have "slots cs + 1 + length (imms cur) < 8"
      using assms acc_rep_fields [OF assms(1)] None by (auto simp: can_accept_op_def GROUP_SIZE_def BATCH_SIZE_def)
    from acc_rep_finalize [OF assms(1) this] obtain a' where a': "finalize_op_group a = Inr a'" "acc_rep a' (cs @ [close_chunk cur]) []" .
    show ?thesis
      using that [of "push_op a' op" "cs @ [close_chunk cur]" "[op]"] acc_rep_push [OF a'(2) op] a'(1) None True acc_rep_fields [OF assms(1)]
      by (simp add: add_op_def GROUP_SIZE_def acc_raw_def)
  next
    case False
    then have "length cur < 9" using acc_rep_fields [OF assms(1)] by simp
    then show ?thesis
      using that [of "push_op a op" cs "cur @ [op]"] acc_rep_push [OF assms(1) op] None acc_rep_fields [OF assms(1)]
      by (simp add: add_op_def GROUP_SIZE_def acc_raw_def)
  qed
next
  case (Some imm)
  show ?thesis
  proof (cases "length cur < 8")
    case True
    then have "slots cs + 1 + length (imms cur) < 8"
      using assms acc_rep_fields [OF assms(1)] Some by (auto simp: can_accept_op_def GROUP_SIZE_def BATCH_SIZE_def)
    from acc_rep_push_imm [OF assms(1) Some True this] show ?thesis
      using that [of _ cs "cur @ [op]"] True Some acc_rep_fields [OF assms(1)] by (auto simp: add_op_def GROUP_SIZE_def acc_raw_def)
  next
    case False
    then have room: "slots cs + 1 + length (imms cur) < 7"
      using assms acc_rep_fields [OF assms(1)] Some by (auto simp: can_accept_op_def GROUP_SIZE_def BATCH_SIZE_def)
    then have "slots cs + 1 + length (imms cur) < 8" by simp
    from acc_rep_finalize [OF assms(1) this] obtain a' where a': "finalize_op_group a = Inr a'" "acc_rep a' (cs @ [close_chunk cur]) []" .
    have "acc_op_idx a' = 0" using acc_rep_fields [OF a'(2)] by simp
    moreover have "length cur = 8 \<or> length cur = 9" using False acc_rep_fields [OF assms(1)] by auto
    ultimately show ?thesis
      using acc_rep_push_imm [OF a'(2) Some] room that [of _ "cs @ [close_chunk cur]" "[op]"] a'(1) Some acc_rep_fields [OF assms(1)]
      by (auto simp: add_op_def GROUP_SIZE_def acc_raw_def)
  qed
qed

text \<open>Closing the accumulator fills the batch with padding groups up to the next power of two.\<close>

lemma power_from_8:
  assumes "1 \<le> n" "n \<le> 8"
  obtains t where "power_from 64 0 n = Some t" "n \<le> t" "t \<in> {1, 2, 4, 8}" "5 \<le> n \<longrightarrow> t = 8"
proof (cases "power_from 64 0 n")
  case None
  then show ?thesis using power_from_None [of 64 0 n] assms by simp
next
  case (Some t)
  from power_from_spec [OF this] obtain j where j: "n \<le> t" "t = 2 ^ j" "t = 1 \<or> t < 2 * n" by (metis power_0)
  have "t < 16" using j(3) assms by auto
  then have "j < 4" using j(2) power_less_imp_less_exp [of 2 j 4] by simp
  then have "t \<in> {1, 2, 4, 8}" using j(2) by (auto simp: eval_nat_numeral less_Suc_eq)
  then show ?thesis using that [OF Some j(1)] j(1) by auto
qed

lemma fill_groups:
  assumes "acc_rep a cs cur" "slots cs + 1 + length (imms cur) + length xs \<le> 8"
  obtains a' cs' cur' where "res_fold (\<lambda>_. finalize_op_group) xs a = Inr a'" "acc_rep a' cs' cur'"
    "cs' @ [close_chunk cur'] = cs @ close_chunk cur # replicate (length xs) ([Noop], True)"
  using assms
proof (induction xs arbitrary: a cs cur thesis)
  case Nil
  then show ?case by auto
next
  case (Cons x xs)
  from Cons.prems(3) have "slots cs + 1 + length (imms cur) < 8" by simp
  from acc_rep_finalize [OF Cons.prems(2) this] obtain b where b: "finalize_op_group a = Inr b" "acc_rep b (cs @ [close_chunk cur]) []" .
  have "slots (cs @ [close_chunk cur]) + 1 + length (imms []) + length xs \<le> 8" using Cons.prems(3) by simp
  from Cons.IH [OF _ b(2) this] obtain a' cs' cur' where
    "res_fold (\<lambda>_. finalize_op_group) xs b = Inr a'" "acc_rep a' cs' cur'"
    "cs' @ [close_chunk cur'] = (cs @ [close_chunk cur]) @ close_chunk [] # replicate (length xs) ([Noop], True)" .
  with b(1) show ?case using Cons.prems(1) by (simp add: close_chunk_def [of "[]"])
qed

lemma fill_tail:
  "length ptr = i + n \<Longrightarrow> res_fold (\<lambda>i ptr. arr_set ptr i v) [i..<i + n] ptr = Inr (take i ptr @ replicate n v)"
proof (induction n arbitrary: i ptr)
  case (Suc n)
  have "res_fold (\<lambda>i ptr. arr_set ptr i v) [Suc i..<Suc i + n] (ptr[i := v]) = Inr (take (Suc i) (ptr[i := v]) @ replicate n v)"
    using Suc.prems by (intro Suc.IH) simp
  moreover have "take (Suc i) (ptr[i := v]) = take i ptr @ [v]" using Suc.prems by (simp add: take_Suc_conv_app_nth)
  moreover have "[i..<i + Suc n] = i # [Suc i..<Suc i + n]" by (simp add: upt_conv_Cons)
  ultimately show ?case using Suc.prems by (simp add: arr_set_def del: upt_Suc)
qed simp

lemma into_batch_last:
  assumes "acc_rep a cs cur"
  defines "c \<equiv> close_chunk cur"
  defines "n \<equiv> length (chunk_ops cs @ fst c)"
  shows "res_bind (if acc_group a \<noteq> 0 \<or> acc_op_idx a \<noteq> 0
                then res_bind (arr_set (acc_groups a) (acc_group_idx a) (felt_from_u64 (acc_group a))) (\<lambda>gs.
                     Inr (a\<lparr>acc_groups := gs\<rparr>))
                else Inr a) (\<lambda>a.
      res_bind (pad_if_needed a) finalize_indptr) =
    Inr \<lparr>acc_ops = chunk_ops cs @ fst c,
        acc_indptr = ptrs 0 cs @ length (chunk_ops cs) # replicate (length (imms cur)) n @ n # replicate (7 - slots cs - length (imms cur)) 0,
        acc_padding = pads cs @ snd c # replicate (7 - slots cs) False,
        acc_groups = vals cs @ encode_group cur # imms cur @ replicate (7 - slots cs - length (imms cur)) 0,
        acc_group = encode_from 0 cur, acc_op_idx = length (fst c), acc_group_idx = slots cs,
        acc_next_group_idx = slots cs + 1 + length (imms cur)\<rparr>"
proof -
  define k where "k = length (imms cur)"
  have a: "slots cs + 1 + k \<le> 8" using assms(1) by (simp add: acc_rep_def k_def)
  have z: "8 - slots cs - k = Suc (7 - slots cs - k)" using a by simp
  define gs where "gs = vals cs @ encode_group cur # imms cur @ replicate (7 - slots cs - k) 0"
  have "cur = [] \<Longrightarrow> acc_groups a = gs"
    using assms(1) by (simp add: acc_rep_def gs_def k_def felt_from_u64_def)
  then have "(if acc_group a \<noteq> 0 \<or> acc_op_idx a \<noteq> 0
                then res_bind (arr_set (acc_groups a) (acc_group_idx a) (felt_from_u64 (acc_group a))) (\<lambda>gs.
                     Inr (a\<lparr>acc_groups := gs\<rparr>))
                else Inr a) = Inr (a\<lparr>acc_groups := gs\<rparr>)"
    using assms(1) by (cases "cur = []") (simp_all add: acc_rep_def arr_set_append gs_def k_def)
  moreover have "pad_if_needed (a\<lparr>acc_groups := gs\<rparr>) = res_map (\<lambda>a. a\<lparr>acc_groups := gs\<rparr>) (pad_if_needed a)"
    by (cases "imm_value (last (acc_ops a))") (simp_all add: pad_if_needed_def push_op_def Let_def arr_set_def ensure_def)
  moreover have "finalize_indptr (a\<lparr>acc_ops := chunk_ops cs @ fst c, acc_op_idx := length (fst c),
      acc_padding := pads cs @ snd c # replicate (7 - slots cs) False, acc_groups := gs\<rparr>) =
    Inr (a\<lparr>acc_ops := chunk_ops cs @ fst c, acc_op_idx := length (fst c),
      acc_padding := pads cs @ snd c # replicate (7 - slots cs) False, acc_groups := gs,
      acc_indptr := ptrs 0 cs @ length (chunk_ops cs) # replicate k n @ n # replicate (7 - slots cs - k) 0\<rparr>)"
    using finalize_indptr_layout [of "a\<lparr>acc_ops := chunk_ops cs @ fst c, acc_op_idx := length (fst c),
      acc_padding := pads cs @ snd c # replicate (7 - slots cs) False, acc_groups := gs\<rparr>" cs k 0 "replicate (7 - slots cs - k) 0"]
      assms(1) acc_rep_start [OF assms(1)] z by (simp add: acc_rep_def k_def n_def)
  ultimately show ?thesis using assms(1) acc_rep_pad [OF assms(1)]
    by (simp add: acc_rep_def c_def gs_def k_def)
qed

lemma into_batch_rep:
  assumes "acc_rep a cs cur"
  obtains k where "into_batch a = Inr (batch_of (cs @ close_chunk cur # replicate k ([Noop], True)))"
    "slots cs + 1 + length (imms cur) + k \<in> {1, 2, 4, 8}" "7 \<le> slots cs + 1 + length (imms cur) \<longrightarrow> slots cs + 1 + length (imms cur) + k = 8"
proof -
  define n where "n = slots cs + 1 + length (imms cur)"
  have n: "1 \<le> n" "n \<le> 8" "acc_next_group_idx a = n" using assms by (simp_all add: acc_rep_def n_def)
  obtain t where t: "power_from 64 0 n = Some t" "n \<le> t" "t \<in> {1, 2, 4, 8}" "5 \<le> n \<longrightarrow> t = 8"
    using power_from_8 [OF n(1,2)] .
  have "slots cs + 1 + length (imms cur) + length [n..<t] \<le> 8" using t(2,3) by (auto simp: n_def)
  from fill_groups [OF assms this] obtain b ds cur' where b: "res_fold (\<lambda>_. finalize_op_group) [n..<t] a = Inr b" "acc_rep b ds cur'"
    "ds @ [close_chunk cur'] = cs @ close_chunk cur # replicate (t - n) ([Noop], True)" by auto
  define j where "j = length (imms cur')"
  define c where "c = close_chunk cur'"
  define m where "m = length (chunk_ops ds @ fst c)"
  have imms_c: "length (imms (fst c)) = j" "imms (fst c) = imms cur'" by (simp_all add: c_def j_def)
  have le: "slots ds + 1 + j \<le> 8" using b(2) by (simp add: acc_rep_def j_def)
  define ptr where "ptr = ptrs 0 ds @ length (chunk_ops ds) # replicate j m @ m # replicate (7 - slots ds - j) 0"
  have ptr: "length ptr = (slots ds + 1 + j) + (8 - slots ds - j)" "take (slots ds + 1 + j) ptr = ptrs 0 (ds @ [c])"
    using le by (simp_all add: ptr_def imms_c(1) m_def)
  have "BATCH_SIZE_PLUS_ONE = (slots ds + 1 + j) + (8 - slots ds - j)" using le by (simp add: BATCH_SIZE_PLUS_ONE_def BATCH_SIZE_def)
  then have tail: "res_fold (\<lambda>i ptr. arr_set ptr i m) [slots ds + 1 + j..<BATCH_SIZE_PLUS_ONE] ptr =
      Inr (ptrs 0 (ds @ [c]) @ replicate (8 - slots ds - j) m)"
    using fill_tail [OF ptr(1), of m] ptr(2) by simp
  have "7 - slots ds = j + (7 - slots ds - j)" using le by simp
  then have pads: "replicate (7 - slots ds) False = replicate j False @ replicate (7 - slots ds - j) False"
    by (metis replicate_add)
  have "into_batch a = Inr (batch_of (ds @ [c]))"
    using into_batch_last [OF b(2)] t(1) b(1) n(3) tail pads imms_c encode_close_chunk [of cur']
    by (simp add: into_batch_def res_bind_assoc [symmetric] batch_of_def ptr_def m_def j_def [symmetric] c_def [symmetric])
  then show ?thesis
    using that [of "t - n"] b(3) t n by (auto simp: n_def c_def)
qed

definition chunks_ok :: "chunk list \<Rightarrow> bool" where
  "chunks_ok cs \<longleftrightarrow> (\<forall>c \<in> set cs. chunk_ok c) \<and> slots cs \<in> {1, 2, 4, 8}"

definition raw_chunks :: "chunk list \<Rightarrow> operation list" where
  "raw_chunks cs = concat (map raw_chunk cs)"

lemma into_batch_chunks:
  assumes "acc_rep a cs cur"
  obtains ds where "into_batch a = Inr (batch_of ds)" "chunks_ok ds" "raw_chunks ds = acc_raw cs cur"
    "7 \<le> acc_next_group_idx a \<longrightarrow> slots ds = 8" "ds \<noteq> []"
proof -
  obtain k where k: "into_batch a = Inr (batch_of (cs @ close_chunk cur # replicate k ([Noop], True)))"
    "slots cs + 1 + length (imms cur) + k \<in> {1, 2, 4, 8}" "7 \<le> slots cs + 1 + length (imms cur) \<longrightarrow> slots cs + 1 + length (imms cur) + k = 8"
    using into_batch_rep [OF assms] .
  have slots: "slots (replicate k ([Noop], True)) = k" for k by (induction k) simp_all
  have "chunk_ok ([Noop], True)" by (simp add: chunk_ok_def)
  then have "chunks_ok (cs @ close_chunk cur # replicate k ([Noop], True))"
    using assms k(2) chunk_ok_close_chunk [of cur] by (auto simp: chunks_ok_def acc_rep_def slots)
  moreover have "raw_chunk ([Noop], True) = []" by (simp add: raw_chunk_def)
  then have "raw_chunks (cs @ close_chunk cur # replicate k ([Noop], True)) = acc_raw cs cur"
    by (simp add: raw_chunks_def acc_raw_def)
  ultimately show ?thesis using that [OF k(1)] k(3) acc_rep_fields [OF assms] by (simp add: slots add.assoc)
qed

lemma not_accept_full:
  "acc_rep a cs cur \<Longrightarrow> \<not> can_accept_op a op \<Longrightarrow> 7 \<le> acc_next_group_idx a"
  by (auto simp: can_accept_op_def BATCH_SIZE_def split: if_splits)

lemma can_accept_new: "can_accept_op acc_new op"
  by (simp add: can_accept_op_def acc_new_def BATCH_SIZE_def GROUP_SIZE_def)

lemma batch_ops_fold:
  "\<exists>css acc cs cur. res_fold (\<lambda>op (batches, acc).
        res_bind (if \<not> can_accept_op acc op
                  then res_bind (into_batch acc) (\<lambda>batch. Inr (batches @ [batch], acc_new))
                  else Inr (batches, acc)) (\<lambda>(batches, acc).
        res_bind (add_op acc op) (\<lambda>acc. Inr (batches, acc)))) operations ([], acc_new) = Inr (map batch_of css, acc) \<and>
     acc_rep acc cs cur \<and> (\<forall>ds \<in> set css. chunks_ok ds \<and> slots ds = 8) \<and>
     concat (map raw_chunks css) @ acc_raw cs cur = operations \<and> (operations \<noteq> [] \<longrightarrow> cur \<noteq> [])"
    (is "\<exists>css acc cs cur. res_fold ?f operations _ = _ \<and> _")
proof (induction operations rule: rev_induct)
  case Nil
  show ?case
    by (rule exI [of _ "[]"], rule exI [of _ acc_new], rule exI [of _ "[]"], rule exI [of _ "[]"])
       (simp add: acc_rep_new acc_raw_def)
next
  case (snoc op xs)
  then obtain css acc cs cur where IH: "res_fold ?f xs ([], acc_new) = Inr (map batch_of css, acc)" "acc_rep acc cs cur"
    "\<forall>ds \<in> set css. chunks_ok ds \<and> slots ds = 8" "concat (map raw_chunks css) @ acc_raw cs cur = xs" by blast
  obtain css' acc' cs' cur' where st: "(if \<not> can_accept_op acc op
                  then res_bind (into_batch acc) (\<lambda>batch. Inr (map batch_of css @ [batch], acc_new))
                  else Inr (map batch_of css, acc)) = Inr (map batch_of css', acc')" "acc_rep acc' cs' cur'" "can_accept_op acc' op"
    "\<forall>ds \<in> set css'. chunks_ok ds \<and> slots ds = 8" "concat (map raw_chunks css') @ acc_raw cs' cur' = xs"
  proof (cases "can_accept_op acc op")
    case True
    then show ?thesis using that [of css acc cs cur] IH by simp
  next
    case False
    obtain ds where "into_batch acc = Inr (batch_of ds)" "chunks_ok ds" "raw_chunks ds = acc_raw cs cur" "slots ds = 8"
      using into_batch_chunks [OF IH(2)] not_accept_full [OF IH(2) False] by auto
    then show ?thesis using that [of "css @ [ds]" acc_new "[]" "[]"] IH False
      by (simp add: acc_rep_new can_accept_new acc_raw_def [of "[]"])
  qed
  obtain a'' cs'' cur'' where "add_op acc' op = Inr a''" "acc_rep a'' cs'' cur''" "acc_raw cs'' cur'' = acc_raw cs' cur' @ [op]" "cur'' \<noteq> []"
    using add_op_rep [OF st(2,3)] .
  with st IH(1) show ?case
    by (intro exI [of _ css'] exI [of _ a''] exI [of _ cs''] exI [of _ cur'']) (auto simp: res_fold_append)
qed

lemma batch_ops_chunks:
  obtains css where "batch_ops operations = Inr (map batch_of css)" "\<forall>cs \<in> set css. chunks_ok cs"
    "\<forall>cs \<in> set (butlast css). slots cs = 8" "concat (map raw_chunks css) = operations"
proof -
  obtain css acc cs cur where *: "res_fold (\<lambda>op (batches, acc).
        res_bind (if \<not> can_accept_op acc op
                  then res_bind (into_batch acc) (\<lambda>batch. Inr (batches @ [batch], acc_new))
                  else Inr (batches, acc)) (\<lambda>(batches, acc).
        res_bind (add_op acc op) (\<lambda>acc. Inr (batches, acc)))) operations ([], acc_new) = Inr (map batch_of css, acc)"
    "acc_rep acc cs cur" "\<forall>ds \<in> set css. chunks_ok ds \<and> slots ds = 8"
    "concat (map raw_chunks css) @ acc_raw cs cur = operations" "operations \<noteq> [] \<longrightarrow> cur \<noteq> []"
    using batch_ops_fold [of operations] by blast
  show ?thesis
  proof (cases "acc_is_empty acc")
    case True
    then have "acc_raw cs cur = []" using *(2)
      by (cases cs) (auto simp: acc_is_empty_def acc_rep_def acc_raw_def chunk_ok_def)
    with * True show ?thesis using that [of css] by (auto simp: batch_ops_def dest: in_set_butlastD)
  next
    case False
    obtain ds where "into_batch acc = Inr (batch_of ds)" "chunks_ok ds" "raw_chunks ds = acc_raw cs cur"
      using into_batch_chunks [OF *(2)] by metis
    with * False show ?thesis using that [of "css @ [ds]"] by (auto simp: batch_ops_def)
  qed
qed

end
