(* ===== verification/Batch_Validate.thy ===== *)
theory Batch_Validate
  imports Op_Batch
begin

text \<open>
  Validation of operation batches (\<open>basic_block_node/mod.rs\<close>), their serialised metadata
  (\<open>serialization/basic_blocks.rs\<close>), and the translation between indices of raw and padded operations.
  Batches built from operations pass the validation and survive serialisation.  The messages of the errors are
  the constructors of \<open>batch_error\<close>; the fixed-size arrays of the source are lists of that length.
\<close>

unbundle bit_operations_syntax

section \<open>Validation\<close>

datatype batch_error =
    BatchNotFull nat nat
  | BatchNotPowerOfTwo nat nat
  | ImmediateInLastGroup nat nat nat
  | EndsWithImmediate nat nat
  | TooManyGroups nat nat
  | IndptrNotMonotonic nat nat
  | FinalIndptrMismatch nat nat nat
  | GroupTooLarge nat nat nat
  | OpcodeGroupMismatch nat nat
  | ImmediateExceedsSlots
  | ImmediateExceedsNumGroups nat nat
  | ImmediateOverlapsGroup nat
  | ImmediateMismatch nat nat
  | EmptyGroupNotZero nat nat
  | NumGroupsExceedsBatchSize nat
  | EmptyGroupPadded nat
  | InvalidGroupBounds nat
  | PaddedGroupNotNoop nat
  | IndptrDeltaTooLarge nat nat
  | BatchExceedsOperations nat nat

definition check_all :: "('a \<Rightarrow> 'e + unit) \<Rightarrow> 'a list \<Rightarrow> 'e + unit" where
  "check_all f xs = res_fold (\<lambda>x _. f x) xs ()"

definition is_power_of_two :: "nat \<Rightarrow> bool" where
  "is_power_of_two n = (n \<in> set (map (\<lambda>j. 2 ^ j) [0..<64]))"

definition validate_power_of_two_groups :: "op_batch list \<Rightarrow> batch_error + unit" where
  "validate_power_of_two_groups op_batches =
     check_all (\<lambda>(batch_idx, batch).
       let num = b_num_groups batch in
       if batch_idx + 1 < length op_batches
       then (if num \<noteq> BATCH_SIZE then Inl (BatchNotFull batch_idx num) else Inr ())
       else if \<not> is_power_of_two num then Inl (BatchNotPowerOfTwo batch_idx num) else Inr ())
     (enumerate 0 op_batches)"

definition check_endings :: "nat \<Rightarrow> op_batch \<Rightarrow> batch_error + unit" where
  "check_endings batch_idx batch =
     check_all (\<lambda>group_idx.
       let group_start = b_indptr batch ! group_idx;
           group_end = b_indptr batch ! (group_idx + 1);
           group_ops = slice_of (b_ops batch) group_start group_end
       in if group_start = group_end then Inr ()
          else if group_idx = b_num_groups batch - 1
          then check_all (\<lambda>(op_idx, op).
                 if imm_value op \<noteq> None then Inl (ImmediateInLastGroup batch_idx group_idx op_idx) else Inr ())
               (enumerate 0 group_ops)
          else if group_ops \<noteq> [] \<and> imm_value (last group_ops) \<noteq> None
          then Inl (EndsWithImmediate batch_idx group_idx) else Inr ())
     [0..<b_num_groups batch]"

definition validate_no_immediate_endings :: "op_batch list \<Rightarrow> batch_error + unit" where
  "validate_no_immediate_endings op_batches =
     check_all (\<lambda>(batch_idx, batch). check_endings batch_idx batch) (enumerate 0 op_batches)"

definition check_structure :: "nat \<Rightarrow> op_batch \<Rightarrow> batch_error + unit" where
  "check_structure batch_idx batch =
     (if b_num_groups batch > BATCH_SIZE then Inl (TooManyGroups batch_idx (b_num_groups batch))
      else res_bind (check_all (\<lambda>i.
             if b_indptr batch ! i > b_indptr batch ! (i + 1) then Inl (IndptrNotMonotonic batch_idx i) else Inr ())
             [0..<length (b_indptr batch) - 1]) (\<lambda>_.
      if b_indptr batch ! (length (b_indptr batch) - 1) \<noteq> length (b_ops batch)
      then Inl (FinalIndptrMismatch batch_idx (b_indptr batch ! (length (b_indptr batch) - 1)) (length (b_ops batch)))
      else check_all (\<lambda>group_idx.
             let group_size = b_indptr batch ! (group_idx + 1) - b_indptr batch ! group_idx in
             if group_size > GROUP_SIZE then Inl (GroupTooLarge batch_idx group_idx group_size) else Inr ())
           [0..<b_num_groups batch]))"

definition validate_batch_structure :: "op_batch list \<Rightarrow> batch_error + unit" where
  "validate_batch_structure op_batches =
     check_all (\<lambda>(batch_idx, batch). check_structure batch_idx batch) (enumerate 0 op_batches)"

definition collect_immediate_placements ::
    "operation list \<Rightarrow> nat list \<Rightarrow> nat \<Rightarrow> nat \<Rightarrow> nat option \<Rightarrow> batch_error + (nat \<times> felt) list \<times> nat" where
  "collect_immediate_placements operations ptr group_idx max_groups num_groups =
     res_fold (\<lambda>op (placements, next_group_idx).
       case imm_value op of
         None \<Rightarrow> Inr (placements, next_group_idx)
       | Some imm \<Rightarrow>
           if next_group_idx \<ge> max_groups then Inl ImmediateExceedsSlots
           else if (case num_groups of Some n \<Rightarrow> next_group_idx \<ge> n | None \<Rightarrow> False)
           then Inl (ImmediateExceedsNumGroups next_group_idx (the num_groups))
           else if ptr ! next_group_idx \<noteq> ptr ! (next_group_idx + 1)
           then Inl (ImmediateOverlapsGroup next_group_idx)
           else Inr (placements @ [(next_group_idx, imm)], next_group_idx + 1))
     (slice_of operations (ptr ! group_idx) (ptr ! (group_idx + 1))) ([], group_idx + 1)"

definition group_value :: "operation list \<Rightarrow> u64" where
  "group_value group_ops =
     fold (\<lambda>(local_op_idx, op) v. v OR push_bit (OP_BITS * local_op_idx) (ucast (op_code op)))
       (enumerate 0 group_ops) 0"

definition check_group_commitment ::
    "nat \<Rightarrow> op_batch \<Rightarrow> nat \<Rightarrow> bool list \<Rightarrow> batch_error + bool list" where
  "check_group_commitment batch_idx batch group_idx immediate_slots =
     (let group_start = b_indptr batch ! group_idx; group_end = b_indptr batch ! (group_idx + 1) in
      if group_start = group_end then Inr immediate_slots
      else if b_groups batch ! group_idx \<noteq> felt_from_u64 (group_value (slice_of (b_ops batch) group_start group_end))
      then Inl (OpcodeGroupMismatch batch_idx group_idx)
      else res_bind (collect_immediate_placements (b_ops batch) (b_indptr batch) group_idx BATCH_SIZE
                      (Some (b_num_groups batch))) (\<lambda>(placements, _).
           res_fold (\<lambda>(imm_group_idx, imm) immediate_slots.
             if b_groups batch ! imm_group_idx \<noteq> imm then Inl (ImmediateMismatch batch_idx imm_group_idx)
             else Inr (immediate_slots[imm_group_idx := True])) placements immediate_slots))"

definition check_commitment :: "nat \<Rightarrow> op_batch \<Rightarrow> batch_error + unit" where
  "check_commitment batch_idx batch =
     res_bind (res_fold (check_group_commitment batch_idx batch) [0..<b_num_groups batch] (replicate BATCH_SIZE False))
       (\<lambda>immediate_slots.
     check_all (\<lambda>group_idx.
       if b_indptr batch ! group_idx = b_indptr batch ! (group_idx + 1) \<and> \<not> immediate_slots ! group_idx \<and>
          b_groups batch ! group_idx \<noteq> 0
       then Inl (EmptyGroupNotZero batch_idx group_idx) else Inr ()) [0..<b_num_groups batch])"

definition validate_immediate_commitment :: "op_batch list \<Rightarrow> batch_error + unit" where
  "validate_immediate_commitment op_batches =
     check_all (\<lambda>(batch_idx, batch). check_commitment batch_idx batch) (enumerate 0 op_batches)"

definition batch_validate_padding_semantics :: "op_batch \<Rightarrow> batch_error + unit" where
  "batch_validate_padding_semantics batch =
     (if b_num_groups batch > BATCH_SIZE then Inl (NumGroupsExceedsBatchSize (b_num_groups batch))
      else check_all (\<lambda>group_idx.
        if \<not> b_padding batch ! group_idx then Inr ()
        else let group_start = b_indptr batch ! group_idx; group_end = b_indptr batch ! (group_idx + 1) in
          if group_start = group_end then Inl (EmptyGroupPadded group_idx)
          else if group_start > group_end then Inl (InvalidGroupBounds group_idx)
          else if length (b_ops batch) \<le> group_end - 1 then Inl (InvalidGroupBounds group_idx)
          else if b_ops batch ! (group_end - 1) \<noteq> Noop then Inl (PaddedGroupNotNoop group_idx)
          else Inr ()) [0..<b_num_groups batch])"

definition validate_padding_semantics :: "op_batch list \<Rightarrow> batch_error + unit" where
  "validate_padding_semantics op_batches = check_all batch_validate_padding_semantics op_batches"

definition validate_batch_invariants :: "op_batch list \<Rightarrow> batch_error + unit" where
  "validate_batch_invariants op_batches =
     res_bind (validate_power_of_two_groups op_batches) (\<lambda>_.
     res_bind (validate_batch_structure op_batches) (\<lambda>_.
     res_bind (validate_no_immediate_endings op_batches) (\<lambda>_.
     res_bind (validate_immediate_commitment op_batches) (\<lambda>_.
     validate_padding_semantics op_batches))))"

section \<open>Serialised metadata\<close>

text \<open>The serialised form of a basic block, up to the byte encoding of vectors, which is provided by a package
  outside the repository.\<close>

record basic_block_data =
  bd_operations :: "operation list"
  bd_num_batches :: nat
  bd_indptr :: "8 word list list"
  bd_padding :: "8 word list"

definition pack_indptr_deltas :: "nat list \<Rightarrow> 8 word list" where
  "pack_indptr_deltas ptr =
     fold (\<lambda>i packed.
       let delta = ptr ! (i + 1) - ptr ! i; byte_idx = i div 2; nibble_shift = (i mod 2) * 4
       in packed[byte_idx := packed ! byte_idx OR push_bit nibble_shift (of_nat delta)])
     [0..<8] (replicate 4 0)"

definition unpack_indptr_deltas :: "8 word list \<Rightarrow> batch_error + nat list" where
  "unpack_indptr_deltas packed =
     res_fold (\<lambda>i ptr.
       let byte_idx = i div 2; nibble_shift = (i mod 2) * 4;
           delta = unat (drop_bit nibble_shift (packed ! byte_idx) AND 0x0F)
       in if delta > GROUP_SIZE then Inl (IndptrDeltaTooLarge delta i)
          else Inr (ptr[i + 1 := ptr ! i + delta]))
     [0..<8] (replicate 9 0)"

definition pack_padding :: "bool list \<Rightarrow> 8 word" where
  "pack_padding padding = fold (\<lambda>(i, is_padded) packed. if is_padded then packed OR push_bit i 1 else packed)
     (enumerate 0 (take 8 padding)) 0"

definition unpack_padding :: "8 word \<Rightarrow> bool list" where
  "unpack_padding packed = map (\<lambda>i. packed AND push_bit i 1 \<noteq> 0) [0..<8]"

definition encode_basic_block :: "op_batch list \<Rightarrow> basic_block_data" where
  "encode_basic_block op_batches =
     \<lparr>bd_operations = concat (map b_ops op_batches),
      bd_num_batches = length op_batches,
      bd_indptr = map (\<lambda>batch. pack_indptr_deltas (b_indptr batch)) op_batches,
      bd_padding = map (\<lambda>batch. pack_padding (b_padding batch)) op_batches\<rparr>"

definition decode_group ::
    "operation list \<Rightarrow> nat list \<Rightarrow> nat \<Rightarrow> felt list \<times> nat \<Rightarrow> batch_error + felt list \<times> nat" where
  "decode_group batch_operations ptr array_idx = (\<lambda>(groups, next_group_idx).
     let start = ptr ! array_idx; end = ptr ! (array_idx + 1) in
     if start < end
     then let groups = groups[array_idx := felt_from_u64 (group_value (slice_of batch_operations start end))] in
          res_bind (collect_immediate_placements batch_operations ptr array_idx BATCH_SIZE None)
            (\<lambda>(placements, next_group_idx_after).
          Inr (fold (\<lambda>(imm_group_idx, imm) groups. groups[imm_group_idx := imm]) placements groups, next_group_idx_after))
     else Inr (groups, next_group_idx))"

definition decode_batch ::
    "operation list \<Rightarrow> nat list \<times> bool list \<Rightarrow> op_batch list \<times> nat \<Rightarrow> batch_error + op_batch list \<times> nat" where
  "decode_batch operations = (\<lambda>(ptr, padding) (op_batches, global_op_offset).
     let highest_op_group = (case find (\<lambda>i. ptr ! i > ptr ! (i - 1)) (rev [1..<9]) of Some i \<Rightarrow> i | None \<Rightarrow> 1);
         batch_num_ops = ptr ! highest_op_group;
         batch_ops_end = global_op_offset + batch_num_ops
     in if batch_ops_end > length operations then Inl (BatchExceedsOperations batch_ops_end (length operations))
        else let batch_operations = slice_of operations global_op_offset batch_ops_end in
          res_bind (res_fold (decode_group batch_operations ptr) [0..<highest_op_group] (replicate 8 0, 0))
            (\<lambda>(groups, num_groups).
          let op_batch = \<lparr>b_ops = batch_operations, b_indptr = ptr, b_padding = padding, b_groups = groups,
                          b_num_groups = num_groups\<rparr>
          in res_bind (batch_validate_padding_semantics op_batch) (\<lambda>_.
             Inr (op_batches @ [op_batch], batch_ops_end))))"

definition decode_operations :: "basic_block_data \<Rightarrow> batch_error + op_batch list" where
  "decode_operations data =
     res_bind (res_fold (\<lambda>packed ptrs. res_bind (unpack_indptr_deltas packed) (\<lambda>ptr. Inr (ptrs @ [ptr]))) (bd_indptr data) [])
       (\<lambda>batch_indptrs.
     res_map fst (res_fold (decode_batch (bd_operations data))
       (zip batch_indptrs (map unpack_padding (bd_padding data))) ([], 0)))"

section \<open>Raw and padded indices\<close>

definition raw_group_step :: "op_batch \<Rightarrow> nat \<Rightarrow> nat list \<times> nat \<Rightarrow> nat list \<times> nat" where
  "raw_group_step b g = (\<lambda>(v, pads_so_far).
     let group_len = b_indptr b ! (g + 1) - b_indptr b ! g;
         has_pad = (if b_padding b ! g then 1 else 0);
         raw_in_g = group_len - has_pad
     in (v @ replicate raw_in_g pads_so_far, pads_so_far + has_pad))"

definition raw_to_padded_prefix :: "op_batch list \<Rightarrow> nat list" where
  "raw_to_padded_prefix op_batches =
     (let (v, pads_so_far) = fold (\<lambda>b. fold (raw_group_step b) [0..<b_num_groups b]) op_batches ([], 0)
      in v @ [pads_so_far])"

definition padded_group_step :: "op_batch \<Rightarrow> nat \<Rightarrow> nat list \<times> nat \<Rightarrow> nat list \<times> nat" where
  "padded_group_step b g = (\<lambda>(v, pads_so_far).
     let group_len = b_indptr b ! (g + 1) - b_indptr b ! g;
         has_pad = (if b_padding b ! g then 1 else 0 :: nat);
         raw_in_g = group_len - has_pad;
         v = v @ replicate raw_in_g pads_so_far
     in if has_pad = 1 then (v @ [pads_so_far], pads_so_far + 1) else (v, pads_so_far))"

definition padded_to_raw_prefix :: "op_batch list \<Rightarrow> nat list" where
  "padded_to_raw_prefix op_batches =
     (let (v, pads_so_far) = fold (\<lambda>b. fold (padded_group_step b) [0..<b_num_groups b]) op_batches ([], 0)
      in v @ [pads_so_far])"

definition adjust_asm_op_indices :: "(nat \<times> 'a) list \<Rightarrow> op_batch list \<Rightarrow> (nat \<times> 'a) list" where
  "adjust_asm_op_indices asm_ops op_batches =
     (let raw2pad = raw_to_padded_prefix op_batches in
      map (\<lambda>(raw_idx, id). (raw_idx + raw2pad ! raw_idx, id)) asm_ops)"

definition adjust_decorators :: "(nat \<times> 'd) list \<Rightarrow> op_batch list \<Rightarrow> (nat \<times> 'd) list" where
  "adjust_decorators decorators op_batches =
     (let raw2pad = raw_to_padded_prefix op_batches in
      map (\<lambda>(raw_idx, dec_id). (raw_idx + raw2pad ! raw_idx, dec_id)) decorators)"

definition unadjust_asm_op_indices :: "(nat \<times> 'a) list \<Rightarrow> op_batch list \<Rightarrow> (nat \<times> 'a) list" where
  "unadjust_asm_op_indices asm_ops op_batches =
     (let pad2raw = padded_to_raw_prefix op_batches in
      map (\<lambda>(padded_idx, id). (padded_idx - pad2raw ! padded_idx, id)) asm_ops)"

section \<open>Positions in a batch\<close>

lemma slot_cases:
  assumes "i < slots cs"
  obtains (ops) pre c post where "cs = pre @ c # post" "i = slots pre"
  | (imm) pre c post k where "cs = pre @ c # post" "i = slots pre + 1 + k" "k < length (imms (fst c))"
  using assms
proof (induction cs arbitrary: i thesis)
  case (Cons c cs)
  show ?case
  proof (cases "i < Suc (length (imms (fst c)))")
    case True
    then show ?thesis using Cons.prems(1) [of "[]" c cs] Cons.prems(2) [of "[]" c cs "i - 1"] by (cases i) auto
  next
    case False
    then have "i - Suc (length (imms (fst c))) < slots cs" using Cons.prems(3) by simp
    then show ?thesis
    proof (rule Cons.IH [rotated 2])
      fix pre d post
      assume "cs = pre @ d # post" "i - Suc (length (imms (fst c))) = slots pre"
      then show ?thesis using False Cons.prems(1) [of "c # pre" d post] by simp
    next
      fix pre d post k
      assume "cs = pre @ d # post" "i - Suc (length (imms (fst c))) = slots pre + 1 + k" "k < length (imms (fst d))"
      then show ?thesis using False Cons.prems(2) [of "c # pre" d post k] by simp
    qed
  qed
qed simp

lemma batch_of_ops_at:
  assumes "cs = pre @ c # post" "slots cs \<le> 8" "b = batch_of cs"
  shows "b_indptr b ! slots pre = length (chunk_ops pre)"
    and "b_groups b ! slots pre = encode_group (fst c)"
    and "b_padding b ! slots pre = snd c"
    and "slice_of (b_ops b) (length (chunk_ops pre)) (length (chunk_ops pre) + length (fst c)) = fst c"
  using assms(2) unfolding assms(1,3) by (simp_all add: batch_of_def nth_append slice_of_def)

lemma batch_of_imm_at:
  assumes "cs = pre @ c # post" "slots cs \<le> 8" "b = batch_of cs" "k < length (imms (fst c))"
  shows "b_groups b ! (slots pre + 1 + k) = imms (fst c) ! k" "\<not> b_padding b ! (slots pre + 1 + k)"
  using assms(2,4) unfolding assms(1,3) by (simp_all add: batch_of_def nth_append)

lemma batch_of_end_at:
  assumes "cs = pre @ c # post" "slots cs \<le> 8" "b = batch_of cs" "k \<le> length (imms (fst c))"
  shows "b_indptr b ! (slots pre + 1 + k) = length (chunk_ops pre) + length (fst c)"
proof (cases "k = length (imms (fst c))")
  case True
  then show ?thesis using assms(2) unfolding assms(1,3) by (cases post) (simp_all add: batch_of_def nth_append)
next
  case False
  then show ?thesis using assms(2,4) unfolding assms(1,3) by (simp add: batch_of_def nth_append)
qed

lemma chunk_ok_nonempty: "chunk_ok c \<Longrightarrow> 0 < length (fst c) \<and> length (fst c) \<le> 9"
  by (auto simp: chunk_ok_def)

text \<open>A property of all groups holds when it holds at the groups of operations and at the immediate values.\<close>

lemma all_slots:
  assumes "chunks_ok cs"
    and "\<And>pre c post. cs = pre @ c # post \<Longrightarrow> chunk_ok c \<Longrightarrow> P (slots pre)"
    and "\<And>pre c post k. cs = pre @ c # post \<Longrightarrow> k < length (imms (fst c)) \<Longrightarrow> P (slots pre + 1 + k)"
  shows "\<forall>i \<in> set [0..<slots cs]. P i"
proof
  fix i
  assume "i \<in> set [0..<slots cs]"
  then have "i < slots cs" by simp
  then show "P i"
  proof (cases rule: slot_cases)
    case (ops pre c post)
    moreover have "chunk_ok c" using assms(1) ops(1) by (simp add: chunks_ok_def)
    ultimately show ?thesis using assms(2) by metis
  next
    case (imm pre c post k)
    then show ?thesis using assms(3) by metis
  qed
qed

section \<open>Batches built from operations are valid\<close>

lemma check_all_ok: "check_all f xs = Inr () \<longleftrightarrow> (\<forall>x \<in> set xs. f x = Inr ())"
proof (induction xs)
  case (Cons x xs)
  then show ?case by (cases "f x") (auto simp: check_all_def)
qed (simp add: check_all_def)

lemma check_batches_ok:
  "(\<And>i b. i < length bs \<Longrightarrow> b = bs ! i \<Longrightarrow> f (i, b) = Inr ()) \<Longrightarrow> check_all f (enumerate 0 bs) = Inr ()"
  by (auto simp: check_all_ok in_set_enumerate_eq)

lemma chunks_okD: "chunks_ok cs \<Longrightarrow> slots cs \<le> 8 \<and> 1 \<le> slots cs"
  by (auto simp: chunks_ok_def)

lemma raw_ops_batch_of:
  assumes "chunks_ok cs"
  shows "raw_ops (batch_of cs) = raw_chunks cs"
proof -
  define b where "b = batch_of cs"
  define f where "f i = (let padded = b_padding b ! i; start_idx = b_indptr b ! i;
         end_idx = b_indptr b ! (i + 1) - (if padded then 1 else 0) in slice_of (b_ops b) start_idx end_idx)" for i
  have le: "slots cs \<le> 8" using chunks_okD [OF assms] by simp
  have group: "f (slots pre) = raw_chunk c" if "cs = pre @ c # post" for pre c post
  proof -
    have *: "slice_of (b_ops b) (length (chunk_ops pre)) (length (chunk_ops pre) + length (fst c)) = fst c"
      using batch_of_ops_at(4) [OF that le b_def] .
    have "slice_of (b_ops b) (length (chunk_ops pre)) (length (chunk_ops pre) + length (fst c) - 1) =
        take (length (fst c) - 1) (slice_of (b_ops b) (length (chunk_ops pre)) (length (chunk_ops pre) + length (fst c)))"
      by (cases "fst c = []") (simp_all add: slice_of_def)
    then have "slice_of (b_ops b) (length (chunk_ops pre)) (length (chunk_ops pre) + length (fst c) - 1) = butlast (fst c)"
      unfolding * by (simp only: butlast_conv_take)
    then show ?thesis
      using batch_of_ops_at [OF that le b_def] batch_of_end_at [OF that le b_def, of 0] by (simp add: f_def raw_chunk_def)
  qed
  have imm: "f (slots pre + 1 + k) = []" if "cs = pre @ c # post" "k < length (imms (fst c))" for pre c post k
    using batch_of_imm_at [OF that(1) le b_def that(2)] batch_of_end_at [OF that(1) le b_def, of k]
      batch_of_end_at [OF that(1) le b_def, of "k + 1"] that(2) by (simp add: f_def slice_of_def)
  have "concat (map f [0..<slots pre]) = raw_chunks pre" if "cs = pre @ post" for pre post
    using that
  proof (induction pre arbitrary: post rule: rev_induct)
    case (snoc c pre)
    then have cs: "cs = pre @ c # post" by simp
    define n where "n = length (imms (fst c))"
    have "map f [Suc (slots pre)..<Suc (slots pre) + n] = map (\<lambda>_. []) [Suc (slots pre)..<Suc (slots pre) + n]"
    proof (rule map_cong [OF refl])
      fix i
      assume "i \<in> set [Suc (slots pre)..<Suc (slots pre) + n]"
      then have "i = slots pre + 1 + (i - Suc (slots pre))" "i - Suc (slots pre) < n"
        by (simp_all only: set_upt atLeastLessThan_iff) linarith+
      then show "f i = []" using imm [OF cs] unfolding n_def by metis
    qed
    then have "concat (map f [Suc (slots pre)..<Suc (slots pre) + n]) = []" by (simp only: concat_eq_Nil_conv) auto
    moreover have "[0..<slots (pre @ [c])] = [0..<slots pre] @ slots pre # [Suc (slots pre)..<Suc (slots pre) + n]"
      using upt_add_eq_append [of 0 "slots pre" "Suc n"] by (simp add: n_def upt_conv_Cons del: upt_Suc)
    ultimately show ?case using snoc.IH [OF cs] group [OF cs] by (simp add: raw_chunks_def del: upt_Suc)
  qed (simp add: raw_chunks_def)
  from this [of cs "[]"] show ?thesis by (simp add: raw_ops_def f_def [abs_def] b_def batch_of_def [of cs])
qed

lemma validate_power_of_two_ok:
  assumes "\<forall>cs \<in> set css. chunks_ok cs" "\<forall>cs \<in> set (butlast css). slots cs = 8"
  shows "validate_power_of_two_groups (map batch_of css) = Inr ()"
  unfolding validate_power_of_two_groups_def
proof (rule check_batches_ok, clarify)
  fix i
  assume i: "i < length (map batch_of css)"
  then have n: "b_num_groups (map batch_of css ! i) = slots (css ! i)" by (simp add: batch_of_def)
  have "i + 1 < length css \<Longrightarrow> css ! i \<in> set (butlast css)"
    using nth_mem [of i "butlast css"] by (simp add: nth_butlast)
  then have full: "i + 1 < length css \<Longrightarrow> slots (css ! i) = 8" using assms(2) by blast
  have "chunks_ok (css ! i)" using assms(1) i by simp
  then have "slots (css ! i) \<in> (\<lambda>j. 2 ^ j) ` {0, 1, 2, 3}" by (auto simp: chunks_ok_def)
  moreover have "{0, 1, 2, 3} \<subseteq> set [0..<64]" by simp
  ultimately have "is_power_of_two (slots (css ! i))" unfolding is_power_of_two_def set_map by blast
  then show "(let num = b_num_groups (map batch_of css ! i) in
       if i + 1 < length (map batch_of css)
       then (if num \<noteq> BATCH_SIZE then Inl (BatchNotFull i num) else Inr ())
       else if \<not> is_power_of_two num then Inl (BatchNotPowerOfTwo i num) else Inr ()) = Inr ()"
    using full unfolding n by (simp add: BATCH_SIZE_def Let_def)
qed

lemma ptrs_sorted: "sorted (ptrs s cs) \<and> (\<forall>x \<in> set (ptrs s cs). s \<le> x \<and> x \<le> s + length (chunk_ops cs))"
proof (induction cs arbitrary: s)
  case (Cons c cs)
  from Cons.IH [of "s + length (fst c)"] show ?case
    by (auto simp: sorted_append sorted_replicate)
qed simp

lemma batch_of_sizes:
  "slots cs \<le> 8 \<Longrightarrow> length (b_indptr (batch_of cs)) = 9 \<and> length (b_padding (batch_of cs)) = 8 \<and> length (b_groups (batch_of cs)) = 8"
  by (simp add: batch_of_def)

lemma batch_of_sorted: "sorted (b_indptr (batch_of cs))"
  using ptrs_sorted [of 0 cs] by (auto simp: batch_of_def sorted_append sorted_replicate)

lemma batch_of_group_sizes:
  assumes ok: "chunks_ok cs" and b: "b = batch_of cs"
  shows "\<forall>j \<in> set [0..<slots cs]. b_indptr b ! (j + 1) - b_indptr b ! j \<le> GROUP_SIZE"
proof (rule all_slots [OF ok])
  have le: "slots cs \<le> 8" using chunks_okD [OF ok] by simp
  fix pre c post
  assume c: "cs = pre @ c # post"
  show "b_indptr b ! (slots pre + 1) - b_indptr b ! slots pre \<le> GROUP_SIZE" if "chunk_ok c"
    using batch_of_end_at [OF c le b, of 0] batch_of_ops_at(1) [OF c le b] chunk_ok_nonempty [OF that]
    by (simp add: GROUP_SIZE_def)
  show "b_indptr b ! (slots pre + 1 + k + 1) - b_indptr b ! (slots pre + 1 + k) \<le> GROUP_SIZE" if "k < length (imms (fst c))" for k
    using batch_of_end_at [OF c le b, of k] batch_of_end_at [OF c le b, of "k + 1"] that by simp
qed

lemma check_structure_ok:
  assumes ok: "chunks_ok cs"
  shows "check_structure i (batch_of cs) = Inr ()"
proof -
  define b where "b = batch_of cs"
  have le: "slots cs \<le> 8" using chunks_okD [OF ok] by simp
  have num: "b_num_groups b = slots cs" by (simp add: b_def batch_of_def)
  have len: "length (b_indptr b) = 9" using batch_of_sizes [OF le] by (simp add: b_def)
  have sorted: "sorted (b_indptr b)" unfolding b_def by (rule batch_of_sorted)
  have incr: "\<not> b_indptr b ! j > b_indptr b ! (j + 1)" if "j \<in> set [0..<length (b_indptr b) - 1]" for j
    using sorted_nth_mono [OF sorted, of j "j + 1"] that len by auto
  have final: "b_indptr b ! (length (b_indptr b) - 1) = length (b_ops b)"
    unfolding len using le by (simp add: b_def batch_of_def nth_append)
  have sizes: "check_all (\<lambda>group_idx. let group_size = b_indptr b ! (group_idx + 1) - b_indptr b ! group_idx
      in if group_size > GROUP_SIZE then Inl (GroupTooLarge i group_idx group_size) else Inr ()) [0..<b_num_groups b] = Inr ()"
    using batch_of_group_sizes [OF ok b_def] by (auto simp: check_all_ok Let_def num simp del: set_upt)
  have incrs: "check_all (\<lambda>j. if b_indptr b ! j > b_indptr b ! (j + 1) then Inl (IndptrNotMonotonic i j) else Inr ())
      [0..<length (b_indptr b) - 1] = Inr ()"
    unfolding check_all_ok using incr by simp
  show ?thesis
    unfolding b_def [symmetric] check_structure_def incrs using le final sizes by (simp add: num BATCH_SIZE_def)
qed

lemma check_endings_ok:
  assumes ok: "chunks_ok cs"
  shows "check_endings i (batch_of cs) = Inr ()"
proof -
  define b where "b = batch_of cs"
  have le: "slots cs \<le> 8" using chunks_okD [OF ok] by simp
  have num: "b_num_groups b = slots cs" by (simp add: b_def batch_of_def)
  show ?thesis
    unfolding b_def [symmetric] check_endings_def num check_all_ok [of _ "[0..<slots cs]"]
  proof (rule all_slots [OF ok])
    fix pre c post
    assume c: "cs = pre @ c # post" "chunk_ok c"
    have "slots pre = slots cs - 1 \<Longrightarrow> \<forall>op \<in> set (fst c). imm_value op = None"
      unfolding c(1) by (auto simp: imms_def has_imm_def filter_empty_conv)
    then show "(let group_start = b_indptr b ! slots pre;
           group_end = b_indptr b ! (slots pre + 1);
           group_ops = slice_of (b_ops b) group_start group_end
       in if group_start = group_end then Inr ()
          else if slots pre = slots cs - 1
          then check_all (\<lambda>(op_idx, op).
                 if imm_value op \<noteq> None then Inl (ImmediateInLastGroup i (slots pre) op_idx) else Inr ())
               (enumerate 0 group_ops)
          else if group_ops \<noteq> [] \<and> imm_value (last group_ops) \<noteq> None
          then Inl (EndsWithImmediate i (slots pre)) else Inr ()) = Inr ()"
      using batch_of_end_at [OF c(1) le b_def, of 0] batch_of_ops_at [OF c(1) le b_def] c(2)
      by (auto simp: Let_def chunk_ok_def has_imm_def check_all_ok in_set_enumerate_eq)
  next
    fix pre c post k
    assume c: "cs = pre @ c # post" "k < length (imms (fst c))"
    then show "(let group_start = b_indptr b ! (slots pre + 1 + k);
           group_end = b_indptr b ! (slots pre + 1 + k + 1);
           group_ops = slice_of (b_ops b) group_start group_end
       in if group_start = group_end then Inr ()
          else if slots pre + 1 + k = slots cs - 1
          then check_all (\<lambda>(op_idx, op).
                 if imm_value op \<noteq> None then Inl (ImmediateInLastGroup i (slots pre + 1 + k) op_idx) else Inr ())
               (enumerate 0 group_ops)
          else if group_ops \<noteq> [] \<and> imm_value (last group_ops) \<noteq> None
          then Inl (EndsWithImmediate i (slots pre + 1 + k)) else Inr ()) = Inr ()"
      using batch_of_end_at [OF c(1) le b_def, of k] batch_of_end_at [OF c(1) le b_def, of "k + 1"] by simp
  qed
qed

lemma check_padding_ok:
  assumes ok: "chunks_ok cs"
  shows "batch_validate_padding_semantics (batch_of cs) = Inr ()"
proof -
  define b where "b = batch_of cs"
  have le: "slots cs \<le> 8" using chunks_okD [OF ok] by simp
  have num: "b_num_groups b = slots cs" by (simp add: b_def batch_of_def)
  have "\<forall>i \<in> set [0..<slots cs]. b_padding b ! i \<longrightarrow> b_indptr b ! i < b_indptr b ! (i + 1) \<and>
      b_indptr b ! (i + 1) - 1 < length (b_ops b) \<and> b_ops b ! (b_indptr b ! (i + 1) - 1) = Noop"
  proof (rule all_slots [OF ok])
    fix pre c post
    assume c: "cs = pre @ c # post" "chunk_ok c"
    have "b_ops b = chunk_ops pre @ fst c @ chunk_ops post" by (simp add: b_def batch_of_def c(1))
    moreover have "snd c \<Longrightarrow> fst c ! (length (fst c) - 1) = Noop" using c(2) by (metis chunk_ok_def last_conv_nth)
    moreover obtain m where "length (fst c) = Suc m" using chunk_ok_nonempty [OF c(2)] gr0_implies_Suc by blast
    ultimately show "b_padding b ! slots pre \<longrightarrow> b_indptr b ! slots pre < b_indptr b ! (slots pre + 1) \<and>
      b_indptr b ! (slots pre + 1) - 1 < length (b_ops b) \<and> b_ops b ! (b_indptr b ! (slots pre + 1) - 1) = Noop"
      using batch_of_end_at [OF c(1) le b_def, of 0] batch_of_ops_at(1,3) [OF c(1) le b_def] by (simp add: nth_append)
  next
    fix pre c post k
    assume c: "cs = pre @ c # post" "k < length (imms (fst c))"
    then show "b_padding b ! (slots pre + 1 + k) \<longrightarrow> b_indptr b ! (slots pre + 1 + k) < b_indptr b ! (slots pre + 1 + k + 1) \<and>
      b_indptr b ! (slots pre + 1 + k + 1) - 1 < length (b_ops b) \<and> b_ops b ! (b_indptr b ! (slots pre + 1 + k + 1) - 1) = Noop"
      using batch_of_imm_at(2) [OF c(1) le b_def c(2)] by simp
  qed
  then show ?thesis
    unfolding b_def [symmetric] batch_validate_padding_semantics_def num using le
    by (auto simp: check_all_ok BATCH_SIZE_def Let_def simp del: set_upt)
qed

lemma group_value_eq: "group_value g = encode_from 0 g"
proof -
  have "fold (\<lambda>(i, op) v. v OR push_bit (OP_BITS * i) (ucast (op_code op))) (enumerate k g) v = v OR encode_from k g" for k v
    by (induction g arbitrary: k v) (simp_all add: or.assoc)
  from this [of 0 0] show ?thesis by (simp add: group_value_def)
qed

lemma collect_placements_batch_of:
  assumes "cs = pre @ c # post" "slots cs \<le> 8" "b = batch_of cs" "num = None \<or> num = Some (slots cs)"
  shows "collect_immediate_placements (b_ops b) (b_indptr b) (slots pre) BATCH_SIZE num =
     Inr (zip [slots pre + 1..<slots pre + 1 + length (imms (fst c))] (imms (fst c)), slots pre + 1 + length (imms (fst c)))"
proof -
  define F where "F op st = (case st of (placements, next_group_idx) \<Rightarrow> case imm_value op of
         None \<Rightarrow> Inr (placements, next_group_idx)
       | Some imm \<Rightarrow>
           if next_group_idx \<ge> BATCH_SIZE then Inl ImmediateExceedsSlots
           else if (case num of Some n \<Rightarrow> next_group_idx \<ge> n | None \<Rightarrow> False)
           then Inl (ImmediateExceedsNumGroups next_group_idx (the num))
           else if b_indptr b ! next_group_idx \<noteq> b_indptr b ! (next_group_idx + 1)
           then Inl (ImmediateOverlapsGroup next_group_idx)
           else Inr (placements @ [(next_group_idx, imm)], next_group_idx + 1))" for op and st :: "(nat \<times> felt) list \<times> nat"
  define s where "s = slots pre + 1"
  have fold: "res_fold F h (zip [s..<s + length (imms g)] (imms g), s + length (imms g)) =
      Inr (zip [s..<s + length (imms (g @ h))] (imms (g @ h)), s + length (imms (g @ h)))" if "g @ h = fst c" for g h
    using that
  proof (induction h arbitrary: g)
    case (Cons op h)
    from Cons.IH [of "g @ [op]"] Cons.prems have IH: "res_fold F h (zip [s..<s + length (imms (g @ [op]))] (imms (g @ [op])), s + length (imms (g @ [op]))) =
      Inr (zip [s..<s + length (imms (g @ op # h))] (imms (g @ op # h)), s + length (imms (g @ op # h)))" by simp
    show ?case
    proof (cases "imm_value op")
      case None
      then have "F op st = Inr st" for st by (simp add: F_def split: prod.splits)
      moreover have "imms (g @ [op]) = imms g" using None by (simp add: has_imm_def)
      ultimately show ?thesis using IH by simp
    next
      case (Some imm)
      have imms: "imms (g @ [op]) = imms g @ [imm]" using Some by (simp add: has_imm_def)
      have "imms (fst c) = imms g @ imm # imms h" using Some Cons.prems [symmetric] by (simp add: has_imm_def)
      then have lt: "length (imms g) < length (imms (fst c))" by simp
      then have "s + length (imms g) < slots cs" using assms(1) by (simp add: s_def)
      moreover have "b_indptr b ! (s + length (imms g)) = b_indptr b ! (s + length (imms g) + 1)"
        using batch_of_end_at [OF assms(1-3), of "length (imms g)"] batch_of_end_at [OF assms(1-3), of "length (imms g) + 1"] lt
        by (simp add: s_def)
      ultimately have "F op (zip [s..<s + length (imms g)] (imms g), s + length (imms g)) =
          Inr (zip [s..<s + length (imms g)] (imms g) @ [(s + length (imms g), imm)], s + length (imms g) + 1)"
        using assms(2,4) Some by (auto simp: F_def BATCH_SIZE_def)
      moreover have "zip [s..<s + length (imms (g @ [op]))] (imms (g @ [op])) = zip [s..<s + length (imms g)] (imms g) @ [(s + length (imms g), imm)]"
        unfolding imms by simp
      ultimately show ?thesis using IH imms by simp
    qed
  qed simp
  have "slice_of (b_ops b) (b_indptr b ! slots pre) (b_indptr b ! (slots pre + 1)) = fst c"
    using batch_of_ops_at [OF assms(1-3)] batch_of_end_at [OF assms(1-3), of 0] by simp
  then show ?thesis using fold [of "[]" "fst c"]
    unfolding collect_immediate_placements_def F_def [abs_def] s_def by (simp add: case_prod_unfold)
qed

lemma mark_immediates:
  assumes "\<And>k. k < length xs \<Longrightarrow> gs ! (length flags + k) = xs ! k"
  shows "res_fold (\<lambda>(j, imm) fl. if gs ! j \<noteq> imm then Inl (e j) else Inr (fl[j := True]))
     (zip [length flags..<length flags + length xs] xs) (flags @ replicate (length xs) False @ zs) =
     Inr (flags @ replicate (length xs) True @ zs)"
  using assms
proof (induction xs arbitrary: flags)
  case (Cons x xs)
  have "res_fold (\<lambda>(j, imm) fl. if gs ! j \<noteq> imm then Inl (e j) else Inr (fl[j := True]))
     (zip [length (flags @ [True])..<length (flags @ [True]) + length xs] xs) ((flags @ [True]) @ replicate (length xs) False @ zs) =
     Inr ((flags @ [True]) @ replicate (length xs) True @ zs)"
    using Cons.prems [of "Suc _"] by (intro Cons.IH) simp
  moreover have "gs ! length flags = x" using Cons.prems [of 0] by simp
  ultimately show ?case by (simp add: upt_conv_Cons list_update_append del: upt_Suc)
qed simp

primrec marks :: "chunk list \<Rightarrow> bool list" where
  "marks [] = []"
| "marks (c # cs) = False # replicate (length (imms (fst c))) True @ marks cs"

lemma marks_append [simp]: "marks (cs @ ds) = marks cs @ marks ds"
  by (induction cs) simp_all

lemma length_marks [simp]: "length (marks cs) = slots cs"
  by (induction cs) simp_all

lemma commitment_fold:
  assumes "cs = pre @ post" "slots cs \<le> 8" "b = batch_of cs" "\<forall>c \<in> set cs. chunk_ok c"
  shows "res_fold (check_group_commitment i b) [0..<slots pre] (replicate 8 False) = Inr (marks pre @ replicate (8 - slots pre) False)"
  using assms(1)
proof (induction pre arbitrary: post rule: rev_induct)
  case (snoc c pre)
  then have cs: "cs = pre @ c # post" by simp
  define n where "n = length (imms (fst c))"
  have le: "slots pre + 1 + n \<le> 8" using assms(2) unfolding cs by (simp add: n_def)
  note at = batch_of_ops_at [OF cs assms(2,3)] batch_of_end_at [OF cs assms(2,3)]
  have c: "chunk_ok c" using assms(4) cs by simp
  have flags: "marks pre @ replicate (8 - slots pre) False = (marks pre @ [False]) @ replicate n False @ replicate (7 - slots pre - n) False"
  proof -
    have "8 - slots pre = Suc (n + (7 - slots pre - n))" using le by simp
    then show ?thesis by (simp only: replicate_add replicate_Suc append.simps append_assoc)
  qed
  have "res_fold (\<lambda>(j, imm) fl. if b_groups b ! j \<noteq> imm then Inl (ImmediateMismatch i j) else Inr (fl[j := True]))
       (zip [slots pre + 1..<slots pre + 1 + n] (imms (fst c))) (marks pre @ replicate (8 - slots pre) False) =
     Inr (marks (pre @ [c]) @ replicate (7 - slots pre - n) False)"
    unfolding flags
    using mark_immediates [of "imms (fst c)" "b_groups b" "marks pre @ [False]" "\<lambda>j. ImmediateMismatch i j"]
      batch_of_imm_at(1) [OF cs assms(2,3)] by (simp add: n_def)
  then have step: "check_group_commitment i b (slots pre) (marks pre @ replicate (8 - slots pre) False) =
      Inr (marks (pre @ [c]) @ replicate (7 - slots pre - n) False)"
    using at(1,2,4) at(5) [of 0] chunk_ok_nonempty [OF c] collect_placements_batch_of [OF cs assms(2,3), of "Some (slots cs)"] assms(3)
    by (simp add: check_group_commitment_def Let_def group_value_eq n_def batch_of_def [of cs])
  have skip: "res_fold (check_group_commitment i b) [slots pre + 1..<slots pre + 1 + k] fl = Inr fl" if "k \<le> n" for k fl
    using that
  proof (induction k)
    case (Suc k)
    then have "check_group_commitment i b (slots pre + 1 + k) fl = Inr fl"
      using at(5) [of k] at(5) [of "k + 1"] by (simp add: check_group_commitment_def n_def)
    with Suc show ?case by (simp add: res_fold_append)
  qed simp
  have "[0..<slots (pre @ [c])] = [0..<slots pre] @ slots pre # [slots pre + 1..<slots pre + 1 + n]"
    using upt_add_eq_append [of 0 "slots pre" "Suc n"] by (simp add: n_def upt_conv_Cons del: upt_Suc)
  then show ?case using snoc.IH [OF cs] step skip [of n] by (simp add: res_fold_append n_def del: upt_Suc)
qed simp

lemma check_commitment_ok:
  assumes ok: "chunks_ok cs"
  shows "check_commitment i (batch_of cs) = Inr ()"
proof -
  define b where "b = batch_of cs"
  have le: "slots cs \<le> 8" using chunks_okD [OF ok] by simp
  have num: "b_num_groups b = slots cs" by (simp add: b_def batch_of_def)
  have "res_fold (check_group_commitment i b) [0..<slots cs] (replicate 8 False) = Inr (marks cs @ replicate (8 - slots cs) False)"
    using commitment_fold [of cs cs "[]" b i] ok le b_def by (simp add: chunks_ok_def)
  moreover have "\<forall>j \<in> set [0..<slots cs]. b_indptr b ! j = b_indptr b ! (j + 1) \<longrightarrow> (marks cs @ replicate (8 - slots cs) False) ! j"
  proof (rule all_slots [OF ok])
    fix pre c post
    assume c: "cs = pre @ c # post" "chunk_ok c"
    then show "b_indptr b ! slots pre = b_indptr b ! (slots pre + 1) \<longrightarrow> (marks cs @ replicate (8 - slots cs) False) ! slots pre"
      using batch_of_ops_at(1) [OF c(1) le b_def] batch_of_end_at [OF c(1) le b_def, of 0] chunk_ok_nonempty [OF c(2)] by simp
  next
    fix pre c post k
    assume c: "cs = pre @ c # post" "k < length (imms (fst c))"
    then show "b_indptr b ! (slots pre + 1 + k) = b_indptr b ! (slots pre + 1 + k + 1) \<longrightarrow>
        (marks cs @ replicate (8 - slots cs) False) ! (slots pre + 1 + k)"
      by (simp add: nth_append)
  qed
  ultimately show ?thesis
    unfolding b_def [symmetric] check_commitment_def num BATCH_SIZE_def
    by (auto simp: check_all_ok simp del: set_upt)
qed

lemma batch_validate_ok:
  assumes "\<forall>cs \<in> set css. chunks_ok cs" "\<forall>cs \<in> set (butlast css). slots cs = 8"
  shows "validate_batch_invariants (map batch_of css) = Inr ()"
proof -
  have "(\<And>i cs. chunks_ok cs \<Longrightarrow> f i (batch_of cs) = Inr ()) \<Longrightarrow> check_all (\<lambda>(i, b). f i b) (enumerate 0 (map batch_of css)) = Inr ()"
    for f :: "nat \<Rightarrow> op_batch \<Rightarrow> batch_error + unit"
    using assms(1) by (intro check_batches_ok) simp
  then have "validate_batch_structure (map batch_of css) = Inr ()" "validate_no_immediate_endings (map batch_of css) = Inr ()"
    "validate_immediate_commitment (map batch_of css) = Inr ()"
    by (simp_all add: validate_batch_structure_def validate_no_immediate_endings_def validate_immediate_commitment_def
        check_structure_ok check_endings_ok check_commitment_ok)
  moreover have "validate_padding_semantics (map batch_of css) = Inr ()"
    using assms(1) check_padding_ok by (auto simp: validate_padding_semantics_def check_all_ok)
  ultimately show ?thesis
    using validate_power_of_two_ok [OF assms] by (simp add: validate_batch_invariants_def)
qed

text \<open>C33. Batching never panics and loses nothing: the batches built from a list of operations pass the validation that batches from other sources must pass, and without their padding they are the list.\<close>

theorem batch_ops_valid:
  "\<exists>batches. batch_ops operations = Inr batches \<and> validate_batch_invariants batches = Inr () \<and>
     concat (map raw_ops batches) = operations"
proof -
  obtain css where css: "batch_ops operations = Inr (map batch_of css)" "\<forall>cs \<in> set css. chunks_ok cs"
    "\<forall>cs \<in> set (butlast css). slots cs = 8" "concat (map raw_chunks css) = operations"
    by (rule batch_ops_chunks) blast
  have "map raw_ops (map batch_of css) = map raw_chunks css" using css(2) by (simp add: raw_ops_batch_of)
  then have "concat (map raw_ops (map batch_of css)) = operations" using css(4) by (simp only:)
  with css(1) batch_validate_ok [OF css(2,3)] show ?thesis by blast
qed

section \<open>Serialisation of batches\<close>

lemma nibbles_word:
  fixes a b :: nat
  assumes "a < 16" "b < 16"
  defines "w \<equiv> (of_nat a OR push_bit 4 (of_nat b) :: 8 word)"
  shows "unat (w AND 15) = a" "unat (drop_bit 4 w AND 15) = b"
proof -
  have mask: "x AND 15 = take_bit 4 x" for x :: "8 word"
    by (simp add: take_bit_eq_mask mask_eq_exp_minus_1)
  have small: "unat (of_nat n :: 8 word) = n" if "n < 16" for n
    using that by (simp add: unat_of_nat)
  have take: "take_bit 4 (of_nat n :: 8 word) = of_nat n" if "n < 16" for n
    using that by (simp add: take_bit_of_nat take_bit_nat_eq_self)
  have drop: "drop_bit 4 (of_nat n :: 8 word) = 0" if "n < 16" for n
    using take [OF that] by (simp only: take_bit_eq_self_iff_drop_bit_eq_0)
  have "take_bit 4 w = of_nat a" unfolding w_def by (simp add: take_bit_or take_bit_push_bit take assms(1))
  then show "unat (w AND 15) = a" unfolding mask by (simp add: small assms(1))
  have "drop_bit 4 (push_bit 4 (of_nat b :: 8 word)) = of_nat b"
  proof (rule bit_word_eqI)
    fix n
    assume "n < LENGTH(8)"
    have "bit (of_nat b :: 8 word) n \<Longrightarrow> n < 4" using take [OF assms(2)] by (metis bit_take_bit_iff)
    then show "bit (drop_bit 4 (push_bit 4 (of_nat b :: 8 word))) n = bit (of_nat b :: 8 word) n"
      by (auto simp: bit_drop_bit_eq bit_push_bit_iff)
  qed
  then have "take_bit 4 (drop_bit 4 w) = of_nat b"
    unfolding w_def by (simp add: drop_bit_or drop assms take)
  then show "unat (drop_bit 4 w AND 15) = b" unfolding mask by (simp add: small assms(2))
qed

lemma upt_8: "[0..<8] = [0, 1, 2, 3, 4, 5, 6, 7 :: nat]"
  by (simp add: eval_nat_numeral)

lemma list_update_numeral: "(x # xs)[numeral k := v] = x # xs[pred_numeral k := v]"
  by (simp add: numeral_eq_Suc)

lemma replicates: "replicate 4 x = [x, x, x, x]" "replicate 9 x = [x, x, x, x, x, x, x, x, x]"
  by (simp_all add: eval_nat_numeral)

lemma list_9:
  assumes "length xs = 9"
  obtains a b c d e f g h i where "xs = [a, b, c, d, e, f, g, h, i]"
  using assms by (auto simp: numeral_eq_Suc length_Suc_conv)

lemma unpack_pack_indptr:
  assumes "length ptr = 9" "ptr ! 0 = 0" "\<And>i. i < 8 \<Longrightarrow> ptr ! i \<le> ptr ! (i + 1) \<and> ptr ! (i + 1) - ptr ! i \<le> 9"
  shows "unpack_indptr_deltas (pack_indptr_deltas ptr) = Inr ptr"
proof -
  define e where "e i = ptr ! (i + 1) - ptr ! i" for i
  have e: "e i \<le> 9" "e i < 16" "ptr ! (i + 1) = ptr ! i + e i" if "i < 8" for i
    using assms(3) [OF that] by (simp_all add: e_def)
  have p1: "ptr ! 1 = e 0" using e(3) [of 0] assms(2) by simp
  have p2: "ptr ! 2 = e 0 + e 1" using e(3) [of 1] p1 by (simp add: numeral_2_eq_2)
  have p3: "ptr ! 3 = e 0 + e 1 + e 2" using e(3) [of 2] p2 by simp
  have p4: "ptr ! 4 = e 0 + e 1 + e 2 + e 3" using e(3) [of 3] p3 by simp
  have p5: "ptr ! 5 = e 0 + e 1 + e 2 + e 3 + e 4" using e(3) [of 4] p4 by simp
  have p6: "ptr ! 6 = e 0 + e 1 + e 2 + e 3 + e 4 + e 5" using e(3) [of 5] p5 by simp
  have p7: "ptr ! 7 = e 0 + e 1 + e 2 + e 3 + e 4 + e 5 + e 6" using e(3) [of 6] p6 by simp
  have p8: "ptr ! 8 = e 0 + e 1 + e 2 + e 3 + e 4 + e 5 + e 6 + e 7" using e(3) [of 7] p7 by simp
  obtain a b c d e' f g h i where ptr: "ptr = [a, b, c, d, e', f, g, h, i]" using list_9 [OF assms(1)] .
  have vals: "a = 0" "b = ptr ! 1" "c = ptr ! 2" "d = ptr ! 3" "e' = ptr ! 4" "f = ptr ! 5" "g = ptr ! 6" "h = ptr ! 7" "i = ptr ! 8"
    using assms(2) by (simp_all add: ptr)
  define n :: "nat \<Rightarrow> nat \<Rightarrow> 8 word" where "n x y = of_nat x OR push_bit 4 (of_nat y)" for x y
  have n: "unat (n x y AND 15) = x" "unat (drop_bit 4 (n x y) AND 15) = y" if "x < 16" "y < 16" for x y
    using nibbles_word [OF that] by (simp_all add: n_def)
  have pack: "pack_indptr_deltas ptr = [n (e 0) (e 1), n (e 2) (e 3), n (e 4) (e 5), n (e 6) (e 7)]"
    unfolding pack_indptr_deltas_def upt_8 e_def [symmetric] Let_def n_def replicates by (simp add: list_update_numeral)
  have "unpack_indptr_deltas (pack_indptr_deltas ptr) =
    Inr [0, ptr ! 1, ptr ! 2, ptr ! 3, ptr ! 4, ptr ! 5, ptr ! 6, ptr ! 7, ptr ! 8]"
    unfolding pack p1 p2 p3 p4 p5 p6 p7 p8 unpack_indptr_deltas_def upt_8
    using e(1,2) by (simp add: n Let_def GROUP_SIZE_def not_less replicates list_update_numeral)
  then show ?thesis unfolding vals [symmetric] using ptr vals(1) by simp
qed

lemma unpack_pack_padding:
  assumes "length p = 8"
  shows "unpack_padding (pack_padding p) = p"
proof -
  have bits: "bit (fold (\<lambda>(i, is_padded) packed. if is_padded then packed OR push_bit i 1 else packed) (enumerate k p) v) i \<longleftrightarrow>
      bit v i \<or> (k \<le> i \<and> i < k + length p \<and> p ! (i - k))" if "i < 8" for k i and v :: "8 word" and p
    using that
  proof (induction p arbitrary: k v)
    case (Cons x p)
    have "bit (push_bit k 1 :: 8 word) i \<longleftrightarrow> i = k" using Cons.prems by (auto simp: bit_exp_iff possible_bit_word)
    then show ?case using Cons.IH [OF Cons.prems, of "Suc k"]
      by (cases "i = k") (auto simp: bit_or_iff nth_Cons' Suc_le_eq)
  qed auto
  have "packed AND push_bit i 1 \<noteq> 0 \<longleftrightarrow> bit packed i" for packed :: "8 word" and i
    by (simp add: bit_iff_and_push_bit_not_eq_0)
  then show ?thesis using assms bits [of _ 0 p 0]
    by (intro nth_equalityI) (simp_all add: unpack_padding_def pack_padding_def)
qed

lemma place_immediates:
  "fold (\<lambda>(j, imm) gs. gs[j := imm]) (zip [length gs..<length gs + length xs] xs) (gs @ replicate (length xs) 0 @ zs) = gs @ xs @ zs"
proof (induction xs arbitrary: gs)
  case (Cons x xs)
  from Cons.IH [of "gs @ [x]"] show ?case by (simp add: upt_conv_Cons list_update_append del: upt_Suc)
qed simp

lemma decode_group_ops:
  assumes "cs = pre @ c # post" "slots cs \<le> 8" "b = batch_of cs" "chunk_ok c"
  shows "decode_group (b_ops b) (b_indptr b) (slots pre) (vals pre @ replicate (8 - slots pre) 0, n) =
    Inr (vals (pre @ [c]) @ replicate (8 - slots (pre @ [c])) 0, slots (pre @ [c]))"
proof -
  define k where "k = length (imms (fst c))"
  have le: "slots pre + 1 + k \<le> 8" using assms(2) unfolding assms(1) by (simp add: k_def)
  have z: "8 - slots pre = Suc (k + (7 - slots pre - k))" using le by simp
  have gs: "(vals pre @ replicate (8 - slots pre) 0)[slots pre := encode_group (fst c)] =
      (vals pre @ [encode_group (fst c)]) @ replicate k 0 @ replicate (7 - slots pre - k) 0"
    unfolding z by (simp add: list_update_append replicate_add)
  show ?thesis
    using batch_of_ops_at [OF assms(1-3)] batch_of_end_at [OF assms(1-3), of 0] chunk_ok_nonempty [OF assms(4)]
      collect_placements_batch_of [OF assms(1-3), of None] gs
      place_immediates [of "vals pre @ [encode_group (fst c)]" "imms (fst c)" "replicate (7 - slots pre - k) 0"]
    by (simp add: decode_group_def Let_def group_value_eq k_def)
qed

lemma decode_groups_prefix:
  assumes "cs = pre @ post" "slots cs \<le> 8" "b = batch_of cs" "\<forall>c \<in> set cs. chunk_ok c"
  shows "res_fold (decode_group (b_ops b) (b_indptr b)) [0..<slots pre] (replicate 8 0, 0) =
    Inr (vals pre @ replicate (8 - slots pre) 0, slots pre)"
  using assms(1)
proof (induction pre arbitrary: post rule: rev_induct)
  case (snoc c pre)
  then have cs: "cs = pre @ c # post" by simp
  define n where "n = length (imms (fst c))"
  have skip: "res_fold (decode_group (b_ops b) (b_indptr b)) [slots pre + 1..<slots pre + 1 + k] st = Inr st" if "k \<le> n" for k st
    using that
  proof (induction k)
    case (Suc k)
    then have "decode_group (b_ops b) (b_indptr b) (slots pre + 1 + k) st = Inr st"
      using batch_of_end_at [OF cs assms(2,3), of k] batch_of_end_at [OF cs assms(2,3), of "k + 1"]
      by (simp add: decode_group_def n_def split: prod.splits)
    with Suc show ?case by (simp add: res_fold_append)
  qed simp
  have "[0..<slots (pre @ [c])] = [0..<slots pre] @ slots pre # [slots pre + 1..<slots pre + 1 + n]"
    using upt_add_eq_append [of 0 "slots pre" "Suc n"] by (simp add: n_def upt_conv_Cons del: upt_Suc)
  then show ?case using snoc.IH [OF cs] decode_group_ops [OF cs assms(2,3), of "slots pre"] skip [of n] assms(4) cs
    by (simp add: res_fold_append del: upt_Suc layout_append)
qed simp

lemma find_highest:
  assumes "1 \<le> h" "h \<le> 8" "P h" "\<And>i. h < i \<Longrightarrow> i \<le> 8 \<Longrightarrow> \<not> P i"
  shows "find P (rev [1..<9]) = Some h"
proof -
  have split: "[1..<9] = [1..<h] @ h # [Suc h..<9]"
    using upt_add_eq_append [of 1 h "9 - h"] upt_conv_Cons [of h 9] assms(1,2) by simp
  have "find P (rev [Suc h..<9] @ ys) = find P ys" for ys
  proof -
    have "find P (xs @ ys) = find P ys" if "\<forall>x \<in> set xs. \<not> P x" for xs using that by (induction xs) simp_all
    then show ?thesis using assms(4) by simp
  qed
  then show ?thesis unfolding split using assms(3) by simp
qed

lemma batch_of_highest:
  assumes "cs = pre @ [c]" "slots cs \<le> 8" "b = batch_of cs" "chunk_ok c"
  shows "find (\<lambda>i. b_indptr b ! i > b_indptr b ! (i - 1)) (rev [1..<9]) = Some (slots pre + 1)"
proof (rule find_highest)
  have cs: "cs = pre @ c # []" using assms(1) by simp
  show "b_indptr b ! (slots pre + 1) > b_indptr b ! (slots pre + 1 - 1)"
    using batch_of_ops_at(1) [OF cs assms(2,3)] batch_of_end_at [OF cs assms(2,3), of 0] chunk_ok_nonempty [OF assms(4)] by simp
  show "slots pre + 1 \<le> 8" using assms(1,2) by simp
  have *: "b_indptr b ! i = length (chunk_ops cs)" if "slots pre + 1 \<le> i" "i \<le> 8" for i
    using that assms(2) unfolding assms(1,3) by (simp add: batch_of_def nth_append nth_Cons')
  show "\<not> b_indptr b ! i > b_indptr b ! (i - 1)" if "slots pre + 1 < i" "i \<le> 8" for i
    using *[of i] *[of "i - 1"] that by simp
qed simp

lemma decode_batch_of:
  assumes ok: "chunks_ok cs"
  shows "decode_batch (xs @ chunk_ops cs @ ys) (b_indptr (batch_of cs), b_padding (batch_of cs)) (bs, length xs) =
    Inr (bs @ [batch_of cs], length (xs @ chunk_ops cs))"
proof -
  define b where "b = batch_of cs"
  have le: "slots cs \<le> 8" using chunks_okD [OF ok] by simp
  have "cs \<noteq> []" using ok by (auto simp: chunks_ok_def)
  then obtain pre c where cs: "cs = pre @ [c]" by (metis rev_exhaust)
  have chunks: "\<forall>c \<in> set cs. chunk_ok c" "chunk_ok c" using ok cs by (auto simp: chunks_ok_def)
  have cs': "cs = pre @ c # []" using cs by simp
  have n: "b_indptr b ! (slots pre + 1) = length (chunk_ops cs)"
    using batch_of_end_at [OF cs' le b_def, of 0] by (simp add: cs)
  have ops: "slice_of (xs @ chunk_ops cs @ ys) (length xs) (length xs + length (chunk_ops cs)) = b_ops b"
    by (simp add: slice_of_def b_def batch_of_def)
  have "res_fold (decode_group (b_ops b) (b_indptr b)) [0..<slots pre + 1] (replicate 8 0, 0) =
      Inr (vals cs @ replicate (8 - slots cs) 0, slots cs)"
    using decode_groups_prefix [OF cs le b_def chunks(1)] decode_group_ops [OF cs' le b_def chunks(2), of "slots pre"]
    by (simp add: res_fold_append cs)
  moreover have "\<lparr>b_ops = b_ops b, b_indptr = b_indptr b, b_padding = b_padding b,
      b_groups = vals cs @ replicate (8 - slots cs) 0, b_num_groups = slots cs\<rparr> = b"
    by (simp add: b_def batch_of_def)
  moreover have "batch_validate_padding_semantics b = Inr ()" using check_padding_ok [OF ok] by (simp add: b_def)
  ultimately show ?thesis
    unfolding b_def [symmetric] decode_batch_def using batch_of_highest [OF cs le b_def chunks(2)]
    by (simp add: Let_def n [simplified] ops del: upt_Suc)
qed

lemma unpack_pack_batch_of:
  assumes ok: "chunks_ok cs"
  shows "unpack_indptr_deltas (pack_indptr_deltas (b_indptr (batch_of cs))) = Inr (b_indptr (batch_of cs))"
proof (rule unpack_pack_indptr)
  define b where "b = batch_of cs"
  have le: "slots cs \<le> 8" "1 \<le> slots cs" using chunks_okD [OF ok] by simp_all
  show "length (b_indptr (batch_of cs)) = 9" using batch_of_sizes [OF le(1)] by simp
  show "b_indptr (batch_of cs) ! 0 = 0" using le(2) by (cases cs) (simp_all add: batch_of_def)
  fix i :: nat
  assume "i < 8"
  then have "b_indptr b ! i \<le> b_indptr b ! (i + 1)"
    using sorted_nth_mono [OF batch_of_sorted, of i "i + 1" cs] batch_of_sizes [OF le(1)] by (simp add: b_def)
  moreover have "b_indptr b ! (i + 1) - b_indptr b ! i \<le> 9"
  proof (cases "i < slots cs")
    case True
    then show ?thesis using batch_of_group_sizes [OF ok b_def] by (auto simp: GROUP_SIZE_def)
  next
    case False
    then show ?thesis using \<open>i < 8\<close> by (simp add: b_def batch_of_def nth_append)
  qed
  ultimately show "b_indptr (batch_of cs) ! i \<le> b_indptr (batch_of cs) ! (i + 1) \<and>
      b_indptr (batch_of cs) ! (i + 1) - b_indptr (batch_of cs) ! i \<le> 9"
    by (simp add: b_def)
qed

lemma decode_operations_encode:
  assumes "\<forall>cs \<in> set css. chunks_ok cs"
  shows "decode_operations (encode_basic_block (map batch_of css)) = Inr (map batch_of css)"
proof -
  have ptrs: "res_fold (\<lambda>packed ptrs. res_bind (unpack_indptr_deltas packed) (\<lambda>ptr. Inr (ptrs @ [ptr])))
      (map (\<lambda>b. pack_indptr_deltas (b_indptr b)) (map batch_of css)) acc = Inr (acc @ map b_indptr (map batch_of css))" for acc
    using assms by (induction css arbitrary: acc) (simp_all add: unpack_pack_batch_of)
  have pads: "map unpack_padding (map (\<lambda>b. pack_padding (b_padding b)) (map batch_of css)) = map b_padding (map batch_of css)"
    using assms batch_of_sizes chunks_okD by (auto intro!: unpack_pack_padding)
  have "res_fold (decode_batch (xs @ concat (map b_ops (map batch_of css))))
      (zip (map b_indptr (map batch_of css)) (map b_padding (map batch_of css))) (bs, length xs) =
      Inr (bs @ map batch_of css, length (xs @ concat (map b_ops (map batch_of css))))" for xs bs
    using assms
  proof (induction css arbitrary: xs bs)
    case (Cons cs css)
    then have ok: "chunks_ok cs" by simp
    have "b_ops (batch_of cs) = chunk_ops cs" by (simp add: batch_of_def)
    then show ?case
      using decode_batch_of [OF ok, of xs "concat (map b_ops (map batch_of css))" bs]
        Cons.IH [of "xs @ chunk_ops cs" "bs @ [batch_of cs]"] Cons.prems by simp
  qed simp
  from this [of "[]" "[]"] show ?thesis
    unfolding decode_operations_def encode_basic_block_def
    by (simp only: basic_block_data.simps ptrs [of "[]"] pads append_Nil res_bind.simps) simp
qed


section \<open>Raw and padded indices agree\<close>

lemma fold_slots:
  assumes "\<And>pre c post st. cs = pre @ c # post \<Longrightarrow> f (slots pre) st = G c st"
    and "\<And>pre c post k st. cs = pre @ c # post \<Longrightarrow> k < length (imms (fst c)) \<Longrightarrow> f (slots pre + 1 + k) st = st"
  shows "fold f [0..<slots cs] st = fold G cs st"
proof -
  have "fold f [0..<slots pre] st = fold G pre st" if "cs = pre @ post" for pre post
    using that
  proof (induction pre arbitrary: post rule: rev_induct)
    case (snoc c pre)
    then have cs: "cs = pre @ c # post" by simp
    define n where "n = length (imms (fst c))"
    have skip: "fold f [slots pre + 1..<slots pre + 1 + k] st = st" if "k \<le> n" for k st
      using that by (induction k) (simp_all add: assms(2) [OF cs, simplified] n_def)
    have "[0..<slots (pre @ [c])] = [0..<slots pre] @ slots pre # [slots pre + 1..<slots pre + 1 + n]"
      using upt_add_eq_append [of 0 "slots pre" "Suc n"] by (simp add: n_def upt_conv_Cons del: upt_Suc)
    then show ?case using snoc.IH [OF cs] assms(1) [OF cs] skip [of n] by (simp del: upt_Suc)
  qed simp
  then show ?thesis by (metis append_Nil2)
qed

definition pad_count :: "chunk \<Rightarrow> nat" where
  "pad_count c = (if snd c then 1 else 0)"

primrec raw_prefix :: "nat \<Rightarrow> chunk list \<Rightarrow> nat list" where
  "raw_prefix k [] = [k]"
| "raw_prefix k (c # cs) = replicate (length (raw_chunk c)) k @ raw_prefix (k + pad_count c) cs"

primrec padded_prefix :: "nat \<Rightarrow> chunk list \<Rightarrow> nat list" where
  "padded_prefix k [] = [k]"
| "padded_prefix k (c # cs) = replicate (length (raw_chunk c) + pad_count c) k @ padded_prefix (k + pad_count c) cs"

lemma length_raw_chunk: "chunk_ok c \<Longrightarrow> length (raw_chunk c) + pad_count c = length (fst c)"
  by (auto simp: chunk_ok_def raw_chunk_def pad_count_def simp flip: length_greater_0_conv)

lemma batch_of_group_len:
  assumes "chunks_ok cs" "b = batch_of cs"
  shows "cs = pre @ c # post \<Longrightarrow> b_indptr b ! (slots pre + 1) - b_indptr b ! slots pre = length (fst c) \<and> b_padding b ! slots pre = snd c"
    and "cs = pre @ c # post \<Longrightarrow> k < length (imms (fst c)) \<Longrightarrow>
      b_indptr b ! (slots pre + 1 + k + 1) - b_indptr b ! (slots pre + 1 + k) = 0 \<and> \<not> b_padding b ! (slots pre + 1 + k)"
proof -
  have le: "slots cs \<le> 8" using chunks_okD [OF assms(1)] by simp
  assume c: "cs = pre @ c # post"
  show "b_indptr b ! (slots pre + 1) - b_indptr b ! slots pre = length (fst c) \<and> b_padding b ! slots pre = snd c"
    using batch_of_ops_at [OF c le assms(2)] batch_of_end_at [OF c le assms(2), of 0] by simp
  assume "k < length (imms (fst c))"
  then show "b_indptr b ! (slots pre + 1 + k + 1) - b_indptr b ! (slots pre + 1 + k) = 0 \<and> \<not> b_padding b ! (slots pre + 1 + k)"
    using batch_of_end_at [OF c le assms(2), of k] batch_of_end_at [OF c le assms(2), of "k + 1"] batch_of_imm_at [OF c le assms(2)] by simp
qed

lemma fold_batches:
  assumes "\<forall>cs \<in> set css. chunks_ok cs"
    and "\<And>cs pre c post st. chunks_ok cs \<Longrightarrow> cs = pre @ c # post \<Longrightarrow> step (batch_of cs) (slots pre) st = G c st"
    and "\<And>cs pre c post k st. chunks_ok cs \<Longrightarrow> cs = pre @ c # post \<Longrightarrow> k < length (imms (fst c)) \<Longrightarrow>
      step (batch_of cs) (slots pre + 1 + k) st = st"
  shows "fold (\<lambda>b. fold (step b) [0..<b_num_groups b]) (map batch_of css) st = fold G (concat css) st"
  using assms(1)
proof (induction css arbitrary: st)
  case (Cons cs css)
  then have ok: "chunks_ok cs" by simp
  have "fold (step (batch_of cs)) [0..<slots cs] st = fold G cs st"
    by (rule fold_slots) (use assms(2,3) [OF ok] in blast)+
  moreover have "b_num_groups (batch_of cs) = slots cs" by (simp add: batch_of_def)
  ultimately show ?case using Cons by simp
qed simp

lemma length_raw_chunk': "length (raw_chunk c) = length (fst c) - pad_count c"
  by (simp add: raw_chunk_def pad_count_def)

lemma raw_to_padded_prefix_eq:
  assumes "\<forall>cs \<in> set css. chunks_ok cs"
  shows "raw_to_padded_prefix (map batch_of css) = raw_prefix 0 (concat css)"
proof -
  define G where "G c = (\<lambda>(v, n). (v @ replicate (length (raw_chunk c)) n, n + pad_count c))" for c and v :: "nat list"
  have "fold (\<lambda>b. fold (raw_group_step b) [0..<b_num_groups b]) (map batch_of css) ([], 0) = fold G (concat css) ([], 0)"
    using assms batch_of_group_len [OF _ refl]
    by (intro fold_batches) (auto simp: raw_group_step_def G_def length_raw_chunk' pad_count_def Let_def split: prod.splits)
  moreover have "(case fold G cs (v, n) of (v, n) \<Rightarrow> v @ [n]) = v @ raw_prefix n cs" for cs v n
    by (induction cs arbitrary: v n) (simp_all add: G_def)
  ultimately show ?thesis unfolding raw_to_padded_prefix_def by (simp only: append_Nil Let_def)
qed

lemma padded_to_raw_prefix_eq:
  assumes "\<forall>cs \<in> set css. chunks_ok cs"
  shows "padded_to_raw_prefix (map batch_of css) = padded_prefix 0 (concat css)"
proof -
  define G where "G c = (\<lambda>(v, n). (v @ replicate (length (raw_chunk c) + pad_count c) n, n + pad_count c))" for c and v :: "nat list"
  have "fold (\<lambda>b. fold (padded_group_step b) [0..<b_num_groups b]) (map batch_of css) ([], 0) = fold G (concat css) ([], 0)"
    using assms batch_of_group_len [OF _ refl]
    by (intro fold_batches)
       (auto simp: padded_group_step_def G_def length_raw_chunk' pad_count_def Let_def replicate_append_same split: prod.splits)
  moreover have "(case fold G cs (v, n) of (v, n) \<Rightarrow> v @ [n]) = v @ padded_prefix n cs" for cs v n
    by (induction cs arbitrary: v n) (simp_all add: G_def)
  ultimately show ?thesis unfolding padded_to_raw_prefix_def by (simp only: append_Nil Let_def)
qed

lemma raw_padded_index:
  assumes "\<forall>c \<in> set cs. chunk_ok c" "r \<le> length (raw_chunks cs)"
  shows "k \<le> raw_prefix k cs ! r \<and> padded_prefix k cs ! (r + (raw_prefix k cs ! r - k)) = raw_prefix k cs ! r \<and>
    (r < length (raw_chunks cs) \<longrightarrow> chunk_ops cs ! (r + (raw_prefix k cs ! r - k)) = raw_chunks cs ! r)"
  using assms
proof (induction cs arbitrary: r k)
  case (Cons c cs)
  define m where "m = length (raw_chunk c)"
  have len: "m + pad_count c = length (fst c)" using length_raw_chunk [of c] Cons.prems(1) by (simp add: m_def)
  have split: "length (raw_chunks (c # cs)) = m + length (raw_chunks cs)" by (simp add: raw_chunks_def m_def)
  show ?case
  proof (cases "r < m")
    case True
    moreover have "fst c ! r = raw_chunk c ! r" using True by (auto simp: raw_chunk_def m_def nth_butlast)
    ultimately show ?thesis using len by (simp add: nth_append m_def raw_chunks_def)
  next
    case False
    define q where "q = r - m"
    have q: "r = m + q" "q \<le> length (raw_chunks cs)" using False Cons.prems(2) split by (simp_all add: q_def)
    define x where "x = raw_prefix (k + pad_count c) cs ! q"
    have x: "raw_prefix k (c # cs) ! r = x" using q(1) by (simp add: nth_append x_def m_def)
    have IH: "k + pad_count c \<le> x" "padded_prefix (k + pad_count c) cs ! (q + (x - (k + pad_count c))) = x"
      "q < length (raw_chunks cs) \<longrightarrow> chunk_ops cs ! (q + (x - (k + pad_count c))) = raw_chunks cs ! q"
      using Cons.IH [OF _ q(2), of "k + pad_count c", folded x_def] Cons.prems(1) by auto
    have idx: "r + (x - k) = (m + pad_count c) + (q + (x - (k + pad_count c)))" using IH(1) q(1) by simp
    have "padded_prefix k (c # cs) ! (r + (x - k)) = x" unfolding idx using IH(2) by (simp add: nth_append m_def)
    moreover have "chunk_ops (c # cs) ! (r + (x - k)) = chunk_ops cs ! (q + (x - (k + pad_count c)))"
      unfolding idx len by (simp add: nth_append)
    moreover have "raw_chunks (c # cs) ! r = raw_chunks cs ! q" by (simp add: raw_chunks_def nth_append q(1) m_def)
    ultimately show ?thesis using IH q(1) split unfolding x by simp
  qed
qed (simp add: raw_chunks_def)

lemma concat_chunks: "raw_chunks (concat css) = concat (map raw_chunks css)" "chunk_ops (concat css) = concat (map chunk_ops css)"
  by (induction css) (simp_all add: raw_chunks_def)

text \<open>C36. Indices that refer to the unpadded operations of a block are translated to the same operations of the padded batches, and translating back gives the original indices; this holds up to and including the index one past the last operation.\<close>

theorem index_translation:
  assumes "batch_ops operations = Inr batches" "\<forall>(i, _) \<in> set asm_ops. i \<le> length operations"
  shows "unadjust_asm_op_indices (adjust_asm_op_indices asm_ops batches) batches = asm_ops \<and>
    (\<forall>(i, x) \<in> set (zip [0..<length operations] operations).
       \<exists>p. adjust_asm_op_indices [(i, x)] batches = [(p, x)] \<and> concat (map b_ops batches) ! p = x)"
proof -
  obtain css where css: "batch_ops operations = Inr (map batch_of css)" "\<forall>cs \<in> set css. chunks_ok cs"
    "concat (map raw_chunks css) = operations"
    by (rule batch_ops_chunks) blast
  define C where "C = concat css"
  have b: "batches = map batch_of css" using css(1) assms(1) by simp
  have raw: "raw_chunks C = operations" using css(3) concat_chunks(1) [of css] by (simp add: C_def)
  have pad: "chunk_ops C = concat (map b_ops batches)"
    unfolding C_def concat_chunks(2) b by (simp add: batch_of_def comp_def)
  have ok: "\<forall>c \<in> set C. chunk_ok c" using css(2) by (auto simp: C_def chunks_ok_def)
  note idx = raw_padded_index [OF ok, unfolded raw, of _ 0]
  note prefixes = raw_to_padded_prefix_eq [OF css(2), folded b C_def] padded_to_raw_prefix_eq [OF css(2), folded b C_def]
  have "unadjust_asm_op_indices (adjust_asm_op_indices asm_ops batches) batches = map (\<lambda>x. x) asm_ops"
    unfolding unadjust_asm_op_indices_def adjust_asm_op_indices_def Let_def prefixes map_map
    by (rule map_cong [OF refl]) (use assms(2) idx in \<open>auto split: prod.splits\<close>)
  then show ?thesis using idx by (auto simp: adjust_asm_op_indices_def prefixes pad in_set_zip)
qed

theorem index_translation_witness:
  "\<exists>batches. batch_ops [Push 5, Add] = Inr batches \<and>
     unadjust_asm_op_indices (adjust_asm_op_indices [(0, ''a''), (2, ''b'')] batches) batches = [(0, ''a''), (2, ''b'')]"
proof -
  obtain css where css: "batch_ops [Push 5, Add] = Inr (map batch_of css)" by (rule batch_ops_chunks) blast
  show ?thesis using index_translation [OF css, of "[(0, ''a''), (2, ''b'')]"] css by auto
qed

end
