(* ===== verification/Batch_Commit.thy ===== *)
theory Batch_Commit
  imports Batch_Validate
begin

text \<open>
  The hash of a basic block covers the groups of its batches and nothing else of their structure.  This
  theory shows that this is enough: validated batches with the same groups hold the same operations, up to
  operations that do nothing and up to error codes, which the opcodes do not carry.
\<close>

unbundle bit_operations_syntax

section \<open>What validation establishes\<close>

text \<open>The shape shared by all ways to build a batch: the groups start at the first operation and end at the
  last, and unused groups are zero.\<close>

definition batch_shape :: "op_batch \<Rightarrow> bool" where
  "batch_shape b \<longleftrightarrow> length (b_indptr b) = 9 \<and> length (b_groups b) = 8 \<and> b_indptr b ! 0 = 0 \<and>
     b_indptr b ! b_num_groups b = length (b_ops b) \<and> (\<forall>i \<in> {b_num_groups b..<8}. b_groups b ! i = 0)"

definition batch_group :: "op_batch \<Rightarrow> nat \<Rightarrow> operation list" where
  "batch_group b i = slice_of (b_ops b) (b_indptr b ! i) (b_indptr b ! (i + 1))"

lemma res_foldD:
  assumes "res_fold f xs s = Inr t" "I s" "\<And>x s s'. x \<in> set xs \<Longrightarrow> I s \<Longrightarrow> f x s = Inr s' \<Longrightarrow> P x \<and> I s'"
  shows "(\<forall>x \<in> set xs. P x) \<and> I t"
  using assms
proof (induction xs arbitrary: s)
  case (Cons x xs)
  obtain s' where s': "f x s = Inr s'" "res_fold f xs s' = Inr t" using Cons.prems(1) by (cases "f x s") auto
  have "P x \<and> I s'" using Cons.prems(3) [of x s s'] Cons.prems(2) s'(1) by simp
  moreover have "(\<forall>x \<in> set xs. P x) \<and> I t" by (rule Cons.IH [OF s'(2)]) (use calculation Cons.prems(3) in auto)
  ultimately show ?case by simp
qed simp

lemma collect_placements_ok:
  assumes "collect_immediate_placements operations ptr i m (Some n) = Inr (placements, nx)"
  defines "g \<equiv> slice_of operations (ptr ! i) (ptr ! (i + 1))"
  shows "placements = zip [i + 1..<i + 1 + length (imms g)] (imms g) \<and>
    (\<forall>k < length (imms g). i + 1 + k < m \<and> i + 1 + k < n \<and> ptr ! (i + 1 + k) = ptr ! (i + 1 + k + 1))"
proof -
  define F where "F op st = (case st of (placements, next_group_idx) \<Rightarrow> case imm_value op of
         None \<Rightarrow> Inr (placements, next_group_idx)
       | Some imm \<Rightarrow>
           if next_group_idx \<ge> m then Inl ImmediateExceedsSlots
           else if (case Some n of Some n \<Rightarrow> next_group_idx \<ge> n | None \<Rightarrow> False)
           then Inl (ImmediateExceedsNumGroups next_group_idx (the (Some n)))
           else if ptr ! next_group_idx \<noteq> ptr ! (next_group_idx + 1)
           then Inl (ImmediateOverlapsGroup next_group_idx)
           else Inr (placements @ [(next_group_idx, imm)], next_group_idx + 1))" for op and st :: "(nat \<times> felt) list \<times> nat"
  have "pl' = pl @ zip [s..<s + length (imms h)] (imms h) \<and>
      (\<forall>k < length (imms h). s + k < m \<and> s + k < n \<and> ptr ! (s + k) = ptr ! (s + k + 1))"
    if "res_fold F h (pl, s) = Inr (pl', s')" for h pl pl' s s'
    using that
  proof (induction h arbitrary: pl s)
    case (Cons op h)
    show ?case
    proof (cases "imm_value op")
      case None
      then have "F op (pl, s) = Inr (pl, s)" "imms (op # h) = imms h" by (simp_all add: F_def has_imm_def)
      with Cons show ?thesis by simp
    next
      case (Some imm)
      then have imms: "imms (op # h) = imm # imms h" by (simp add: has_imm_def)
      have ok: "s < m \<and> s < n \<and> ptr ! s = ptr ! (s + 1)" "res_fold F h (pl @ [(s, imm)], s + 1) = Inr (pl', s')"
      proof -
        obtain st where "F op (pl, s) = Inr st" "res_fold F h st = Inr (pl', s')"
          using Cons.prems by (cases "F op (pl, s)") auto
        then show "s < m \<and> s < n \<and> ptr ! s = ptr ! (s + 1)" "res_fold F h (pl @ [(s, imm)], s + 1) = Inr (pl', s')"
          using Some by (simp_all add: F_def [of op] split: if_splits)
      qed
      from Cons.IH [OF ok(2)] have IH: "pl' = (pl @ [(s, imm)]) @ zip [s + 1..<s + 1 + length (imms h)] (imms h)"
        "\<forall>k < length (imms h). s + 1 + k < m \<and> s + 1 + k < n \<and> ptr ! (s + 1 + k) = ptr ! (s + 1 + k + 1)" by auto
      have "s + k < m \<and> s + k < n \<and> ptr ! (s + k) = ptr ! (s + k + 1)" if "k < length (imms (op # h))" for k
        using that ok(1) IH(2) by (cases k) (auto simp: imms)
      then show ?thesis using IH(1) by (simp add: imms upt_conv_Cons del: upt_Suc)
    qed
  qed simp
  moreover have "res_fold F g ([], i + 1) = Inr (placements, nx)"
    using assms(1) unfolding collect_immediate_placements_def g_def F_def [abs_def] by (simp add: case_prod_unfold)
  ultimately show ?thesis by (metis append_Nil)
qed

definition group_committed :: "op_batch \<Rightarrow> nat \<Rightarrow> bool" where
  "group_committed b i \<longleftrightarrow> b_groups b ! i = encode_group (batch_group b i) \<and>
     (\<forall>k < length (imms (batch_group b i)). i + 1 + k < 8 \<and> i + 1 + k < b_num_groups b \<and>
        b_indptr b ! (i + 1 + k) = b_indptr b ! (i + 1 + k + 1) \<and> b_groups b ! (i + 1 + k) = imms (batch_group b i) ! k)"

lemma check_group_committed:
  assumes "check_group_commitment idx b i flags = Inr flags'" "b_indptr b ! i \<noteq> b_indptr b ! (i + 1)"
  shows "group_committed b i \<and> (\<forall>p < length flags. flags' ! p \<longrightarrow> flags ! p \<or> i < p \<and> p < i + 1 + length (imms (batch_group b i))) \<and>
    length flags' = length flags"
proof -
  define g where "g = batch_group b i"
  obtain placements nx where pl: "collect_immediate_placements (b_ops b) (b_indptr b) i BATCH_SIZE (Some (b_num_groups b)) = Inr (placements, nx)"
    "b_groups b ! i = encode_group g"
    "res_fold (\<lambda>(j, imm) fl. if b_groups b ! j \<noteq> imm then Inl (ImmediateMismatch idx j) else Inr (fl[j := True])) placements flags = Inr flags'"
    using assms unfolding check_group_commitment_def Let_def group_value_eq g_def batch_group_def
    by (cases "collect_immediate_placements (b_ops b) (b_indptr b) i BATCH_SIZE (Some (b_num_groups b))") (auto split: if_splits)
  from collect_placements_ok [OF pl(1)] have p: "placements = zip [i + 1..<i + 1 + length (imms g)] (imms g)"
    "\<forall>k < length (imms g). i + 1 + k < BATCH_SIZE \<and> i + 1 + k < b_num_groups b \<and> b_indptr b ! (i + 1 + k) = b_indptr b ! (i + 1 + k + 1)"
    by (simp_all add: g_def batch_group_def)
  have fold: "(\<forall>x \<in> set placements. b_groups b ! fst x = snd x) \<and>
      (length flags' = length flags \<and> (\<forall>q < length flags. flags' ! q \<longrightarrow> flags ! q \<or> (\<exists>x \<in> set placements. q = fst x)))"
  proof (rule res_foldD [OF pl(3)])
    fix x fl fl'
    assume x: "x \<in> set placements" and fl: "length fl = length flags \<and> (\<forall>q < length flags. fl ! q \<longrightarrow> flags ! q \<or> (\<exists>x \<in> set placements. q = fst x))"
      and "(case x of (j, imm) \<Rightarrow> \<lambda>fl. if b_groups b ! j \<noteq> imm then Inl (ImmediateMismatch idx j) else Inr (fl[j := True])) fl = Inr fl'"
    then have "b_groups b ! fst x = snd x" "fl' = fl[fst x := True]" by (auto split: prod.splits if_splits)
    moreover have "flags ! q \<or> (\<exists>x \<in> set placements. q = fst x)" if "q < length flags" "fl[fst x := True] ! q" for q
      using that x fl by (cases "q = fst x") auto
    ultimately show "b_groups b ! fst x = snd x \<and> (length fl' = length flags \<and>
        (\<forall>q < length flags. fl' ! q \<longrightarrow> flags ! q \<or> (\<exists>x \<in> set placements. q = fst x)))" using fl by simp
  qed simp
  have "(i + 1 + k, imms g ! k) \<in> set placements" if "k < length (imms g)" for k
    unfolding p(1) in_set_conv_nth using that by (intro exI [of _ k]) (simp del: upt_Suc)
  then have imm: "b_groups b ! (i + 1 + k) = imms g ! k" if "k < length (imms g)" for k
    using bspec [OF conjunct1 [OF fold], of "(i + 1 + k, imms g ! k)"] that by simp
  have range: "i < fst x \<and> fst x < i + 1 + length (imms g)" if "x \<in> set placements" for x
  proof -
    have "(fst x, snd x) \<in> set (zip [i + 1..<i + 1 + length (imms g)] (imms g))" using that unfolding p(1) by simp
    then have "fst x \<in> set [i + 1..<i + 1 + length (imms g)]" by (rule set_zip_leftD)
    then have "fst x \<in> {i + 1..<i + 1 + length (imms g)}" by (simp only: set_upt)
    then show ?thesis by auto
  qed
  have "group_committed b i"
    unfolding group_committed_def g_def [symmetric] using p(2) pl(2) imm by (simp add: BATCH_SIZE_def)
  moreover have "flags ! q \<or> i < q \<and> q < i + 1 + length (imms g)" if "q < length flags" "flags' ! q" for q
    using fold range that by blast
  ultimately show ?thesis using fold unfolding g_def [symmetric] by blast
qed

definition batch_checked :: "nat \<Rightarrow> op_batch \<Rightarrow> bool" where
  "batch_checked idx b \<longleftrightarrow> batch_shape b \<and> check_structure idx b = Inr () \<and> check_commitment idx b = Inr ()"

lemma checked_structure:
  assumes "batch_checked idx b"
  shows "b_num_groups b \<le> 8" "i \<le> j \<Longrightarrow> j \<le> 8 \<Longrightarrow> b_indptr b ! i \<le> b_indptr b ! j" "b_indptr b ! 8 = length (b_ops b)"
    "i < b_num_groups b \<Longrightarrow> length (batch_group b i) \<le> 9"
proof -
  have len: "length (b_indptr b) = 9" using assms by (simp add: batch_checked_def batch_shape_def)
  have ok: "check_structure idx b = Inr ()" using assms by (simp add: batch_checked_def)
  show num: "b_num_groups b \<le> 8" using ok by (simp add: check_structure_def BATCH_SIZE_def split: if_splits)
  have incrs: "check_all (\<lambda>i. if b_indptr b ! i > b_indptr b ! (i + 1) then Inl (IndptrNotMonotonic idx i) else Inr ()) [0..<8] = Inr ()"
    using ok num len
    by (cases "check_all (\<lambda>i. if b_indptr b ! i > b_indptr b ! (i + 1) then Inl (IndptrNotMonotonic idx i) else Inr ()) [0..<8]")
       (simp_all add: check_structure_def BATCH_SIZE_def)
  then have "\<forall>i \<in> set [0..<8]. b_indptr b ! i \<le> b_indptr b ! (i + 1)" unfolding check_all_ok by (auto split: if_splits)
  then have step: "b_indptr b ! i \<le> b_indptr b ! Suc i" if "i < 8" for i using that by simp
  show "i \<le> j \<Longrightarrow> j \<le> 8 \<Longrightarrow> b_indptr b ! i \<le> b_indptr b ! j" for i j
  proof (induction j rule: dec_induct)
    case (step n)
    then show ?case using \<open>\<And>i. i < 8 \<Longrightarrow> b_indptr b ! i \<le> b_indptr b ! Suc i\<close> [of n] by simp
  qed simp
  show "b_indptr b ! 8 = length (b_ops b)"
    using ok num len incrs by (simp add: check_structure_def BATCH_SIZE_def split: if_splits)
  have "check_all (\<lambda>group_idx. let group_size = b_indptr b ! (group_idx + 1) - b_indptr b ! group_idx in
      if group_size > GROUP_SIZE then Inl (GroupTooLarge idx group_idx group_size) else Inr ()) [0..<b_num_groups b] = Inr ()"
    using ok num len incrs by (simp add: check_structure_def BATCH_SIZE_def split: if_splits)
  then have "\<forall>i \<in> set [0..<b_num_groups b]. b_indptr b ! (i + 1) - b_indptr b ! i \<le> 9"
    unfolding check_all_ok by (auto simp: Let_def GROUP_SIZE_def split: if_splits)
  then show "i < b_num_groups b \<Longrightarrow> length (batch_group b i) \<le> 9" for i
    by (auto simp: batch_group_def slice_of_def intro: min.coboundedI2)
qed

lemma checked_empty_iff:
  assumes "batch_checked idx b" "i < 8"
  shows "batch_group b i = [] \<longleftrightarrow> b_indptr b ! i = b_indptr b ! (i + 1)"
proof -
  have "b_indptr b ! i \<le> b_indptr b ! (i + 1)" "b_indptr b ! (i + 1) \<le> length (b_ops b)"
    using checked_structure(2) [OF assms(1), of i "i + 1"] checked_structure(2) [OF assms(1), of "i + 1" 8] checked_structure(3) [OF assms(1)] assms(2)
    by simp_all
  then show ?thesis by (auto simp: batch_group_def slice_of_def)
qed

lemma checked_beyond:
  assumes "batch_checked idx b" "b_num_groups b \<le> i" "i < 8"
  shows "batch_group b i = []"
proof -
  have "b_indptr b ! b_num_groups b = b_indptr b ! 8"
    using assms(1) checked_structure(3) [OF assms(1)] by (simp add: batch_checked_def batch_shape_def)
  then have "b_indptr b ! i = b_indptr b ! (i + 1)"
    using checked_structure(2) [OF assms(1), of "b_num_groups b" i] checked_structure(2) [OF assms(1), of i "i + 1"]
      checked_structure(2) [OF assms(1), of "i + 1" 8] assms(2,3) by simp
  then show ?thesis using checked_empty_iff [OF assms(1,3)] by simp
qed

lemma checked_groups:
  assumes "batch_checked idx b" "i < 8"
  shows "batch_group b i \<noteq> [] \<Longrightarrow> group_committed b i"
    and "batch_group b i = [] \<Longrightarrow> b_groups b ! i = 0 \<or>
      (\<exists>j < i. batch_group b j \<noteq> [] \<and> i < j + 1 + length (imms (batch_group b j)))"
proof -
  have "check_commitment idx b = Inr ()" using assms(1) by (simp add: batch_checked_def)
  then obtain flags where flags: "res_fold (check_group_commitment idx b) [0..<b_num_groups b] (replicate 8 False) = Inr flags"
    "check_all (\<lambda>group_idx.
       if b_indptr b ! group_idx = b_indptr b ! (group_idx + 1) \<and> \<not> flags ! group_idx \<and> b_groups b ! group_idx \<noteq> 0
       then Inl (EmptyGroupNotZero idx group_idx) else Inr ()) [0..<b_num_groups b] = Inr ()"
    unfolding check_commitment_def BATCH_SIZE_def
    by (cases "res_fold (check_group_commitment idx b) [0..<b_num_groups b] (replicate 8 False)") auto
  have num: "b_num_groups b \<le> 8" by (rule checked_structure(1) [OF assms(1)])
  have fold: "(\<forall>j \<in> set [0..<b_num_groups b]. batch_group b j \<noteq> [] \<longrightarrow> group_committed b j) \<and>
      (length flags = 8 \<and> (\<forall>p < 8. flags ! p \<longrightarrow> (\<exists>j < p. batch_group b j \<noteq> [] \<and> p < j + 1 + length (imms (batch_group b j)))))"
  proof (rule res_foldD [OF flags(1)])
    fix j fl fl'
    assume j: "j \<in> set [0..<b_num_groups b]"
      and fl: "length fl = 8 \<and> (\<forall>p < 8. fl ! p \<longrightarrow> (\<exists>j < p. batch_group b j \<noteq> [] \<and> p < j + 1 + length (imms (batch_group b j))))"
      and step: "check_group_commitment idx b j fl = Inr fl'"
    show "(batch_group b j \<noteq> [] \<longrightarrow> group_committed b j) \<and>
      (length fl' = 8 \<and> (\<forall>p < 8. fl' ! p \<longrightarrow> (\<exists>j < p. batch_group b j \<noteq> [] \<and> p < j + 1 + length (imms (batch_group b j)))))"
    proof (cases "b_indptr b ! j = b_indptr b ! (j + 1)")
      case True
      then show ?thesis using step fl checked_empty_iff [OF assms(1), of j] j num by (simp add: check_group_commitment_def)
    next
      case False
      then have "batch_group b j \<noteq> []" using checked_empty_iff [OF assms(1), of j] j num by auto
      with check_group_committed [OF step False] fl show ?thesis by metis
    qed
  qed simp
  show "group_committed b i" if "batch_group b i \<noteq> []"
    using fold that checked_beyond [OF assms(1) _ assms(2)] by (cases "i < b_num_groups b") auto
  show "b_groups b ! i = 0 \<or> (\<exists>j < i. batch_group b j \<noteq> [] \<and> i < j + 1 + length (imms (batch_group b j)))" if "batch_group b i = []"
  proof (cases "i < b_num_groups b")
    case True
    then have "flags ! i \<or> b_groups b ! i = 0"
      using flags(2) that checked_empty_iff [OF assms] unfolding check_all_ok by (auto split: if_splits)
    then show ?thesis using fold assms(2) by blast
  next
    case False
    then show ?thesis using assms by (simp add: batch_checked_def batch_shape_def)
  qed
qed

section \<open>Opcodes determine operations\<close>

text \<open>An operation without its error code, and the operations of a list that do something.\<close>

definition op_core :: "operation \<Rightarrow> operation" where
  "op_core op = (case op of Assert _ \<Rightarrow> Assert 0 | U32assert2 _ \<Rightarrow> U32assert2 0 | MpVerify _ \<Rightarrow> MpVerify 0 | op \<Rightarrow> op)"

definition effective :: "operation list \<Rightarrow> operation list" where
  "effective operations = map op_core (filter (\<lambda>op. op \<noteq> Noop) operations)"

lemma effective_simps [simp]: "effective [] = []" "effective (g @ h) = effective g @ effective h" "effective (Noop # g) = effective g"
  "op \<noteq> Noop \<Longrightarrow> effective (op # g) = op_core op # effective g"
  by (simp_all add: effective_def)

text \<open>The operation of an opcode, with zero for its argument.\<close>

definition code_op :: "8 word \<Rightarrow> operation" where
  "code_op c = (case read_from \<lparr>write_felt = \<lambda>_. [], write_u64 = \<lambda>_. [], read_felt = \<lambda>bs. Some (0, bs),
       felt_size_hint = \<lambda>_. 0, u64_size_hint = \<lambda>_. 0\<rparr> [c] of
     Inr (op, _) \<Rightarrow> op | Inl _ \<Rightarrow> Noop)"

lemma code_op_code: "code_op (op_code op) = (if has_imm op then Push 0 else op_core op)"
  by (cases op) (simp_all add: code_op_def op_core_def has_imm_def imm_value_def read_with_felt_def)

lemma op_code_eqD:
  assumes "op_code a = op_code b"
  shows "has_imm a = has_imm b" "\<not> has_imm a \<Longrightarrow> op_core a = op_core b" "a = Noop \<longleftrightarrow> b = Noop"
proof -
  have eq: "(if has_imm a then Push 0 else op_core a) = (if has_imm b then Push 0 else op_core b)"
    using assms code_op_code by metis
  have imm: "has_imm op \<longleftrightarrow> (\<exists>x. op_core op = Push x)" "op_core op = Noop \<longleftrightarrow> op = Noop" for op
    by (cases op; simp add: has_imm_def imm_value_def op_core_def)+
  show h: "has_imm a = has_imm b" using eq imm(1) by metis
  show "\<not> has_imm a \<Longrightarrow> op_core a = op_core b" using eq h by simp
  show "a = Noop \<longleftrightarrow> b = Noop" using eq h imm(2) [of a] imm(2) [of b] has_imm_Noop by (cases "has_imm a") auto
qed

lemma op_core_imm: "has_imm op \<Longrightarrow> op_core op = Push (the (imm_value op))"
  by (cases op) (simp_all add: has_imm_def imm_value_def op_core_def)

lemma op_code_Noop: "op_code op = 0 \<longleftrightarrow> op = Noop"
  by (cases op) simp_all

lemma encode_Cons: "encode_from 0 (op # g) = ucast (op_code op) OR push_bit 7 (encode_from 0 g)"
proof -
  have "encode_from (Suc k) g = push_bit 7 (encode_from k g)" for k
    by (induction g arbitrary: k) (simp_all add: push_bit_or OP_BITS_def)
  then show ?thesis by simp
qed

lemma op_code_take: "take_bit 7 (ucast (op_code op) :: u64) = ucast (op_code op)" "drop_bit 7 (ucast (op_code op) :: u64) = 0"
  by (cases op; simp add: take_bit_eq_mod drop_bit_eq_div)+

lemma encode_take: "length g \<le> n \<Longrightarrow> n \<le> 9 \<Longrightarrow> take_bit (7 * n) (encode_from 0 g) = encode_from 0 g"
proof (induction g arbitrary: n)
  case (Cons op g)
  then obtain m where n: "n = Suc m" by (cases n) auto
  have "take_bit (7 * n) (ucast (op_code op) :: u64) = ucast (op_code op)"
    using op_code_take(1) [of op] by (metis n mult_Suc_right le_add1 take_bit_take_bit min_absorb2)
  moreover have "take_bit (7 * n) (push_bit 7 (encode_from 0 g)) = push_bit 7 (encode_from 0 g)"
    using Cons.IH [of m] Cons.prems by (simp add: n take_bit_push_bit)
  ultimately show ?case unfolding encode_Cons by (simp add: take_bit_or)
qed simp

lemma encode_decode:
  assumes "length (op # g) \<le> 9"
  shows "take_bit 7 (encode_from 0 (op # g)) = ucast (op_code op)" "drop_bit 7 (encode_from 0 (op # g)) = encode_from 0 g"
proof -
  show "take_bit 7 (encode_from 0 (op # g)) = ucast (op_code op)"
    unfolding encode_Cons by (simp add: take_bit_or op_code_take take_bit_push_bit)
  have "drop_bit 7 (push_bit 7 (encode_from 0 g)) = take_bit 57 (encode_from 0 g)"
    by (rule bit_word_eqI) (simp add: bit_drop_bit_eq bit_push_bit_iff bit_take_bit_iff)
  also have "\<dots> = encode_from 0 g"
  proof -
    have "take_bit 56 (encode_from 0 g) = encode_from 0 g" using encode_take [of g 8] assms by simp
    moreover have "take_bit 57 (take_bit 56 x) = take_bit 56 x" for x :: u64 by simp
    ultimately show ?thesis by metis
  qed
  finally show "drop_bit 7 (encode_from 0 (op # g)) = encode_from 0 g"
    unfolding encode_Cons by (simp add: drop_bit_or op_code_take)
qed

lemma ucast_code: "ucast (ucast c :: u64) = (c :: 8 word)"
  by (rule bit_word_eqI) (simp add: bit_ucast_iff)

lemma encode_zero:
  assumes "encode_from 0 h = 0" "length h \<le> 9"
  shows "effective h = [] \<and> imms h = []"
  using assms
proof (induction h)
  case (Cons op h)
  then have "ucast (op_code op) = (0 :: u64)" "encode_from 0 h = 0" using encode_decode [of op h] by simp_all
  then have "op_code op = 0" using ucast_code [of "op_code op"] by simp
  then have "op = Noop" by (simp only: op_code_Noop)
  then show ?case using Cons \<open>encode_from 0 h = 0\<close> by simp
qed simp

lemma encode_head:
  assumes "length (a # g) \<le> 9" "length (b # h) \<le> 9" "encode_from 0 (a # g) = encode_from 0 (b # h)"
  shows "op_code a = op_code b" "encode_from 0 g = encode_from 0 h"
proof -
  have "ucast (op_code a) = (ucast (op_code b) :: u64)" using encode_decode(1) assms by metis
  then show "op_code a = op_code b" by (metis ucast_code)
  show "encode_from 0 g = encode_from 0 h" using encode_decode(2) assms by metis
qed

lemma encode_inject:
  assumes "length g \<le> 9" "length h \<le> 9" "encode_from 0 g = encode_from 0 h" "imms g = imms h"
  shows "effective g = effective h"
  using assms
proof (induction g arbitrary: h)
  case Nil
  then show ?case using encode_zero [of h] by simp
next
  case (Cons a g)
  show ?case
  proof (cases h)
    case Nil
    then show ?thesis using encode_zero [of "a # g"] Cons.prems by simp
  next
    case (Cons b h')
    have eqs: "op_code a = op_code b" "encode_from 0 g = encode_from 0 h'" "length g \<le> 9" "length h' \<le> 9"
      using encode_head [of a g b h'] Cons.prems Cons by simp_all
    note codes = op_code_eqD [OF eqs(1)]
    show ?thesis
    proof (cases "has_imm a")
      case True
      then have imm: "a \<noteq> Noop" "b \<noteq> Noop" "has_imm b" using codes(1) by auto
      then have "the (imm_value a) = the (imm_value b)" "imms g = imms h'"
        using Cons.prems(4) True by (simp_all add: Cons)
      with imm show ?thesis using Cons.IH [OF eqs(3,4,2)] True by (simp add: Cons op_core_imm)
    next
      case False
      then have "imms g = imms h'" using Cons.prems(4) codes(1) by (simp add: Cons)
      then have "effective g = effective h'" using Cons.IH [OF eqs(3,4,2)] by simp
      then show ?thesis using codes(2,3) False by (cases "a = Noop") (simp_all add: Cons)
    qed
  qed
qed

lemma encode_imms:
  assumes "length g \<le> 9" "length h \<le> 9" "encode_from 0 g = encode_from 0 h"
  shows "length (imms g) = length (imms h)"
proof -
  show ?thesis using assms
  proof (induction g arbitrary: h)
    case Nil
    then show ?case using encode_zero [of h] by simp
  next
    case (Cons a g)
    show ?case
    proof (cases h)
      case Nil
      then show ?thesis using encode_zero [of "a # g"] Cons.prems by simp
    next
      case (Cons b h')
      have eqs: "op_code a = op_code b" "encode_from 0 g = encode_from 0 h'" "length g \<le> 9" "length h' \<le> 9"
        using encode_head [of a g b h'] Cons.prems Cons by simp_all
      have "has_imm a = has_imm b" "length (imms g) = length (imms h')"
        by (rule op_code_eqD(1) [OF eqs(1)], rule Cons.IH [OF eqs(3,4,2)])
      then show ?thesis by (cases "has_imm a") (simp_all add: Cons)
    qed
  qed
qed

lemma encode_group_inject:
  assumes "length g \<le> 9" "length h \<le> 9" "encode_group g = encode_group h"
  shows "encode_from 0 g = encode_from 0 h"
proof -
  have "uint (encode_from 0 g) < ORDER" if "length g \<le> 9" for g
  proof -
    have "take_bit 63 (encode_from 0 g) = encode_from 0 g" using encode_take [of g 9] that by simp
    then have "uint (encode_from 0 g) = take_bit 63 (uint (encode_from 0 g))" by (metis unsigned_take_bit_eq)
    then have "uint (encode_from 0 g) < 2 ^ 63" by (metis take_bit_int_less_exp)
    then show ?thesis by (simp add: ORDER_def)
  qed
  then show ?thesis using assms by (metis as_canonical_u64_from_u64)
qed

section \<open>The groups determine the operations\<close>

text \<open>The groups are read from the first to the last.  A position is a boundary when no group before it keeps
  an immediate value there or later.\<close>

definition boundary :: "op_batch \<Rightarrow> nat \<Rightarrow> bool" where
  "boundary b i \<longleftrightarrow> (\<forall>j < i. j + 1 + length (imms (batch_group b j)) \<le> i)"

definition effective_from :: "op_batch \<Rightarrow> nat \<Rightarrow> operation list" where
  "effective_from b i = concat (map (\<lambda>j. effective (batch_group b j)) [i..<8])"

lemma boundary_committed:
  assumes "batch_checked idx b" "i < 8" "boundary b i"
  shows "group_committed b i"
proof (cases "batch_group b i = []")
  case True
  then have "b_groups b ! i = 0"
    using checked_groups(2) [OF assms(1,2)] assms(3) unfolding boundary_def by (meson not_less)
  then show ?thesis using True by (simp add: group_committed_def felt_from_u64_def)
qed (rule checked_groups(1) [OF assms(1,2)])

lemma checked_group_length: "batch_checked idx b \<Longrightarrow> i < 8 \<Longrightarrow> length (batch_group b i) \<le> 9"
  using checked_structure(4) [of idx b i] checked_beyond [of idx b i] by (cases "i < b_num_groups b") auto

lemma boundary_step:
  assumes "batch_checked idx b" "i < 8" "boundary b i"
  defines "k \<equiv> i + 1 + length (imms (batch_group b i))"
  shows "k \<le> 8" "boundary b k" "effective_from b i = effective (batch_group b i) @ effective_from b k"
proof -
  have c: "group_committed b i" by (rule boundary_committed [OF assms(1-3)])
  show k: "k \<le> 8"
    using c assms(2) unfolding group_committed_def k_def by (cases "imms (batch_group b i)") (auto simp: less_Suc_eq_le)
  have empty: "batch_group b j = []" if "i < j" "j < k" for j
  proof -
    have "j = i + 1 + (j - i - 1)" "j - i - 1 < length (imms (batch_group b i))" using that by (simp_all add: k_def)
    then have "b_indptr b ! j = b_indptr b ! (j + 1)" using c unfolding group_committed_def by metis
    then show ?thesis using checked_empty_iff [OF assms(1), of j] that k by simp
  qed
  have "j + 1 + length (imms (batch_group b j)) \<le> k" if "j < k" for j
  proof (cases j i rule: linorder_cases)
    case less
    then show ?thesis using assms(3) unfolding boundary_def k_def by (meson le_add1 le_trans)
  qed (use that empty k_def in auto)
  then show "boundary b k" by (simp add: boundary_def)
  have "[i..<8] = i # [Suc i..<k] @ [k..<8]"
  proof -
    have "[Suc i..<8] = [Suc i..<k] @ [k..<8]"
      using upt_add_eq_append [of "Suc i" k "8 - k"] k by (simp add: k_def del: upt_Suc)
    then show ?thesis using assms(2) by (simp only: upt_conv_Cons)
  qed
  moreover have "concat (map (\<lambda>j. effective (batch_group b j)) [Suc i..<k]) = []"
    using empty by (auto simp del: upt_Suc)
  ultimately show "effective_from b i = effective (batch_group b i) @ effective_from b k"
    unfolding effective_from_def by (simp del: upt_Suc)
qed

lemma groups_determine:
  assumes "batch_checked m b" "batch_checked n c" "b_groups b = b_groups c" "boundary b i" "boundary c i" "i \<le> 8"
  shows "effective_from b i = effective_from c i"
  using assms(4-6)
proof (induction "8 - i" arbitrary: i rule: less_induct)
  case less
  show ?case
  proof (cases "i = 8")
    case True
    then show ?thesis by (simp add: effective_from_def)
  next
    case False
    then have i: "i < 8" using less.prems(3) by simp
    define g h where "g = batch_group b i" "h = batch_group c i"
    note b = boundary_committed [OF assms(1) i less.prems(1)] boundary_step [OF assms(1) i less.prems(1)]
      and c = boundary_committed [OF assms(2) i less.prems(2)] boundary_step [OF assms(2) i less.prems(2)]
    have len: "length g \<le> 9" "length h \<le> 9"
      unfolding g_h_def using checked_group_length [OF _ i] assms(1,2) by blast+
    have enc: "encode_from 0 g = encode_from 0 h"
      using b(1) c(1) assms(3) encode_group_inject [OF len] by (simp add: group_committed_def g_h_def)
    have n: "length (imms g) = length (imms h)" by (rule encode_imms [OF len enc])
    have "imms g = imms h"
    proof (rule nth_equalityI [OF n])
      show "imms g ! k = imms h ! k" if "k < length (imms g)" for k
        using that b(1) c(1) n assms(3) unfolding group_committed_def g_h_def by metis
    qed
    then have "effective g = effective h" by (rule encode_inject [OF len enc])
    moreover have "effective_from b (i + 1 + length (imms g)) = effective_from c (i + 1 + length (imms g))"
      by (rule less.hyps) (use i b c n g_h_def in simp_all)
    ultimately show ?thesis using b(4) c(4) n by (simp add: g_h_def)
  qed
qed

lemma effective_from_0:
  assumes "batch_checked idx b"
  shows "effective_from b 0 = effective (b_ops b)"
proof -
  have "concat (map (\<lambda>j. effective (batch_group b j)) [0..<k]) = effective (take (b_indptr b ! k) (b_ops b))" if "k \<le> 8" for k
    using that
  proof (induction k)
    case 0
    then show ?case using assms by (simp add: batch_checked_def batch_shape_def)
  next
    case (Suc k)
    have "take (b_indptr b ! Suc k) (b_ops b) = take (b_indptr b ! k) (b_ops b) @ batch_group b k"
      using checked_structure(2) [OF assms, of k "Suc k"] Suc.prems
      by (simp add: batch_group_def slice_of_def take_add [symmetric])
    then show ?case using Suc by simp
  qed
  from this [of 8] show ?thesis using checked_structure(3) [OF assms] by (simp add: effective_from_def del: upt_Suc)
qed

lemma validated_checked:
  assumes "validate_batch_invariants batches = Inr ()" "\<forall>b \<in> set batches. batch_shape b" "i < length batches"
  shows "batch_checked i (batches ! i)"
proof -
  have shaped: "validate_batch_structure batches = Inr ()" and commit: "validate_immediate_commitment batches = Inr ()"
    using assms(1) unfolding validate_batch_invariants_def by (auto simp: res_bind_eq_Inr)
  have "(i, batches ! i) \<in> set (enumerate 0 batches)" using assms(3) by (simp add: in_set_enumerate_eq)
  then have "check_structure i (batches ! i) = Inr ()" "check_commitment i (batches ! i) = Inr ()"
    using shaped commit unfolding validate_batch_structure_def validate_immediate_commitment_def check_all_ok by auto
  then show ?thesis using assms(2,3) by (simp add: batch_checked_def)
qed

lemma groups_bind:
  assumes "validate_batch_invariants batches = Inr ()" "validate_batch_invariants batches' = Inr ()"
    "\<forall>b \<in> set batches \<union> set batches'. batch_shape b"
    "map b_groups batches = map b_groups batches'"
  shows "effective (concat (map b_ops batches)) = effective (concat (map b_ops batches'))"
proof -
  have len: "length batches = length batches'" using assms(4) by (rule map_eq_imp_length_eq)
  have concat: "effective (concat xs) = concat (map effective xs)" for xs by (induction xs) simp_all
  have "effective (b_ops (batches ! i)) = effective (b_ops (batches' ! i))" if i: "i < length batches" for i
  proof -
    have c: "batch_checked i (batches ! i)" "batch_checked i (batches' ! i)"
      using validated_checked [OF assms(1)] validated_checked [OF assms(2)] assms(3) i len by auto
    have "b_groups (batches ! i) = b_groups (batches' ! i)" using assms(4) i len by (metis nth_map)
    then show ?thesis using groups_determine [OF c, of 0] effective_from_0 [OF c(1)] effective_from_0 [OF c(2)]
      by (simp add: boundary_def)
  qed
  then have "map (\<lambda>b. effective (b_ops b)) batches = map (\<lambda>b. effective (b_ops b)) batches'"
    using len by (intro nth_equalityI) simp_all
  then show ?thesis by (simp add: concat comp_def)
qed


lemma batch_ops_valid_of: "batch_ops operations = Inr batches \<Longrightarrow> validate_batch_invariants batches = Inr ()"
  by (rule batch_ops_chunks [of operations]) (use batch_validate_ok in auto)


end
