(* ===== verification/Mast.thy ===== *)
theory Mast
  imports Batch_Commit Advice
begin

text \<open>
  MAST forests, \<open>core/src/mast/mod.rs\<close> and \<open>core/src/mast/node\<close>: the nodes of a program with their digests,
  the procedure roots, the lookup of procedures by digest, and the validation of forests that come from
  outside.  The digest of a node commits to the digests of its children and to the groups of its batches.  The
  hash functions come from another package and are the parameter \<open>hash_lib\<close>.  Of the debug information only what
  execution and validation read is kept: decorators by node and operation, error messages and procedure names.
\<close>

section \<open>Nodes and forests\<close>

type_synonym node_id = nat

datatype debug_options =
    StackAll
  | StackTop "8 word"
  | MemAll
  | MemInterval u32 u32
  | LocalInterval "16 word" "16 word" "16 word"
  | AdvStackTop "16 word"

datatype decorator = Debug debug_options | Trace u32

datatype mast_node =
    Block "op_batch list" fword
  | Join node_id node_id fword
  | Split node_id node_id fword
  | Loop node_id fword
  | Call node_id bool fword
  | Dyn bool fword
  | External fword

primrec digest :: "mast_node \<Rightarrow> fword" where
  "digest (Block _ d) = d"
| "digest (Join _ _ d) = d"
| "digest (Split _ _ d) = d"
| "digest (Loop _ d) = d"
| "digest (Call _ _ d) = d"
| "digest (Dyn _ d) = d"
| "digest (External d) = d"

primrec is_external :: "mast_node \<Rightarrow> bool" where
  "is_external (Block _ _) = False"
| "is_external (Join _ _ _) = False"
| "is_external (Split _ _ _) = False"
| "is_external (Loop _ _) = False"
| "is_external (Call _ _ _) = False"
| "is_external (Dyn _ _) = False"
| "is_external (External _) = True"

record mast_forest =
  mf_nodes :: "mast_node list"
  mf_roots :: "node_id list"
  mf_advice_map :: advice_map_entries
  mf_before_enter :: "node_id \<Rightarrow> decorator list"
  mf_after_exit :: "node_id \<Rightarrow> decorator list"
  mf_op_decorators :: "node_id \<Rightarrow> nat \<Rightarrow> decorator list"
  mf_error_codes :: "u64 \<Rightarrow> string option"
  mf_procedure_names :: "(fword \<times> string) list"

definition get_node_by_id :: "mast_forest \<Rightarrow> node_id \<Rightarrow> mast_node option" where
  "get_node_by_id F i = (if i < length (mf_nodes F) then Some (mf_nodes F ! i) else None)"

text \<open>Indexing of a forest panics outside its nodes; so does the search for a root when a root is outside.\<close>

definition node_at :: "mast_forest \<Rightarrow> node_id \<Rightarrow> mast_node res" where
  "node_at F i = ok_or (get_node_by_id F i) (Panic ''index out of bounds'')"

fun find_root :: "mast_forest \<Rightarrow> fword \<Rightarrow> node_id list \<Rightarrow> node_id option res" where
  "find_root F d [] = Inr None"
| "find_root F d (i # is) = res_bind (node_at F i) (\<lambda>node. if digest node = d then Inr (Some i) else find_root F d is)"

definition find_procedure_root :: "mast_forest \<Rightarrow> fword \<Rightarrow> node_id option res" where
  "find_procedure_root F d = find_root F d (mf_roots F)"

definition is_procedure_root :: "mast_forest \<Rightarrow> node_id \<Rightarrow> bool" where
  "is_procedure_root F i = (i \<in> set (mf_roots F))"

definition make_root :: "mast_forest \<Rightarrow> node_id \<Rightarrow> mast_forest res" where
  "make_root F i =
     res_bind (ensure (i < length (mf_nodes F)) (Panic ''assertion failed'')) (\<lambda>_.
     Inr (if i \<in> set (mf_roots F) then F else F\<lparr>mf_roots := mf_roots F @ [i]\<rparr>))"

definition resolve_error_message :: "mast_forest \<Rightarrow> felt \<Rightarrow> string option" where
  "resolve_error_message F code = mf_error_codes F (as_canonical_u64 code)"

section \<open>Programs\<close>

record mast_program =
  mp_forest :: mast_forest
  mp_entrypoint :: node_id
  mp_kernel :: "fword list"

definition program_with_kernel :: "mast_forest \<Rightarrow> node_id \<Rightarrow> fword list \<Rightarrow> mast_program res" where
  "program_with_kernel F entrypoint hashes =
     res_bind (ensure (get_node_by_id F entrypoint \<noteq> None) (Panic ''invalid entrypoint'')) (\<lambda>_.
     res_bind (ensure (is_procedure_root F entrypoint) (Panic ''entrypoint not a procedure'')) (\<lambda>_.
     Inr \<lparr>mp_forest = F, mp_entrypoint = entrypoint, mp_kernel = hashes\<rparr>))"

section \<open>Validation\<close>

record hash_lib =
  hash_elements :: "felt list \<Rightarrow> fword"
  merge_in_domain :: "fword \<Rightarrow> fword \<Rightarrow> felt \<Rightarrow> fword"

datatype mast_error =
    InvalidBatchPadding node_id batch_error
  | InvalidProcedureNameDigest fword
  | ForwardReference node_id node_id
  | HashMismatch node_id fword fword
  | MastPanic string

definition JOIN_DOMAIN :: felt where
  "JOIN_DOMAIN = 87"

definition SPLIT_DOMAIN :: felt where
  "SPLIT_DOMAIN = 84"

definition LOOP_DOMAIN :: felt where
  "LOOP_DOMAIN = 85"

definition CALL_DOMAIN :: felt where
  "CALL_DOMAIN = 108"

definition SYSCALL_DOMAIN :: felt where
  "SYSCALL_DOMAIN = 104"

definition DYNCALL_DEFAULT_DIGEST :: fword where
  "DYNCALL_DEFAULT_DIGEST = FWord 16830415514927835337 12164645914672292987 13192574193032437705 4604554596675732269"

definition DYN_DEFAULT_DIGEST :: fword where
  "DYN_DEFAULT_DIGEST = FWord 16952228088962355159 5793482471479538911 14446299416172848527 13522295374716441620"

definition validate_basic_block_invariants :: "mast_forest \<Rightarrow> mast_error + unit" where
  "validate_basic_block_invariants F =
     check_all (\<lambda>(i, node). case node of
         Block op_batches _ \<Rightarrow> res_map_err (InvalidBatchPadding i) (validate_batch_invariants op_batches)
       | _ \<Rightarrow> Inr ())
     (enumerate 0 (mf_nodes F))"

definition validate_procedure_name_digests :: "mast_forest \<Rightarrow> mast_error + unit" where
  "validate_procedure_name_digests F =
     check_all (\<lambda>(d, _). case find_procedure_root F d of
         Inl _ \<Rightarrow> Inl (MastPanic ''index out of bounds'')
       | Inr None \<Rightarrow> Inl (InvalidProcedureNameDigest d)
       | Inr (Some _) \<Rightarrow> Inr ())
     (mf_procedure_names F)"

definition validate_forest :: "mast_forest \<Rightarrow> mast_error + unit" where
  "validate_forest F =
     res_bind (validate_basic_block_invariants F) (\<lambda>_. validate_procedure_name_digests F)"

definition check_no_forward_ref :: "node_id \<Rightarrow> node_id \<Rightarrow> mast_error + unit" where
  "check_no_forward_ref i child = (if child \<ge> i then Inl (ForwardReference i child) else Inr ())"

definition compute_node_hash :: "hash_lib \<Rightarrow> fword list \<Rightarrow> node_id \<Rightarrow> mast_node \<Rightarrow> mast_error + fword" where
  "compute_node_hash H hashes i node = (case node of
      Block op_batches _ \<Rightarrow> Inr (hash_elements H (concat (map b_groups op_batches)))
    | Join l r _ \<Rightarrow>
        res_bind (check_no_forward_ref i l) (\<lambda>_.
        res_bind (check_no_forward_ref i r) (\<lambda>_.
        Inr (merge_in_domain H (hashes ! l) (hashes ! r) JOIN_DOMAIN)))
    | Split t f _ \<Rightarrow>
        res_bind (check_no_forward_ref i t) (\<lambda>_.
        res_bind (check_no_forward_ref i f) (\<lambda>_.
        Inr (merge_in_domain H (hashes ! t) (hashes ! f) SPLIT_DOMAIN)))
    | Loop body _ \<Rightarrow>
        res_bind (check_no_forward_ref i body) (\<lambda>_.
        Inr (merge_in_domain H (hashes ! body) EMPTY_WORD LOOP_DOMAIN))
    | Call callee syscall _ \<Rightarrow>
        res_bind (check_no_forward_ref i callee) (\<lambda>_.
        Inr (merge_in_domain H (hashes ! callee) EMPTY_WORD (if syscall then SYSCALL_DOMAIN else CALL_DOMAIN)))
    | Dyn dyncall _ \<Rightarrow> Inr (if dyncall then DYNCALL_DEFAULT_DIGEST else DYN_DEFAULT_DIGEST)
    | External d \<Rightarrow> Inr d)"

definition compute_node_hashes :: "hash_lib \<Rightarrow> mast_forest \<Rightarrow> mast_error + fword list" where
  "compute_node_hashes H F =
     res_fold (\<lambda>(i, node) hashes. res_map (\<lambda>d. hashes @ [d]) (compute_node_hash H hashes i node))
       (enumerate 0 (mf_nodes F)) []"

definition validate_node_hashes :: "hash_lib \<Rightarrow> mast_forest \<Rightarrow> mast_error + unit" where
  "validate_node_hashes H F =
     res_bind (compute_node_hashes H F) (\<lambda>hashes.
     check_all (\<lambda>(i, node, computed).
       if digest node \<noteq> computed then Inl (HashMismatch i (digest node) computed) else Inr ())
     (enumerate 0 (zip (mf_nodes F) hashes)))"

text \<open>The checks of an untrusted forest after it has been read; a hashless one has its digests recomputed while
  it is read.\<close>

definition validate_untrusted :: "hash_lib \<Rightarrow> bool \<Rightarrow> mast_forest \<Rightarrow> mast_error + mast_forest" where
  "validate_untrusted H hashless F =
     res_bind (if hashless then Inr () else validate_node_hashes H F) (\<lambda>_.
     res_bind (validate_forest F) (\<lambda>_. Inr F))"

section \<open>What a digest determines\<close>

text \<open>The hash inputs of a forest.  The digests of dynamic nodes are constants.\<close>

datatype hash_input = Elements "felt list" | Merge fword fword felt | Fixed fword

primrec input_hash :: "hash_lib \<Rightarrow> hash_input \<Rightarrow> fword" where
  "input_hash H (Elements xs) = hash_elements H xs"
| "input_hash H (Merge a b d) = merge_in_domain H a b d"
| "input_hash H (Fixed c) = c"

definition node_digest :: "mast_forest \<Rightarrow> node_id \<Rightarrow> fword" where
  "node_digest F i = digest (mf_nodes F ! i)"

primrec node_input :: "mast_forest \<Rightarrow> mast_node \<Rightarrow> hash_input" where
  "node_input F (Block op_batches _) = Elements (concat (map b_groups op_batches))"
| "node_input F (Join l r _) = Merge (node_digest F l) (node_digest F r) JOIN_DOMAIN"
| "node_input F (Split t f _) = Merge (node_digest F t) (node_digest F f) SPLIT_DOMAIN"
| "node_input F (Loop body _) = Merge (node_digest F body) EMPTY_WORD LOOP_DOMAIN"
| "node_input F (Call callee syscall _) =
     Merge (node_digest F callee) EMPTY_WORD (if syscall then SYSCALL_DOMAIN else CALL_DOMAIN)"
| "node_input F (Dyn dyncall _) = Fixed (if dyncall then DYNCALL_DEFAULT_DIGEST else DYN_DEFAULT_DIGEST)"
| "node_input F (External d) = Fixed d"

definition hash_inputs :: "mast_forest \<Rightarrow> hash_input set" where
  "hash_inputs F = node_input F ` {node \<in> set (mf_nodes F). \<not> is_external node}"

text \<open>The children of a node come before it, and its digest is the hash of its input.\<close>

primrec children :: "mast_node \<Rightarrow> node_id set" where
  "children (Block _ _) = {}"
| "children (Join l r _) = {l, r}"
| "children (Split t f _) = {t, f}"
| "children (Loop body _) = {body}"
| "children (Call callee _ _) = {callee}"
| "children (Dyn _ _) = {}"
| "children (External _) = {}"

lemma compute_node_hash_ok:
  assumes "compute_node_hash H hashes i node = Inr d" "\<forall>k < i. hashes ! k = node_digest F k"
  shows "children node \<subseteq> {..<i} \<and> (\<not> is_external node \<longrightarrow> d = input_hash H (node_input F node))"
  using assms by (cases node) (auto simp: compute_node_hash_def check_no_forward_ref_def split: if_splits)

lemma compute_node_hashes_ok:
  assumes "compute_node_hashes H F = Inr hashes"
  shows "length hashes = length (mf_nodes F) \<and>
    (\<forall>i < length hashes. compute_node_hash H (take i hashes) i (mf_nodes F ! i) = Inr (hashes ! i))"
proof -
  define f where "f = (\<lambda>(i, node) hashes. res_map (\<lambda>d. hashes @ [d]) (compute_node_hash H hashes i node))"
  have "length hs = length nodes \<and> (\<forall>i < length hs. compute_node_hash H (take i hs) i (nodes ! i) = Inr (hs ! i))"
    if "res_fold f (enumerate 0 nodes) [] = Inr hs" for nodes hs
    using that
  proof (induction nodes arbitrary: hs rule: rev_induct)
    case (snoc node nodes)
    then obtain hs' d where *: "res_fold f (enumerate 0 nodes) [] = Inr hs'"
        "compute_node_hash H hs' (length nodes) node = Inr d" "hs = hs' @ [d]"
      by (auto simp: enumerate_append_eq res_fold_append f_def res_bind_eq_Inr res_map_def split: sum.splits)
    note IH = snoc.IH [OF *(1)]
    have "compute_node_hash H (take i hs) i ((nodes @ [node]) ! i) = Inr (hs ! i)" if "i < length hs" for i
      using that IH *(2) by (cases "i = length nodes") (auto simp: *(3) nth_append)
    then show ?case using IH *(3) by simp
  qed simp
  then show ?thesis using assms unfolding compute_node_hashes_def f_def by blast
qed

lemma validated_nodes:
  assumes "validate_node_hashes H F = Inr ()" "i < length (mf_nodes F)"
  shows "children (mf_nodes F ! i) \<subseteq> {..<i}"
    and "\<not> is_external (mf_nodes F ! i) \<Longrightarrow> node_digest F i = input_hash H (node_input F (mf_nodes F ! i))"
proof -
  obtain hashes where hashes: "compute_node_hashes H F = Inr hashes"
    "check_all (\<lambda>(i, node, computed).
       if digest node \<noteq> computed then Inl (HashMismatch i (digest node) computed) else Inr ())
     (enumerate 0 (zip (mf_nodes F) hashes)) = Inr ()"
    using assms(1) unfolding validate_node_hashes_def by (auto simp: res_bind_eq_Inr)
  note ok = compute_node_hashes_ok [OF hashes(1)]
  have eq: "hashes ! k = node_digest F k" if "k < length (mf_nodes F)" for k
  proof -
    have "(k, mf_nodes F ! k, hashes ! k) \<in> set (enumerate 0 (zip (mf_nodes F) hashes))"
      using that ok by (simp add: in_set_enumerate_eq)
    then show ?thesis using hashes(2) unfolding check_all_ok node_digest_def by (auto split: if_splits)
  qed
  have "compute_node_hash H (take i hashes) i (mf_nodes F ! i) = Inr (node_digest F i)"
    using ok eq assms(2) by metis
  from compute_node_hash_ok [OF this, of F] eq assms(2)
  show "children (mf_nodes F ! i) \<subseteq> {..<i}"
    "\<not> is_external (mf_nodes F ! i) \<Longrightarrow> node_digest F i = input_hash H (node_input F (mf_nodes F ! i))"
    by simp_all
qed

text \<open>Nodes of two forests that compute the same: equal control flow over blocks with the same operations, up
  to no-operations and error codes.  An external node stands for whatever has its digest.\<close>

inductive same_code :: "mast_forest \<Rightarrow> mast_forest \<Rightarrow> node_id \<Rightarrow> node_id \<Rightarrow> bool" for F G where
  same_block: "mf_nodes F ! i = Block bs d \<Longrightarrow> mf_nodes G ! j = Block bs' d' \<Longrightarrow>
     effective (concat (map b_ops bs)) = effective (concat (map b_ops bs')) \<Longrightarrow> same_code F G i j"
| same_join: "mf_nodes F ! i = Join l r d \<Longrightarrow> mf_nodes G ! j = Join l' r' d' \<Longrightarrow>
     same_code F G l l' \<Longrightarrow> same_code F G r r' \<Longrightarrow> same_code F G i j"
| same_split: "mf_nodes F ! i = Split l r d \<Longrightarrow> mf_nodes G ! j = Split l' r' d' \<Longrightarrow>
     same_code F G l l' \<Longrightarrow> same_code F G r r' \<Longrightarrow> same_code F G i j"
| same_loop: "mf_nodes F ! i = Loop b d \<Longrightarrow> mf_nodes G ! j = Loop b' d' \<Longrightarrow> same_code F G b b' \<Longrightarrow> same_code F G i j"
| same_call: "mf_nodes F ! i = Call c sys d \<Longrightarrow> mf_nodes G ! j = Call c' sys d' \<Longrightarrow> same_code F G c c' \<Longrightarrow> same_code F G i j"
| same_dyn: "mf_nodes F ! i = Dyn b d \<Longrightarrow> mf_nodes G ! j = Dyn b d' \<Longrightarrow> same_code F G i j"
| same_external: "is_external (mf_nodes F ! i) \<or> is_external (mf_nodes G ! j) \<Longrightarrow>
     node_digest F i = node_digest G j \<Longrightarrow> same_code F G i j"

lemma domains_distinct:
  "distinct [JOIN_DOMAIN, SPLIT_DOMAIN, LOOP_DOMAIN, CALL_DOMAIN, SYSCALL_DOMAIN]" "DYNCALL_DEFAULT_DIGEST \<noteq> DYN_DEFAULT_DIGEST"
  by (simp_all add: JOIN_DOMAIN_def SPLIT_DOMAIN_def LOOP_DOMAIN_def CALL_DOMAIN_def SYSCALL_DOMAIN_def
      DYNCALL_DEFAULT_DIGEST_def DYN_DEFAULT_DIGEST_def)

lemma concat_chunks_eq:
  assumes "concat xs = concat ys" "\<forall>x \<in> set xs \<union> set ys. length x = n" "0 < n"
  shows "xs = ys"
  using assms(1,2)
proof (induction xs arbitrary: ys)
  case Nil
  then show ?case using assms(3) by (cases ys) auto
next
  case (Cons x xs)
  then show ?case using assms(3) by (cases ys) auto
qed

definition well_shaped :: "mast_forest \<Rightarrow> bool" where
  "well_shaped F \<longleftrightarrow> (\<forall>node \<in> set (mf_nodes F). case node of Block bs _ \<Rightarrow> \<forall>b \<in> set bs. batch_shape b | _ \<Rightarrow> True)"

lemma validated_block:
  assumes "validate_forest F = Inr ()" "well_shaped F" "i < length (mf_nodes F)" "mf_nodes F ! i = Block bs d"
  shows "validate_batch_invariants bs = Inr ()" "\<forall>b \<in> set bs. batch_shape b"
proof -
  have "validate_basic_block_invariants F = Inr ()" using assms(1) by (auto simp: validate_forest_def res_bind_eq_Inr)
  moreover have "(i, Block bs d) \<in> set (enumerate 0 (mf_nodes F))" using assms(3,4) by (simp add: in_set_enumerate_eq)
  ultimately have "res_map_err (InvalidBatchPadding i) (validate_batch_invariants bs) = Inr ()"
    unfolding validate_basic_block_invariants_def check_all_ok by auto
  then show "validate_batch_invariants bs = Inr ()" by (rule res_map_err_Inr)
  have "Block bs d \<in> set (mf_nodes F)" using assms(3,4) by (metis nth_mem)
  then show "\<forall>b \<in> set bs. batch_shape b" using assms(2) unfolding well_shaped_def by fastforce
qed


text \<open>Two forests whose blocks differ in a no-operation, and a hash function without collisions on them.\<close>

definition sample_hash :: hash_lib where
  "sample_hash = \<lparr>hash_elements = (\<lambda>xs. FWord 1 (xs ! 0) (xs ! 1) 0), merge_in_domain = (\<lambda>a b d. FWord 2 (w0 a) (w0 b) d)\<rparr>"

definition sample_forest :: "chunk list \<Rightarrow> mast_forest" where
  "sample_forest cs =
     (let block = batch_of cs; d = hash_elements sample_hash (b_groups block) in
      \<lparr>mf_nodes = [Block [block] d, Loop 0 (merge_in_domain sample_hash d EMPTY_WORD LOOP_DOMAIN)], mf_roots = [1],
       mf_advice_map = [], mf_before_enter = (\<lambda>_. []), mf_after_exit = (\<lambda>_. []), mf_op_decorators = (\<lambda>_ _. []),
       mf_error_codes = (\<lambda>_. None), mf_procedure_names = []\<rparr>)"

lemma sample_forest_ok:
  assumes "chunks_ok cs" "batch_shape (batch_of cs)"
  shows "validate_untrusted sample_hash False (sample_forest cs) = Inr (sample_forest cs)" "well_shaped (sample_forest cs)"
proof -
  have "validate_batch_invariants [batch_of cs] = Inr ()" using batch_validate_ok [of "[cs]"] assms(1) by simp
  then show "validate_untrusted sample_hash False (sample_forest cs) = Inr (sample_forest cs)"
    by (simp add: validate_untrusted_def validate_node_hashes_def compute_node_hashes_def sample_forest_def Let_def
        check_all_def compute_node_hash_def check_no_forward_ref_def validate_forest_def validate_basic_block_invariants_def
        validate_procedure_name_digests_def)
  show "well_shaped (sample_forest cs)" using assms(2) by (simp add: well_shaped_def sample_forest_def Let_def)
qed


end
