(* ===== verification/Sys_Events.thy ===== *)
theory Sys_Events
  imports Fast_Processor Asm_Bits Mast
begin

text \<open>
  The handlers of system events, \<open>processor/src/fast/basic_block/sys_event_handlers.rs\<close>: an \<open>Emit\<close> operation with
  the identifier of a system event on the stack lets the processor itself move data between the operand stack,
  the memory and the advice provider, or compute a hint for the program.  The handlers read the operand stack
  below the identifier and change nothing but the advice provider.  The variants of \<open>SystemEventError\<close> are the
  execution errors they are converted to.
\<close>

section \<open>Handlers\<close>

definition HDWORD_TO_MAP_WITH_DOMAIN_DOMAIN_OFFSET :: nat where
  "HDWORD_TO_MAP_WITH_DOMAIN_DOMAIN_OFFSET = 9"

definition set_advice :: "'m fast_processor \<Rightarrow> advice_error + 'm advice_provider \<Rightarrow> 'm fast_processor res" where
  "set_advice p r = res_map (\<lambda>a. p\<lparr>fp_advice := a\<rparr>) (res_map_err AdviceErr r)"

definition insert_mem_values_into_adv_map :: "'m fast_processor \<Rightarrow> 'm fast_processor res" where
  "insert_mem_values_into_adv_map p =
     res_bind (stack_get p 5) (\<lambda>start_addr. let start_addr = as_canonical_u64 start_addr in
     res_bind (stack_get p 6) (\<lambda>end_addr. let end_addr = as_canonical_u64 end_addr in
     res_bind (ensure (start_addr \<le> 0xFFFFFFFF) (MemoryErr (AddressOutOfBounds start_addr))) (\<lambda>_.
     res_bind (ensure (end_addr \<le> 0xFFFFFFFF) (MemoryErr (AddressOutOfBounds end_addr))) (\<lambda>_.
     res_bind (ensure (start_addr \<le> end_addr) (MemoryErr (InvalidMemoryRange start_addr end_addr))) (\<lambda>_.
     let addr_range = [unat start_addr..<unat end_addr];
         max_value_size = max_adv_map_value_size (fp_options p) in
     res_bind (ensure (length addr_range \<le> max_value_size)
                 (AdviceErr (AdvMapValueSizeExceeded (length addr_range) max_value_size))) (\<lambda>_.
     let values = map (\<lambda>addr. case read_element_impl (fp_memory p) (fp_ctx p) (of_nat addr) of
                                 Some v \<Rightarrow> v | None \<Rightarrow> 0) addr_range in
     res_bind (stack_get_word p 1) (\<lambda>key.
     set_advice p (insert_into_map (fp_advice p) key values))))))))"

definition insert_hdword_into_adv_map :: "hash_lib \<Rightarrow> 'm fast_processor \<Rightarrow> felt \<Rightarrow> 'm fast_processor res" where
  "insert_hdword_into_adv_map H p domain =
     res_bind (stack_get_word p 1) (\<lambda>a.
     res_bind (stack_get_word p 5) (\<lambda>b.
     let key = merge_in_domain H a b domain; values = word_elements a @ word_elements b in
     set_advice p (insert_into_map (fp_advice p) key values)))"

definition insert_hqword_into_adv_map :: "hash_lib \<Rightarrow> 'm fast_processor \<Rightarrow> 'm fast_processor res" where
  "insert_hqword_into_adv_map H p =
     res_bind (stack_get_word p 1) (\<lambda>a.
     res_bind (stack_get_word p 5) (\<lambda>b.
     res_bind (stack_get_word p 9) (\<lambda>c.
     res_bind (stack_get_word_safe p 13) (\<lambda>d.
     let values = word_elements a @ word_elements b @ word_elements c @ word_elements d;
         key = hash_elements H values in
     set_advice p (insert_into_map (fp_advice p) key values)))))"

definition insert_hperm_into_adv_map :: "('m, 'q) crypto_lib \<Rightarrow> 'm fast_processor \<Rightarrow> 'm fast_processor res" where
  "insert_hperm_into_adv_map X p =
     res_bind (res_fold (\<lambda>i xs. res_map (\<lambda>x. xs @ [x]) (stack_get p i)) [1..<13] []) (\<lambda>state.
     res_bind (word_from_slice (take 4 state)) (\<lambda>r0.
     res_bind (word_from_slice (take 4 (drop 4 state))) (\<lambda>r1.
     res_bind (word_from_slice (drop 8 state)) (\<lambda>cap.
     let values = take 8 state;
         (key, _, _) = apply_permutation X (r0, r1, cap) in
     set_advice p (insert_into_map (fp_advice p) key values)))))"

definition merge_merkle_nodes :: "('m, 'q) crypto_lib \<Rightarrow> 'm fast_processor \<Rightarrow> 'm fast_processor res" where
  "merge_merkle_nodes X p =
     res_bind (stack_get_word p 1) (\<lambda>lhs.
     res_bind (stack_get_word p 5) (\<lambda>rhs.
     set_advice p (res_map snd (merge_roots X (fp_advice p) lhs rhs))))"

definition copy_merkle_node_to_adv_stack :: "('m, 'q) crypto_lib \<Rightarrow> 'm fast_processor \<Rightarrow> 'm fast_processor res" where
  "copy_merkle_node_to_adv_stack X p =
     res_bind (stack_get p 1) (\<lambda>depth.
     res_bind (stack_get p 2) (\<lambda>index.
     res_bind (stack_get_word p 3) (\<lambda>root.
     set_advice p (res_bind (get_tree_node X (fp_advice p) root depth index) (push_stack_word (fp_advice p))))))"

definition copy_map_value_to_adv_stack :: "'m fast_processor \<Rightarrow> bool \<Rightarrow> 8 word \<Rightarrow> 'm fast_processor res" where
  "copy_map_value_to_adv_stack p include_len pad_to =
     res_bind (stack_get_word p 1) (\<lambda>key. set_advice p (push_from_map (fp_advice p) key include_len pad_to))"

definition copy_map_value_length_to_adv_stack :: "'m fast_processor \<Rightarrow> 'm fast_processor res" where
  "copy_map_value_length_to_adv_stack p =
     res_bind (stack_get_word p 1) (\<lambda>key.
     set_advice p
       (res_bind (ok_or (get_mapped_values (fp_advice p) key) (MapKeyNotFound key)) (\<lambda>values.
        push_stack (fp_advice p) (felt_from_u64 (of_nat (length values))))))"

definition push_key_presence_flag :: "'m fast_processor \<Rightarrow> 'm fast_processor res" where
  "push_key_presence_flag p =
     res_bind (stack_get_word p 1) (\<lambda>map_key.
     set_advice p (push_stack (fp_advice p) (felt_from_bool (contains_map_key (fp_advice p) map_key))))"

text \<open>The inverse in the extension, where the square of the generator is seven.\<close>

definition quad_inverse :: "quad \<Rightarrow> quad" where
  "quad_inverse a = (let n = q0 a * q0 a - 7 * (q1 a * q1 a) in Quad (q0 a / n) (- q1 a / n))"

definition push_ext2_inv_result :: "'m fast_processor \<Rightarrow> 'm fast_processor res" where
  "push_ext2_inv_result p =
     res_bind (stack_get p 1) (\<lambda>coef0.
     res_bind (stack_get p 2) (\<lambda>coef1.
     let element = Quad coef0 coef1 in
     res_bind (ensure (element \<noteq> 0) (OperationErr DivideByZero)) (\<lambda>_.
     let result = quad_inverse element in
     set_advice p (res_bind (push_stack (fp_advice p) (q0 result)) (\<lambda>a. push_stack a (q1 result))))))"

definition push_transformed_stack_top :: "'m fast_processor \<Rightarrow> (u32 \<Rightarrow> felt) \<Rightarrow> 'm fast_processor res" where
  "push_transformed_stack_top p f =
     res_bind (stack_get p 1) (\<lambda>stack_top.
     res_bind (ensure (as_canonical_u64 stack_top \<le> 0xFFFFFFFF) (OperationErr (NotU32Values [stack_top]))) (\<lambda>_.
     set_advice p (push_stack (fp_advice p) (f (ucast (as_canonical_u64 stack_top))))))"

definition push_leading_zeros :: "'m fast_processor \<Rightarrow> 'm fast_processor res" where
  "push_leading_zeros p = push_transformed_stack_top p (\<lambda>w. felt_from_u32 (of_nat (leading_zeros w)))"

definition push_trailing_zeros :: "'m fast_processor \<Rightarrow> 'm fast_processor res" where
  "push_trailing_zeros p = push_transformed_stack_top p (\<lambda>w. felt_from_u32 (of_nat (trailing_zeros w)))"

definition push_leading_ones :: "'m fast_processor \<Rightarrow> 'm fast_processor res" where
  "push_leading_ones p = push_transformed_stack_top p (\<lambda>w. felt_from_u32 (of_nat (leading_ones w)))"

definition push_trailing_ones :: "'m fast_processor \<Rightarrow> 'm fast_processor res" where
  "push_trailing_ones p = push_transformed_stack_top p (\<lambda>w. felt_from_u32 (of_nat (trailing_ones w)))"

text \<open>\<open>u64::ilog2\<close>.\<close>

definition ilog2_u64 :: "u64 \<Rightarrow> nat" where
  "ilog2_u64 n = bit_length_upto 64 (unat n) - 1"

definition push_ilog2 :: "'m fast_processor \<Rightarrow> 'm fast_processor res" where
  "push_ilog2 p =
     res_bind (stack_get p 1) (\<lambda>n. let n = as_canonical_u64 n in
     res_bind (ensure (n \<noteq> 0) (OperationErr LogArgumentZero)) (\<lambda>_.
     set_advice p (push_stack (fp_advice p) (felt_from_u32 (of_nat (ilog2_u64 n))))))"

definition handle_system_event ::
    "('m, 'q) crypto_lib \<Rightarrow> hash_lib \<Rightarrow> 'm fast_processor \<Rightarrow> system_event \<Rightarrow> 'm fast_processor res" where
  "handle_system_event X H p system_event = (case system_event of
      MerkleNodeMerge \<Rightarrow> merge_merkle_nodes X p
    | MerkleNodeToStack \<Rightarrow> copy_merkle_node_to_adv_stack X p
    | MapValueToStack \<Rightarrow> copy_map_value_to_adv_stack p False 0
    | MapValueCountToStack \<Rightarrow> copy_map_value_length_to_adv_stack p
    | MapValueToStackN0 \<Rightarrow> copy_map_value_to_adv_stack p True 0
    | MapValueToStackN4 \<Rightarrow> copy_map_value_to_adv_stack p True 4
    | MapValueToStackN8 \<Rightarrow> copy_map_value_to_adv_stack p True 8
    | HasMapKey \<Rightarrow> push_key_presence_flag p
    | Ext2Inv \<Rightarrow> push_ext2_inv_result p
    | U32Clz \<Rightarrow> push_leading_zeros p
    | U32Ctz \<Rightarrow> push_trailing_zeros p
    | U32Clo \<Rightarrow> push_leading_ones p
    | U32Cto \<Rightarrow> push_trailing_ones p
    | ILog2 \<Rightarrow> push_ilog2 p
    | MemToMap \<Rightarrow> insert_mem_values_into_adv_map p
    | HdwordToMap \<Rightarrow> insert_hdword_into_adv_map H p 0
    | HdwordToMapWithDomain \<Rightarrow>
        res_bind (stack_get p HDWORD_TO_MAP_WITH_DOMAIN_DOMAIN_OFFSET) (\<lambda>domain. insert_hdword_into_adv_map H p domain)
    | HqwordToMap \<Rightarrow> insert_hqword_into_adv_map H p
    | HpermToMap \<Rightarrow> insert_hperm_into_adv_map X p)"

end
