(* ===== verification/Engine.thy ===== *)
theory Engine
  imports Sys_Events
begin

text \<open>
  The execution engine: the main loop over a stack of continuations (\<open>processor/src/execution\<close>,
  \<open>processor/src/continuation_stack.rs\<close>) and the outer loop of \<open>FastProcessor\<close> that serves events and loads
  forests (\<open>processor/src/fast/execution_api.rs\<close>, \<open>fast/step.rs\<close>, \<open>fast/basic_block/mod.rs\<close>).  A function of the
  source that returns \<open>ControlFlow\<close> returns \<open>flow\<close>, with the state it leaves; the engine, generic in the source, is
  instantiated at \<open>FastProcessor\<close>.  Tracers, which only record, and the source locations in errors are left out.
  A loop that need not end is a partial function: \<open>None\<close> is a run that does not return.
\<close>

section \<open>Continuations\<close>

datatype continuation =
    StartNode node_id
  | FinishJoin node_id
  | FinishSplit node_id
  | FinishLoop node_id bool
  | FinishCall node_id
  | FinishDyn node_id
  | FinishExternal node_id
  | ResumeBasicBlock node_id nat nat
  | Respan node_id nat
  | FinishBasicBlock node_id
  | EnterForest mast_forest
  | AfterExitDecorators node_id
  | AfterExitDecoratorsBasicBlock node_id

primrec increments_clk :: "continuation \<Rightarrow> bool" where
  "increments_clk (StartNode _) = True"
| "increments_clk (FinishJoin _) = True"
| "increments_clk (FinishSplit _) = True"
| "increments_clk (FinishLoop _ _) = True"
| "increments_clk (FinishCall _) = True"
| "increments_clk (FinishDyn _) = True"
| "increments_clk (ResumeBasicBlock _ _ _) = True"
| "increments_clk (Respan _ _) = True"
| "increments_clk (FinishBasicBlock _) = True"
| "increments_clk (FinishExternal _) = False"
| "increments_clk (EnterForest _) = False"
| "increments_clk (AfterExitDecorators _) = False"
| "increments_clk (AfterExitDecoratorsBasicBlock _) = False"

fun iter_continuations_for_next_clock :: "continuation list \<Rightarrow> continuation list" where
  "iter_continuations_for_next_clock [] = []"
| "iter_continuations_for_next_clock (c # cs) =
     (if increments_clk c then [c] else c # iter_continuations_for_next_clock cs)"

definition continuation_stack_new :: "mast_program \<Rightarrow> continuation list" where
  "continuation_stack_new program = [StartNode (mp_entrypoint program)]"

section \<open>Flow of control\<close>

datatype ('b, 's) flow = Break 'b 's | Continue 's

primrec flow_bind :: "('b, 's) flow \<Rightarrow> ('s \<Rightarrow> ('b, 's) flow) \<Rightarrow> ('b, 's) flow" where
  "flow_bind (Break b s) f = Break b s"
| "flow_bind (Continue s) f = f s"

primrec map_break :: "('b \<Rightarrow> 'c) \<Rightarrow> ('b, 's) flow \<Rightarrow> ('c, 's) flow" where
  "map_break f (Break b s) = Break (f b) s"
| "map_break f (Continue s) = Continue s"

datatype break_reason = BreakErr execution_error | Stopped "continuation option"

datatype internal_break_reason =
    User break_reason
  | EmitBreak node_id nat continuation
  | LoadMastForestFromDyn node_id fword
  | LoadMastForestFromExternal node_id fword

definition try_res :: "'s \<Rightarrow> 'a res \<Rightarrow> ('a \<Rightarrow> (break_reason, 's) flow) \<Rightarrow> (break_reason, 's) flow" where
  "try_res s r f = (case r of Inl e \<Rightarrow> Break (BreakErr e) s | Inr x \<Rightarrow> f x)"

section \<open>State and environment\<close>

text \<open>The host is outside the repository: what it does on an event, where it finds forests and what it does with
  decorators are parameters; \<open>'h\<close> is its state.\<close>

record ('m, 'h) sync_host =
  on_event :: "'m fast_processor \<Rightarrow> 'h \<Rightarrow> (string + advice_mutation list) \<times> 'h"
  get_mast_forest :: "'h \<Rightarrow> fword \<Rightarrow> mast_forest option"
  on_debug :: "'m fast_processor \<Rightarrow> debug_options \<Rightarrow> 'h \<Rightarrow> (string + unit) \<times> 'h"
  on_trace :: "'m fast_processor \<Rightarrow> u32 \<Rightarrow> 'h \<Rightarrow> (string + unit) \<times> 'h"

type_synonym 'm stopper =
  "'m fast_processor \<Rightarrow> continuation list \<Rightarrow> continuation option \<Rightarrow> break_reason option"

record ('m, 'q, 'h) exec_env =
  ee_lib :: "('m, 'q) crypto_lib"
  ee_hash :: hash_lib
  ee_host :: "('m, 'h) sync_host"
  ee_kernel :: "fword list"
  ee_stopper :: "'m stopper"

record ('m, 'h) exec_state =
  es_processor :: "'m fast_processor"
  es_stack :: "continuation list"
  es_host :: 'h
  es_forest :: mast_forest

abbreviation proc :: "('m, 'q, 'h) exec_env \<Rightarrow> ('m fast_processor, 'q) processor" where
  "proc E \<equiv> fast_processor_impl (ee_lib E)"

abbreviation push_conts :: "continuation list \<Rightarrow> ('m, 'h) exec_state \<Rightarrow> ('m, 'h) exec_state" where
  "push_conts cs s \<equiv> s\<lparr>es_stack := cs @ es_stack s\<rparr>"

section \<open>Stopping\<close>

definition check_if_max_cycles_exceeded :: "'m fast_processor \<Rightarrow> break_reason option" where
  "check_if_max_cycles_exceeded p =
     (if fp_clk p > max_cycles (fp_options p) then Some (BreakErr (CycleLimitExceeded (max_cycles (fp_options p)))) else None)"

definition check_if_continuation_stack_too_large :: "'m fast_processor \<Rightarrow> continuation list \<Rightarrow> break_reason option" where
  "check_if_continuation_stack_too_large p K =
     (if length K > max_num_continuations (fp_options p)
      then Some (BreakErr (Internal ''continuation stack size exceeded the allowed maximum'')) else None)"

definition never_stopper :: "'m stopper" where
  "never_stopper p K c = (case check_if_max_cycles_exceeded p of
      Some b \<Rightarrow> Some b
    | None \<Rightarrow> check_if_continuation_stack_too_large p K)"

definition step_stopper :: "'m stopper" where
  "step_stopper p K c = (case check_if_max_cycles_exceeded p of
      Some b \<Rightarrow> Some b
    | None \<Rightarrow> (case check_if_continuation_stack_too_large p K of
        Some b \<Rightarrow> Some b
      | None \<Rightarrow> Some (Stopped c)))"

definition finalize_clock_cycle_with_continuation ::
    "('m, 'q, 'h) exec_env \<Rightarrow> continuation option \<Rightarrow> ('m, 'h) exec_state \<Rightarrow> (break_reason, ('m, 'h) exec_state) flow" where
  "finalize_clock_cycle_with_continuation E continuation_after_stop s =
     (let s = s\<lparr>es_processor := increment_clock (proc E) (es_processor s)\<rparr> in
      case ee_stopper E (es_processor s) (es_stack s) continuation_after_stop of
        Some b \<Rightarrow> Break b s
      | None \<Rightarrow> Continue s)"

definition finalize_clock_cycle ::
    "('m, 'q, 'h) exec_env \<Rightarrow> ('m, 'h) exec_state \<Rightarrow> (break_reason, ('m, 'h) exec_state) flow" where
  "finalize_clock_cycle E s = finalize_clock_cycle_with_continuation E None s"

definition get_next_ctx_id :: "('m, 'q, 'h) exec_env \<Rightarrow> 'm fast_processor \<Rightarrow> ctx_id" where
  "get_next_ctx_id E p = clock (proc E) p + 1"

section \<open>Decorators\<close>

definition should_execute_decorators :: "'m fast_processor \<Rightarrow> bool" where
  "should_execute_decorators p = (enable_debugging (fp_options p) \<or> enable_tracing (fp_options p))"

definition execute_decorator ::
    "('m, 'q, 'h) exec_env \<Rightarrow> decorator \<Rightarrow> ('m, 'h) exec_state \<Rightarrow> (break_reason, ('m, 'h) exec_state) flow" where
  "execute_decorator E decorator s = (case decorator of
      Debug options \<Rightarrow>
        if enable_debugging (fp_options (es_processor s))
        then (case on_debug (ee_host E) (es_processor s) options (es_host s) of
            (Inl err, h) \<Rightarrow> Break (BreakErr (HostErr err)) (s\<lparr>es_host := h\<rparr>)
          | (Inr _, h) \<Rightarrow> Continue (s\<lparr>es_host := h\<rparr>))
        else Continue s
    | Trace trace_id \<Rightarrow>
        if enable_tracing (fp_options (es_processor s))
        then (case on_trace (ee_host E) (es_processor s) trace_id (es_host s) of
            (Inl err, h) \<Rightarrow> Break (BreakErr (HostErr err)) (s\<lparr>es_host := h\<rparr>)
          | (Inr _, h) \<Rightarrow> Continue (s\<lparr>es_host := h\<rparr>))
        else Continue s)"

primrec execute_decorators ::
    "('m, 'q, 'h) exec_env \<Rightarrow> decorator list \<Rightarrow> ('m, 'h) exec_state \<Rightarrow> (break_reason, ('m, 'h) exec_state) flow" where
  "execute_decorators E [] s = Continue s"
| "execute_decorators E (d # ds) s = flow_bind (execute_decorator E d s) (execute_decorators E ds)"

definition execute_before_enter_decorators ::
    "('m, 'q, 'h) exec_env \<Rightarrow> node_id \<Rightarrow> ('m, 'h) exec_state \<Rightarrow> (break_reason, ('m, 'h) exec_state) flow" where
  "execute_before_enter_decorators E i s =
     (if \<not> should_execute_decorators (es_processor s) then Continue s
      else try_res s (ok_or (get_node_by_id (es_forest s) i) (Panic ''node id not found in current forest'')) (\<lambda>_.
           execute_decorators E (mf_before_enter (es_forest s) i) s))"

definition execute_after_exit_decorators ::
    "('m, 'q, 'h) exec_env \<Rightarrow> node_id \<Rightarrow> ('m, 'h) exec_state \<Rightarrow> (break_reason, ('m, 'h) exec_state) flow" where
  "execute_after_exit_decorators E i s =
     (if \<not> enable_debugging (fp_options (es_processor s)) then Continue s
      else try_res s (ok_or (get_node_by_id (es_forest s) i) (Panic ''node id not found in current forest'')) (\<lambda>_.
           execute_decorators E (mf_after_exit (es_forest s) i) s))"

definition execute_decorators_for_op ::
    "('m, 'q, 'h) exec_env \<Rightarrow> node_id \<Rightarrow> nat \<Rightarrow> ('m, 'h) exec_state \<Rightarrow> (break_reason, ('m, 'h) exec_state) flow" where
  "execute_decorators_for_op E i op_idx s =
     (if should_execute_decorators (es_processor s)
      then execute_decorators E (mf_op_decorators (es_forest s) i op_idx) s else Continue s)"

definition num_operations :: "op_batch list \<Rightarrow> nat res" where
  "num_operations batches =
     (let num_ops = sum_list (map (\<lambda>b. length (b_ops b)) batches) in
      if num_ops < 2 ^ 32 then Inr num_ops else Inl (Panic ''basic block contains more than 2^32 operations''))"

definition execute_end_of_block_decorators ::
    "('m, 'q, 'h) exec_env \<Rightarrow> op_batch list \<Rightarrow> node_id \<Rightarrow> ('m, 'h) exec_state \<Rightarrow>
     (break_reason, ('m, 'h) exec_state) flow" where
  "execute_end_of_block_decorators E batches i s =
     (if should_execute_decorators (es_processor s)
      then try_res s (num_operations batches) (\<lambda>num_ops.
           execute_decorators E (mf_op_decorators (es_forest s) i num_ops) s)
      else Continue s)"

section \<open>Basic blocks\<close>

definition get_continuation_after_executing_operation ::
    "op_batch list \<Rightarrow> node_id \<Rightarrow> nat \<Rightarrow> nat \<Rightarrow> continuation" where
  "get_continuation_after_executing_operation batches i batch_index op_idx_in_batch =
     (let last_op_idx_in_batch = length (b_ops (batches ! batch_index)) - 1;
          last_batch_idx_in_block = length batches - 1 in
      if op_idx_in_batch < last_op_idx_in_batch then ResumeBasicBlock i batch_index (op_idx_in_batch + 1)
      else if batch_index < last_batch_idx_in_block then Respan i (batch_index + 1)
      else FinishBasicBlock i)"

text \<open>The loop of \<open>execute_op_batch\<close> over the remaining operations of a batch, the next one at index \<open>k\<close>.\<close>

primrec execute_ops ::
    "('m, 'q, 'h) exec_env \<Rightarrow> op_batch list \<Rightarrow> node_id \<Rightarrow> nat \<Rightarrow> nat \<Rightarrow> operation list \<Rightarrow> nat \<Rightarrow>
     ('m, 'h) exec_state \<Rightarrow> (internal_break_reason, ('m, 'h) exec_state) flow" where
  "execute_ops E batches i batch_index offset [] k s = Continue s"
| "execute_ops E batches i batch_index offset (op # ops) k s =
     flow_bind (map_break User (execute_decorators_for_op E i (offset + k) s)) (\<lambda>s.
     let next = get_continuation_after_executing_operation batches i batch_index k in
     if op = Emit then Break (EmitBreak i (offset + k) next) s
     else flow_bind (map_break User
            (try_res s (execute_op (ee_lib E) (proc E) (resolve_error_message (es_forest s)) op (es_processor s)) (\<lambda>p.
             finalize_clock_cycle_with_continuation E (Some next) (s\<lparr>es_processor := p\<rparr>))))
          (execute_ops E batches i batch_index offset ops (k + 1)))"

definition execute_op_batch ::
    "('m, 'q, 'h) exec_env \<Rightarrow> op_batch list \<Rightarrow> node_id \<Rightarrow> nat \<Rightarrow> nat \<Rightarrow> nat \<Rightarrow> ('m, 'h) exec_state \<Rightarrow>
     (internal_break_reason, ('m, 'h) exec_state) flow" where
  "execute_op_batch E batches i batch_index start_op_idx offset s =
     (if batch_index < length batches
      then execute_ops E batches i batch_index offset (drop start_op_idx (b_ops (batches ! batch_index))) start_op_idx s
      else Break (User (BreakErr (Panic ''index out of bounds''))) s)"

definition batch_offset :: "op_batch list \<Rightarrow> nat \<Rightarrow> nat" where
  "batch_offset batches batch_index = sum_list (map (\<lambda>b. length (b_ops b)) (take batch_index batches))"

definition finish_basic_block ::
    "('m, 'q, 'h) exec_env \<Rightarrow> op_batch list \<Rightarrow> node_id \<Rightarrow> ('m, 'h) exec_state \<Rightarrow>
     (break_reason, ('m, 'h) exec_state) flow" where
  "finish_basic_block E batches i s =
     flow_bind (finalize_clock_cycle_with_continuation E (Some (AfterExitDecoratorsBasicBlock i)) s) (\<lambda>s.
     flow_bind (execute_end_of_block_decorators E batches i s) (execute_after_exit_decorators E i))"

text \<open>The loop of \<open>execute_basic_block_node_from_batch\<close> over the indices of the remaining batches.\<close>

primrec execute_batches ::
    "('m, 'q, 'h) exec_env \<Rightarrow> op_batch list \<Rightarrow> node_id \<Rightarrow> nat list \<Rightarrow> nat \<Rightarrow> ('m, 'h) exec_state \<Rightarrow>
     (internal_break_reason, ('m, 'h) exec_state) flow" where
  "execute_batches E batches i [] offset s = Continue s"
| "execute_batches E batches i (batch_index # rest) offset s =
     flow_bind (map_break User (finalize_clock_cycle_with_continuation E (Some (ResumeBasicBlock i batch_index 0)) s)) (\<lambda>s.
     flow_bind (execute_op_batch E batches i batch_index 0 offset s)
       (execute_batches E batches i rest (offset + length (b_ops (batches ! batch_index)))))"

definition execute_basic_block_node_from_batch ::
    "('m, 'q, 'h) exec_env \<Rightarrow> op_batch list \<Rightarrow> node_id \<Rightarrow> nat \<Rightarrow> ('m, 'h) exec_state \<Rightarrow>
     (internal_break_reason, ('m, 'h) exec_state) flow" where
  "execute_basic_block_node_from_batch E batches i start_batch_index s =
     flow_bind (execute_batches E batches i [start_batch_index..<length batches] (batch_offset batches start_batch_index) s)
       (\<lambda>s. map_break User (finish_basic_block E batches i s))"

definition execute_basic_block_node_from_start ::
    "('m, 'q, 'h) exec_env \<Rightarrow> op_batch list \<Rightarrow> node_id \<Rightarrow> ('m, 'h) exec_state \<Rightarrow>
     (internal_break_reason, ('m, 'h) exec_state) flow" where
  "execute_basic_block_node_from_start E batches i s =
     flow_bind (map_break User (execute_before_enter_decorators E i s)) (\<lambda>s.
     flow_bind (map_break User (finalize_clock_cycle_with_continuation E (Some (ResumeBasicBlock i 0 0)) s)) (\<lambda>s.
     flow_bind (if batches \<noteq> [] then execute_op_batch E batches i 0 0 0 s else Continue s)
       (execute_basic_block_node_from_batch E batches i 1)))"

definition execute_basic_block_node_from_op_idx ::
    "('m, 'q, 'h) exec_env \<Rightarrow> op_batch list \<Rightarrow> node_id \<Rightarrow> nat \<Rightarrow> nat \<Rightarrow> ('m, 'h) exec_state \<Rightarrow>
     (internal_break_reason, ('m, 'h) exec_state) flow" where
  "execute_basic_block_node_from_op_idx E batches i start_batch_index start_op_idx s =
     flow_bind (execute_op_batch E batches i start_batch_index start_op_idx (batch_offset batches start_batch_index) s)
       (execute_basic_block_node_from_batch E batches i (start_batch_index + 1))"

section \<open>Control flow nodes\<close>

text \<open>The end of a control flow node: the clock cycle of the \<open>END\<close> operation and the decorators after it.\<close>

definition finish_node ::
    "('m, 'q, 'h) exec_env \<Rightarrow> node_id \<Rightarrow> ('m, 'h) exec_state \<Rightarrow> (break_reason, ('m, 'h) exec_state) flow" where
  "finish_node E i s =
     flow_bind (finalize_clock_cycle_with_continuation E (Some (AfterExitDecorators i)) s) (execute_after_exit_decorators E i)"

definition start_join_node ::
    "('m, 'q, 'h) exec_env \<Rightarrow> node_id \<Rightarrow> node_id \<Rightarrow> node_id \<Rightarrow> ('m, 'h) exec_state \<Rightarrow>
     (break_reason, ('m, 'h) exec_state) flow" where
  "start_join_node E first second i s =
     flow_bind (execute_before_enter_decorators E i s) (\<lambda>s.
     finalize_clock_cycle E (push_conts [StartNode first, StartNode second, FinishJoin i] s))"

definition finish_join_node ::
    "('m, 'q, 'h) exec_env \<Rightarrow> node_id \<Rightarrow> ('m, 'h) exec_state \<Rightarrow> (break_reason, ('m, 'h) exec_state) flow" where
  "finish_join_node E i s = finish_node E i s"

definition start_split_node ::
    "('m, 'q, 'h) exec_env \<Rightarrow> node_id \<Rightarrow> node_id \<Rightarrow> node_id \<Rightarrow> ('m, 'h) exec_state \<Rightarrow>
     (break_reason, ('m, 'h) exec_state) flow" where
  "start_split_node E on_true on_false i s =
     flow_bind (execute_before_enter_decorators E i s) (\<lambda>s.
     try_res s (get (proc E) (es_processor s) 0) (\<lambda>condition.
     try_res s (decrement_size (proc E) (es_processor s)) (\<lambda>p.
     let s = s\<lparr>es_processor := p\<rparr> in
     if condition = 1 then finalize_clock_cycle E (push_conts [StartNode on_true, FinishSplit i] s)
     else if condition = 0 then finalize_clock_cycle E (push_conts [StartNode on_false, FinishSplit i] s)
     else Break (BreakErr (OperationErr (NotBinaryValueIf condition))) s)))"

definition finish_split_node ::
    "('m, 'q, 'h) exec_env \<Rightarrow> node_id \<Rightarrow> ('m, 'h) exec_state \<Rightarrow> (break_reason, ('m, 'h) exec_state) flow" where
  "finish_split_node E i s = finish_node E i s"

definition unwrap_loop :: "mast_node \<Rightarrow> node_id res" where
  "unwrap_loop node = (case node of Loop body _ \<Rightarrow> Inr body | _ \<Rightarrow> Inl (Panic ''tried to unwrap loop node''))"

definition finish_loop_node ::
    "('m, 'q, 'h) exec_env \<Rightarrow> bool \<Rightarrow> node_id \<Rightarrow> ('m, 'h) exec_state \<Rightarrow> (break_reason, ('m, 'h) exec_state) flow" where
  "finish_loop_node E loop_was_entered i s =
     try_res s (if loop_was_entered then get (proc E) (es_processor s) 0 else Inr 0) (\<lambda>condition.
     try_res s (res_bind (node_at (es_forest s) i) unwrap_loop) (\<lambda>body.
     if condition = 1 then
       try_res s (decrement_size (proc E) (es_processor s)) (\<lambda>p.
       finalize_clock_cycle E (push_conts [StartNode body, FinishLoop i True] (s\<lparr>es_processor := p\<rparr>)))
     else if condition = 0 then
       try_res s (if loop_was_entered then decrement_size (proc E) (es_processor s) else Inr (es_processor s)) (\<lambda>p.
       finish_node E i (s\<lparr>es_processor := p\<rparr>))
     else Break (BreakErr (OperationErr (NotBinaryValueLoop condition))) s))"

definition start_loop_node ::
    "('m, 'q, 'h) exec_env \<Rightarrow> node_id \<Rightarrow> node_id \<Rightarrow> ('m, 'h) exec_state \<Rightarrow> (break_reason, ('m, 'h) exec_state) flow" where
  "start_loop_node E body i s =
     flow_bind (execute_before_enter_decorators E i s) (\<lambda>s.
     try_res s (get (proc E) (es_processor s) 0) (\<lambda>condition.
     try_res s (decrement_size (proc E) (es_processor s)) (\<lambda>p.
     let s = s\<lparr>es_processor := p\<rparr> in
     if condition = 1 then finalize_clock_cycle E (push_conts [StartNode body, FinishLoop i True] s)
     else if condition = 0 then
       flow_bind (finalize_clock_cycle_with_continuation E (Some (FinishLoop i False)) s) (finish_loop_node E False i)
     else Break (BreakErr (OperationErr (NotBinaryValueLoop condition))) s)))"

definition FMP_ADDR :: felt where
  "FMP_ADDR = 4294967294"

definition FMP_INIT_VALUE :: felt where
  "FMP_INIT_VALUE = 2147483648"

definition start_call_node ::
    "('m, 'q, 'h) exec_env \<Rightarrow> node_id \<Rightarrow> bool \<Rightarrow> node_id \<Rightarrow> ('m, 'h) exec_state \<Rightarrow>
     (break_reason, ('m, 'h) exec_state) flow" where
  "start_call_node E callee is_syscall i s =
     flow_bind (execute_before_enter_decorators E i s) (\<lambda>s.
     try_res s (save_context_and_truncate_stack (proc E) (es_processor s)) (\<lambda>p.
     let s = s\<lparr>es_processor := p\<rparr> in
     try_res s (res_map digest (node_at (es_forest s) callee)) (\<lambda>callee_hash.
     flow_bind
       (if is_syscall then
          (if \<not> contains_proc (ee_kernel E) callee_hash
           then Break (BreakErr (OperationErr (SyscallTargetNotInKernel callee_hash))) s
           else Continue (s\<lparr>es_processor := set_ctx (proc E) p 0\<rparr>))
        else
          let new_ctx = get_next_ctx_id E p;
              p = set_caller_hash (proc E) (set_ctx (proc E) p new_ctx) callee_hash in
          try_res s (res_map_err MemoryErr (write_element (proc E) p new_ctx FMP_ADDR FMP_INIT_VALUE)) (\<lambda>p.
          Continue (s\<lparr>es_processor := p\<rparr>))) (\<lambda>s.
     finalize_clock_cycle E (push_conts [StartNode callee, FinishCall i] s)))))"

definition finish_call_node ::
    "('m, 'q, 'h) exec_env \<Rightarrow> node_id \<Rightarrow> ('m, 'h) exec_state \<Rightarrow> (break_reason, ('m, 'h) exec_state) flow" where
  "finish_call_node E i s =
     try_res s (restore_context (proc E) (es_processor s)) (\<lambda>p. finish_node E i (s\<lparr>es_processor := p\<rparr>))"

definition unwrap_dyn :: "mast_node \<Rightarrow> bool res" where
  "unwrap_dyn node = (case node of Dyn dyncall _ \<Rightarrow> Inr dyncall | _ \<Rightarrow> Inl (Panic ''tried to unwrap dyn node''))"

text \<open>The part of \<open>start_dyn_node\<close> up to the lookup of the callee, which returns the callee's hash.\<close>

definition enter_dyn ::
    "('m, 'q, 'h) exec_env \<Rightarrow> bool \<Rightarrow> 'm fast_processor \<Rightarrow> (fword \<times> 'm fast_processor) res" where
  "enter_dyn E is_dyncall p =
     res_bind (get (proc E) p 0) (\<lambda>mem_addr.
     res_bind (res_map_err MemoryErr (read_word (proc E) p (ctx (proc E) p) mem_addr (clock (proc E) p))) (\<lambda>(callee_hash, p).
     res_bind (decrement_size (proc E) p) (\<lambda>p.
     if is_dyncall then
       let new_ctx = get_next_ctx_id E p in
       res_bind (save_context_and_truncate_stack (proc E) p) (\<lambda>p.
       let p = set_caller_hash (proc E) (set_ctx (proc E) p new_ctx) callee_hash in
       res_bind (res_map_err MemoryErr (write_element (proc E) p new_ctx FMP_ADDR FMP_INIT_VALUE)) (\<lambda>p.
       Inr (callee_hash, p)))
     else Inr (callee_hash, p))))"

definition start_dyn_node ::
    "('m, 'q, 'h) exec_env \<Rightarrow> node_id \<Rightarrow> ('m, 'h) exec_state \<Rightarrow>
     (internal_break_reason, ('m, 'h) exec_state) flow" where
  "start_dyn_node E i s =
     flow_bind (map_break User (execute_before_enter_decorators E i s)) (\<lambda>s.
     case res_bind (res_bind (node_at (es_forest s) i) unwrap_dyn) (\<lambda>dyncall. enter_dyn E dyncall (es_processor s)) of
       Inl e \<Rightarrow> Break (User (BreakErr e)) s
     | Inr (callee_hash, p) \<Rightarrow>
         let s = push_conts [FinishDyn i] (s\<lparr>es_processor := p\<rparr>) in
         (case find_procedure_root (es_forest s) callee_hash of
            Inl e \<Rightarrow> Break (User (BreakErr e)) s
          | Inr (Some callee_id) \<Rightarrow> map_break User (finalize_clock_cycle E (push_conts [StartNode callee_id] s))
          | Inr None \<Rightarrow> Break (LoadMastForestFromDyn i callee_hash) s))"

definition finish_dyn_node ::
    "('m, 'q, 'h) exec_env \<Rightarrow> node_id \<Rightarrow> ('m, 'h) exec_state \<Rightarrow> (break_reason, ('m, 'h) exec_state) flow" where
  "finish_dyn_node E i s =
     try_res s (res_bind (node_at (es_forest s) i) unwrap_dyn) (\<lambda>dyncall.
     try_res s (if dyncall then restore_context (proc E) (es_processor s) else Inr (es_processor s)) (\<lambda>p.
     finish_node E i (s\<lparr>es_processor := p\<rparr>)))"

definition unwrap_external :: "mast_node \<Rightarrow> fword res" where
  "unwrap_external node = (case node of External d \<Rightarrow> Inr d | _ \<Rightarrow> Inl (Panic ''tried to unwrap external node''))"

definition execute_external_node ::
    "('m, 'q, 'h) exec_env \<Rightarrow> node_id \<Rightarrow> ('m, 'h) exec_state \<Rightarrow>
     (internal_break_reason, ('m, 'h) exec_state) flow" where
  "execute_external_node E i s =
     flow_bind (map_break User (execute_before_enter_decorators E i s)) (\<lambda>s.
     case res_bind (node_at (es_forest s) i) unwrap_external of
       Inl e \<Rightarrow> Break (User (BreakErr e)) s
     | Inr procedure_hash \<Rightarrow> Break (LoadMastForestFromExternal i procedure_hash) s)"

section \<open>The main loop\<close>

definition unwrap_basic_block :: "mast_forest \<Rightarrow> node_id \<Rightarrow> op_batch list res" where
  "unwrap_basic_block F i =
     res_bind (ok_or (get_node_by_id F i) (Panic ''called unwrap on a None value'')) (\<lambda>node.
     case node of Block batches _ \<Rightarrow> Inr batches | _ \<Rightarrow> Inl (Panic ''tried to unwrap basic block node''))"

definition start_node ::
    "('m, 'q, 'h) exec_env \<Rightarrow> node_id \<Rightarrow> ('m, 'h) exec_state \<Rightarrow>
     (internal_break_reason, ('m, 'h) exec_state) flow" where
  "start_node E i s = (case get_node_by_id (es_forest s) i of
      None \<Rightarrow> Break (User (BreakErr (Panic ''called unwrap on a None value''))) s
    | Some (Block batches _) \<Rightarrow> execute_basic_block_node_from_start E batches i s
    | Some (Join first second _) \<Rightarrow> map_break User (start_join_node E first second i s)
    | Some (Split on_true on_false _) \<Rightarrow> map_break User (start_split_node E on_true on_false i s)
    | Some (Loop body _) \<Rightarrow> map_break User (start_loop_node E body i s)
    | Some (Call callee is_syscall _) \<Rightarrow> map_break User (start_call_node E callee is_syscall i s)
    | Some (Dyn _ _) \<Rightarrow> start_dyn_node E i s
    | Some (External _) \<Rightarrow> execute_external_node E i s)"

text \<open>One iteration of the loop, for the continuation that has been popped.\<close>

definition execute_continuation ::
    "('m, 'q, 'h) exec_env \<Rightarrow> continuation \<Rightarrow> ('m, 'h) exec_state \<Rightarrow>
     (internal_break_reason, ('m, 'h) exec_state) flow" where
  "execute_continuation E c s = (case c of
      StartNode i \<Rightarrow> start_node E i s
    | FinishJoin i \<Rightarrow> map_break User (finish_join_node E i s)
    | FinishSplit i \<Rightarrow> map_break User (finish_split_node E i s)
    | FinishLoop i was_entered \<Rightarrow> map_break User (finish_loop_node E was_entered i s)
    | FinishCall i \<Rightarrow> map_break User (finish_call_node E i s)
    | FinishDyn i \<Rightarrow> map_break User (finish_dyn_node E i s)
    | FinishExternal i \<Rightarrow> map_break User (execute_after_exit_decorators E i s)
    | ResumeBasicBlock i batch_index op_idx_in_batch \<Rightarrow>
        (case unwrap_basic_block (es_forest s) i of
           Inl e \<Rightarrow> Break (User (BreakErr e)) s
         | Inr batches \<Rightarrow> execute_basic_block_node_from_op_idx E batches i batch_index op_idx_in_batch s)
    | Respan i batch_index \<Rightarrow>
        (case unwrap_basic_block (es_forest s) i of
           Inl e \<Rightarrow> Break (User (BreakErr e)) s
         | Inr batches \<Rightarrow> execute_basic_block_node_from_batch E batches i batch_index s)
    | FinishBasicBlock i \<Rightarrow>
        (case unwrap_basic_block (es_forest s) i of
           Inl e \<Rightarrow> Break (User (BreakErr e)) s
         | Inr batches \<Rightarrow> map_break User (finish_basic_block E batches i s))
    | EnterForest previous_forest \<Rightarrow> Continue (s\<lparr>es_forest := previous_forest\<rparr>)
    | AfterExitDecorators i \<Rightarrow> map_break User (execute_after_exit_decorators E i s)
    | AfterExitDecoratorsBasicBlock i \<Rightarrow>
        (case unwrap_basic_block (es_forest s) i of
           Inl e \<Rightarrow> Break (User (BreakErr e)) s
         | Inr batches \<Rightarrow> map_break User
             (flow_bind (execute_end_of_block_decorators E batches i s) (execute_after_exit_decorators E i))))"

partial_function (option) execute_impl ::
    "('m, 'q, 'h) exec_env \<Rightarrow> ('m, 'h) exec_state \<Rightarrow> (internal_break_reason, ('m, 'h) exec_state) flow option" where
  "execute_impl E s = (case es_stack s of
      [] \<Rightarrow> Some (Continue s)
    | c # K \<Rightarrow> (case execute_continuation E c (s\<lparr>es_stack := K\<rparr>) of
        Break b s \<Rightarrow> Some (Break b s)
      | Continue s \<Rightarrow> execute_impl E s))"

end
