(* ===== verification/Engine_Api.thy ===== *)
theory Engine_Api
  imports Engine
begin

text \<open>
  The outer loop of \<open>FastProcessor\<close> (\<open>processor/src/fast/execution_api.rs\<close>): it runs the main loop until the main
  loop needs something from outside, an event served or a forest loaded, provides it and goes on.  On top of it
  are the execution of a whole program and the execution in single clock cycles.  The asynchronous variants of
  the functions differ only in awaiting the host.
\<close>

section \<open>Serving the main loop\<close>

definition apply_host_event_mutations ::
    "('m, 'q, 'h) exec_env \<Rightarrow> u64 \<Rightarrow> string + advice_mutation list \<Rightarrow> ('m, 'h) exec_state \<Rightarrow>
     (break_reason, ('m, 'h) exec_state) flow" where
  "apply_host_event_mutations E ev mutations s =
     try_res s (res_map_err (EventErr ev) mutations) (\<lambda>mutations.
     try_res s (res_map_err AdviceErr (apply_mutations (ee_lib E) (fp_advice (es_processor s)) mutations)) (\<lambda>a.
     Continue (s\<lparr>es_processor := (es_processor s)\<lparr>fp_advice := a\<rparr>\<rparr>)))"

definition op_emit_sync ::
    "('m, 'q, 'h) exec_env \<Rightarrow> ('m, 'h) exec_state \<Rightarrow> (break_reason, ('m, 'h) exec_state) flow" where
  "op_emit_sync E s =
     try_res s (stack_get (es_processor s) 0) (\<lambda>x.
     let ev = event_id_from_felt x in
     case from_event_id ev of
       Some system_event \<Rightarrow>
         try_res s (handle_system_event (ee_lib E) (ee_hash E) (es_processor s) system_event) (\<lambda>p.
         Continue (s\<lparr>es_processor := p\<rparr>))
     | None \<Rightarrow>
         (case on_event (ee_host E) (es_processor s) (es_host s) of
            (mutations, h) \<Rightarrow> apply_host_event_mutations E ev mutations (s\<lparr>es_host := h\<rparr>)))"

definition finish_emit_op_execution ::
    "('m, 'q, 'h) exec_env \<Rightarrow> continuation \<Rightarrow> ('m, 'h) exec_state \<Rightarrow> (break_reason, ('m, 'h) exec_state) flow" where
  "finish_emit_op_execution E post_emit_continuation s =
     flow_bind (finalize_clock_cycle_with_continuation E (Some post_emit_continuation) s) (\<lambda>s.
     Continue (push_conts [post_emit_continuation] s))"

definition load_mast_forest_sync ::
    "('m, 'q, 'h) exec_env \<Rightarrow> fword \<Rightarrow> ('m, 'h) exec_state \<Rightarrow> (node_id \<times> mast_forest \<times> 'm advice_provider) res" where
  "load_mast_forest_sync E d s =
     res_bind (ok_or (get_mast_forest (ee_host E) (es_host s) d) (ProcedureNotFound d)) (\<lambda>F.
     res_bind (find_procedure_root F d) (\<lambda>root.
     res_bind (ok_or root (OperationErr (MalformedMastForestInHost d))) (\<lambda>root_id.
     res_bind (res_map_err AdviceErr (extend_map (fp_advice (es_processor s)) (mf_advice_map F))) (\<lambda>a.
     Inr (root_id, F, a)))))"

definition finish_load_mast_forest_from_dyn_start ::
    "('m, 'q, 'h) exec_env \<Rightarrow> node_id \<Rightarrow> mast_forest \<Rightarrow> ('m, 'h) exec_state \<Rightarrow>
     (break_reason, ('m, 'h) exec_state) flow" where
  "finish_load_mast_forest_from_dyn_start E root_id new_forest s =
     finalize_clock_cycle E
       (push_conts [StartNode root_id, EnterForest (es_forest s)] (s\<lparr>es_forest := new_forest\<rparr>))"

definition finish_load_mast_forest_from_external ::
    "('m, 'q, 'h) exec_env \<Rightarrow> node_id \<Rightarrow> mast_forest \<Rightarrow> node_id \<Rightarrow> ('m, 'h) exec_state \<Rightarrow>
     (break_reason, ('m, 'h) exec_state) flow" where
  "finish_load_mast_forest_from_external E resolved_node_id new_mast_forest external_node_id s =
     try_res s (res_bind (node_at (es_forest s) external_node_id) unwrap_external) (\<lambda>external_digest.
     try_res s (node_at new_mast_forest resolved_node_id) (\<lambda>node.
     if is_external node then Break (BreakErr (OperationErr (CircularExternalNode external_digest))) s
     else Continue (push_conts [StartNode resolved_node_id, EnterForest (es_forest s), FinishExternal external_node_id]
       (s\<lparr>es_forest := new_mast_forest\<rparr>))))"

text \<open>The body of the outer loop.\<close>

definition serve_break ::
    "('m, 'q, 'h) exec_env \<Rightarrow> internal_break_reason \<Rightarrow> ('m, 'h) exec_state \<Rightarrow>
     (break_reason, ('m, 'h) exec_state) flow" where
  "serve_break E b s = (case b of
      User break_reason \<Rightarrow> Break break_reason s
    | EmitBreak basic_block_node_id op_idx continuation \<Rightarrow>
        flow_bind (op_emit_sync E s) (finish_emit_op_execution E continuation)
    | LoadMastForestFromDyn dyn_node_id callee_hash \<Rightarrow>
        try_res s (load_mast_forest_sync E callee_hash s) (\<lambda>(root_id, F, a).
        finish_load_mast_forest_from_dyn_start E root_id F (s\<lparr>es_processor := (es_processor s)\<lparr>fp_advice := a\<rparr>\<rparr>))
    | LoadMastForestFromExternal external_node_id procedure_hash \<Rightarrow>
        try_res s (load_mast_forest_sync E procedure_hash s) (\<lambda>(root_id, F, a).
        finish_load_mast_forest_from_external E root_id F external_node_id
          (s\<lparr>es_processor := (es_processor s)\<lparr>fp_advice := a\<rparr>\<rparr>)))"

text \<open>The outputs at the end of \<open>execute_impl\<close>.\<close>

definition final_stack_outputs :: "'m fast_processor \<Rightarrow> felt list res" where
  "final_stack_outputs p =
     res_bind (fp_stack_slice p) (\<lambda>xs.
     res_bind (usize_sub (stack_top_idx p) (stack_bot_idx p)) (\<lambda>d.
     res_map_err (\<lambda>_. OutputStackOverflow (d - MIN_STACK_DEPTH)) (stack_outputs_new (rev xs))))"

partial_function (option) fp_execute_impl ::
    "('m, 'q, 'h) exec_env \<Rightarrow> ('m, 'h) exec_state \<Rightarrow>
     ((break_reason \<times> ('m, 'h) exec_state) + (felt list \<times> ('m, 'h) exec_state)) option" where
  "fp_execute_impl E s = Option.bind (execute_impl E s) (\<lambda>flow. case flow of
      Continue s \<Rightarrow>
        Some (case final_stack_outputs (es_processor s) of
           Inl e \<Rightarrow> Inl (BreakErr e, s)
         | Inr outputs \<Rightarrow> Inr (outputs, s))
    | Break b s \<Rightarrow> (case serve_break E b s of
        Break b s \<Rightarrow> Some (Inl (b, s))
      | Continue s \<Rightarrow> fp_execute_impl E s))"

section \<open>Execution of programs\<close>

record 'm execution_output =
  eo_stack :: "felt list"
  eo_advice :: "'m advice_provider"
  eo_memory :: memory
  eo_transcript :: fword

definition into_execution_output :: "'m fast_processor \<Rightarrow> felt list \<Rightarrow> 'm execution_output" where
  "into_execution_output p stack =
     \<lparr>eo_stack = stack, eo_advice = fp_advice p, eo_memory = fp_memory p, eo_transcript = pc_transcript p\<rparr>"

text \<open>The parts of a program that do not change during its execution, and the host.\<close>

definition run_env ::
    "('m, 'q) crypto_lib \<Rightarrow> hash_lib \<Rightarrow> ('m, 'h) sync_host \<Rightarrow> 'm stopper \<Rightarrow> fword list \<Rightarrow> ('m, 'q, 'h) exec_env" where
  "run_env X H host stopper hashes =
     \<lparr>ee_lib = X, ee_hash = H, ee_host = host, ee_kernel = hashes, ee_stopper = stopper\<rparr>"

text \<open>\<open>execution_result_from_flow\<close>.\<close>

definition execution_result_from_flow ::
    "(break_reason \<times> ('m, 'h) exec_state) + (felt list \<times> ('m, 'h) exec_state) \<Rightarrow> ('m execution_output \<times> 'h) res" where
  "execution_result_from_flow r = (case r of
      Inr (outputs, s) \<Rightarrow> Inr (into_execution_output (es_processor s) outputs, es_host s)
    | Inl (BreakErr e, s) \<Rightarrow> Inl e
    | Inl (Stopped _, s) \<Rightarrow> Inl (Panic ''Execution never stops prematurely with NeverStopper''))"

definition execute_sync ::
    "('m, 'q) crypto_lib \<Rightarrow> hash_lib \<Rightarrow> ('m, 'h) sync_host \<Rightarrow> 'm fast_processor \<Rightarrow> mast_program \<Rightarrow> 'h \<Rightarrow>
     ('m execution_output \<times> 'h) res option" where
  "execute_sync X H host p program h =
     (case res_map_err AdviceErr (extend_map (fp_advice p) (mf_advice_map (mp_forest program))) of
        Inl e \<Rightarrow> Some (Inl e)
      | Inr a \<Rightarrow> map_option execution_result_from_flow
          (fp_execute_impl (run_env X H host never_stopper (mp_kernel program))
             \<lparr>es_processor = p\<lparr>fp_advice := a\<rparr>, es_stack = continuation_stack_new program, es_host = h,
              es_forest = mp_forest program\<rparr>))"

section \<open>Single steps\<close>

record resume_context =
  rc_forest :: mast_forest
  rc_stack :: "continuation list"
  rc_kernel :: "fword list"

definition get_initial_resume_context ::
    "'m fast_processor \<Rightarrow> mast_program \<Rightarrow> (resume_context \<times> 'm fast_processor) res" where
  "get_initial_resume_context p program =
     res_bind (res_map_err AdviceErr (extend_map (fp_advice p) (mf_advice_map (mp_forest program)))) (\<lambda>a.
     Inr (\<lparr>rc_forest = mp_forest program, rc_stack = continuation_stack_new program, rc_kernel = mp_kernel program\<rparr>,
          p\<lparr>fp_advice := a\<rparr>))"

definition resume_context_from_flow ::
    "fword list \<Rightarrow> (break_reason \<times> ('m, 'h) exec_state) + (felt list \<times> ('m, 'h) exec_state) \<Rightarrow>
     (resume_context option \<times> 'm fast_processor \<times> 'h) res" where
  "resume_context_from_flow hashes r = (case r of
      Inr (outputs, s) \<Rightarrow> Inr (None, es_processor s, es_host s)
    | Inl (BreakErr e, s) \<Rightarrow> Inl e
    | Inl (Stopped maybe_continuation, s) \<Rightarrow>
        let K = (case maybe_continuation of Some c \<Rightarrow> c # es_stack s | None \<Rightarrow> es_stack s) in
        Inr (Some \<lparr>rc_forest = es_forest s, rc_stack = K, rc_kernel = hashes\<rparr>, es_processor s, es_host s))"

definition step_sync ::
    "('m, 'q) crypto_lib \<Rightarrow> hash_lib \<Rightarrow> ('m, 'h) sync_host \<Rightarrow> 'm fast_processor \<Rightarrow> 'h \<Rightarrow> resume_context \<Rightarrow>
     (resume_context option \<times> 'm fast_processor \<times> 'h) res option" where
  "step_sync X H host p h resume_ctx =
     map_option (resume_context_from_flow (rc_kernel resume_ctx))
       (fp_execute_impl (run_env X H host step_stopper (rc_kernel resume_ctx))
          \<lparr>es_processor = p, es_stack = rc_stack resume_ctx, es_host = h, es_forest = rc_forest resume_ctx\<rparr>)"

definition current_stack_outputs :: "'m fast_processor \<Rightarrow> felt list res" where
  "current_stack_outputs p =
     res_bind (fp_stack_slice p) (\<lambda>xs.
     res_map_err (\<lambda>_. Panic ''called unwrap on an Err value'') (stack_outputs_new (rev xs)))"

text \<open>The loop of \<open>execute_by_step_sync\<close>; it returns the processor with the outputs, for comparison.\<close>

partial_function (option) step_loop ::
    "('m, 'q) crypto_lib \<Rightarrow> hash_lib \<Rightarrow> ('m, 'h) sync_host \<Rightarrow> 'm fast_processor \<Rightarrow> 'h \<Rightarrow> resume_context \<Rightarrow>
     (felt list \<times> 'm fast_processor \<times> 'h) res option" where
  "step_loop X H host p h resume_ctx = Option.bind (step_sync X H host p h resume_ctx) (\<lambda>r. case r of
      Inl e \<Rightarrow> Some (Inl e)
    | Inr (Some next_resume_ctx, p, h) \<Rightarrow> step_loop X H host p h next_resume_ctx
    | Inr (None, p, h) \<Rightarrow> Some (res_map (\<lambda>outputs. (outputs, p, h)) (current_stack_outputs p)))"

definition execute_by_step_sync ::
    "('m, 'q) crypto_lib \<Rightarrow> hash_lib \<Rightarrow> ('m, 'h) sync_host \<Rightarrow> 'm fast_processor \<Rightarrow> mast_program \<Rightarrow> 'h \<Rightarrow>
     (felt list \<times> 'm fast_processor \<times> 'h) res option" where
  "execute_by_step_sync X H host p program h = (case get_initial_resume_context p program of
      Inl e \<Rightarrow> Some (Inl (Panic ''called unwrap on an Err value''))
    | Inr (resume_ctx, p) \<Rightarrow> step_loop X H host p h resume_ctx)"

end
