(* ===== verification/Engine_Ref.thy ===== *)
theory Engine_Ref
  imports Engine_Api
begin

text \<open>
  A structured semantics of MAST programs, as a recursive evaluator over nodes, and the proof that the engine
  with its stack of continuations implements it.  The evaluator has no continuations: a node is evaluated by
  evaluating its children, and only the number \<open>n\<close> of pending continuations is kept, for the limit on it.  Each
  clock cycle is a \<open>tick\<close>.  Fuel bounds the depth of the recursion; \<open>Engine_Term\<close> shows how much is enough.
\<close>

section \<open>Machine states\<close>

type_synonym ('m, 'h) mach = "'m fast_processor \<times> 'h"

primrec mk :: "mast_forest \<Rightarrow> continuation list \<Rightarrow> ('m, 'h) mach \<Rightarrow> ('m, 'h) exec_state" where
  "mk F K (p, h) = \<lparr>es_processor = p, es_stack = K, es_host = h, es_forest = F\<rparr>"

definition tick :: "nat \<Rightarrow> ('m, 'h) mach \<Rightarrow> ('m, 'h) mach res" where
  "tick n = (\<lambda>(p, h).
     let p = p\<lparr>fp_clk := fp_clk p + 1\<rparr> in
     if fp_clk p > max_cycles (fp_options p) then Inl (CycleLimitExceeded (max_cycles (fp_options p)))
     else if n > max_num_continuations (fp_options p)
     then Inl (Internal ''continuation stack size exceeded the allowed maximum'')
     else Inr (p, h))"

definition on_proc :: "('m fast_processor \<Rightarrow> 'm fast_processor res) \<Rightarrow> ('m, 'h) mach \<Rightarrow> ('m, 'h) mach res" where
  "on_proc f = (\<lambda>(p, h). res_map (\<lambda>p. (p, h)) (f p))"

text \<open>Decorators, events and the loading of forests do not involve continuations.\<close>

definition host_result :: "'m fast_processor \<Rightarrow> (string + unit) \<times> 'h \<Rightarrow> ('m, 'h) mach res" where
  "host_result p r = (case r of (Inl err, _) \<Rightarrow> Inl (HostErr err) | (Inr _, h) \<Rightarrow> Inr (p, h))"

definition decorate_one :: "('m, 'q, 'h) exec_env \<Rightarrow> decorator \<Rightarrow> ('m, 'h) mach \<Rightarrow> ('m, 'h) mach res" where
  "decorate_one E d = (\<lambda>(p, h). case d of
      Debug options \<Rightarrow> if enable_debugging (fp_options p) then host_result p (on_debug (ee_host E) p options h) else Inr (p, h)
    | Trace trace_id \<Rightarrow> if enable_tracing (fp_options p) then host_result p (on_trace (ee_host E) p trace_id h) else Inr (p, h))"

primrec decorate :: "('m, 'q, 'h) exec_env \<Rightarrow> decorator list \<Rightarrow> ('m, 'h) mach \<Rightarrow> ('m, 'h) mach res" where
  "decorate E [] m = Inr m"
| "decorate E (d # ds) m = res_bind (decorate_one E d m) (decorate E ds)"

definition before_enter :: "('m, 'q, 'h) exec_env \<Rightarrow> mast_forest \<Rightarrow> node_id \<Rightarrow> ('m, 'h) mach \<Rightarrow> ('m, 'h) mach res" where
  "before_enter E F i m =
     (if \<not> should_execute_decorators (fst m) then Inr m
      else res_bind (ok_or (get_node_by_id F i) (Panic ''node id not found in current forest'')) (\<lambda>_.
           decorate E (mf_before_enter F i) m))"

definition after_exit :: "('m, 'q, 'h) exec_env \<Rightarrow> mast_forest \<Rightarrow> node_id \<Rightarrow> ('m, 'h) mach \<Rightarrow> ('m, 'h) mach res" where
  "after_exit E F i m =
     (if \<not> enable_debugging (fp_options (fst m)) then Inr m
      else res_bind (ok_or (get_node_by_id F i) (Panic ''node id not found in current forest'')) (\<lambda>_.
           decorate E (mf_after_exit F i) m))"

definition before_op :: "('m, 'q, 'h) exec_env \<Rightarrow> mast_forest \<Rightarrow> node_id \<Rightarrow> nat \<Rightarrow> ('m, 'h) mach \<Rightarrow> ('m, 'h) mach res" where
  "before_op E F i k m =
     (if should_execute_decorators (fst m) then decorate E (mf_op_decorators F i k) m else Inr m)"

definition end_of_block ::
    "('m, 'q, 'h) exec_env \<Rightarrow> mast_forest \<Rightarrow> op_batch list \<Rightarrow> node_id \<Rightarrow> ('m, 'h) mach \<Rightarrow> ('m, 'h) mach res" where
  "end_of_block E F bs i m =
     (if should_execute_decorators (fst m)
      then res_bind (num_operations bs) (\<lambda>k. decorate E (mf_op_decorators F i k) m) else Inr m)"

definition emit :: "('m, 'q, 'h) exec_env \<Rightarrow> ('m, 'h) mach \<Rightarrow> ('m, 'h) mach res" where
  "emit E = (\<lambda>(p, h).
     res_bind (stack_get p 0) (\<lambda>x. case from_event_id (event_id_from_felt x) of
       Some ev \<Rightarrow> res_bind (handle_system_event (ee_lib E) (ee_hash E) p ev) (\<lambda>p. Inr (p, h))
     | None \<Rightarrow> (case on_event (ee_host E) p h of (mutations, h) \<Rightarrow>
         res_bind (res_map_err (EventErr (event_id_from_felt x)) mutations) (\<lambda>mutations.
         res_bind (res_map_err AdviceErr (apply_mutations (ee_lib E) (fp_advice p) mutations)) (\<lambda>a.
         Inr (p\<lparr>fp_advice := a\<rparr>, h))))))"

definition load :: "('m, 'q, 'h) exec_env \<Rightarrow> fword \<Rightarrow> ('m, 'h) mach \<Rightarrow> (node_id \<times> mast_forest \<times> ('m, 'h) mach) res" where
  "load E d = (\<lambda>(p, h).
     res_bind (ok_or (get_mast_forest (ee_host E) h d) (ProcedureNotFound d)) (\<lambda>F.
     res_bind (find_procedure_root F d) (\<lambda>root.
     res_bind (ok_or root (OperationErr (MalformedMastForestInHost d))) (\<lambda>root_id.
     res_bind (res_map_err AdviceErr (extend_map (fp_advice p) (mf_advice_map F))) (\<lambda>a.
     Inr (root_id, F, (p\<lparr>fp_advice := a\<rparr>, h)))))))"

section \<open>The evaluator\<close>

definition run_op ::
    "('m, 'q, 'h) exec_env \<Rightarrow> mast_forest \<Rightarrow> operation \<Rightarrow> ('m, 'h) mach \<Rightarrow> ('m, 'h) mach res" where
  "run_op E F op m =
     (if op = Emit then emit E m
      else on_proc (execute_op (ee_lib E) (proc E) (resolve_error_message F) op) m)"

text \<open>The operations of a basic block in order, the next one at index \<open>k\<close> of the block.\<close>

primrec run_block_ops ::
    "('m, 'q, 'h) exec_env \<Rightarrow> mast_forest \<Rightarrow> nat \<Rightarrow> node_id \<Rightarrow> nat \<Rightarrow> operation list \<Rightarrow> ('m, 'h) mach \<Rightarrow> ('m, 'h) mach res" where
  "run_block_ops E F n i k [] m = Inr m"
| "run_block_ops E F n i k (op # ops) m =
     res_bind (before_op E F i k m) (\<lambda>m.
     res_bind (run_op E F op m) (\<lambda>m.
     res_bind (tick n m) (run_block_ops E F n i (k + 1) ops)))"

text \<open>Between two batches the clock ticks once for the \<open>RESPAN\<close>.\<close>

primrec run_batches ::
    "('m, 'q, 'h) exec_env \<Rightarrow> mast_forest \<Rightarrow> nat \<Rightarrow> node_id \<Rightarrow> nat \<Rightarrow> op_batch list \<Rightarrow> ('m, 'h) mach \<Rightarrow> ('m, 'h) mach res" where
  "run_batches E F n i k [] m = Inr m"
| "run_batches E F n i k (b # bs) m =
     res_bind (tick n m) (\<lambda>m.
     res_bind (run_block_ops E F n i k (b_ops b) m) (run_batches E F n i (k + length (b_ops b)) bs))"

text \<open>The tick before the first batch is the one of \<open>SPAN\<close>, the last one that of \<open>END\<close>.\<close>

definition run_block ::
    "('m, 'q, 'h) exec_env \<Rightarrow> mast_forest \<Rightarrow> nat \<Rightarrow> node_id \<Rightarrow> op_batch list \<Rightarrow> ('m, 'h) mach \<Rightarrow> ('m, 'h) mach res" where
  "run_block E F n i bs m =
     res_bind (if bs = [] then tick n m else run_batches E F n i 0 bs m) (\<lambda>m.
     res_bind (tick n m) (\<lambda>m.
     res_bind (end_of_block E F bs i m) (after_exit E F i)))"

definition finish :: "('m, 'q, 'h) exec_env \<Rightarrow> mast_forest \<Rightarrow> nat \<Rightarrow> node_id \<Rightarrow> ('m, 'h) mach \<Rightarrow> ('m, 'h) mach res" where
  "finish E F n i m = res_bind (tick n m) (after_exit E F i)"

text \<open>The condition on top of the stack, which is popped.\<close>

definition pop_condition ::
    "('m, 'q, 'h) exec_env \<Rightarrow> (felt \<Rightarrow> operation_error) \<Rightarrow> ('m, 'h) mach \<Rightarrow> (bool \<times> ('m, 'h) mach) res" where
  "pop_condition E err = (\<lambda>(p, h).
     res_bind (get (proc E) p 0) (\<lambda>c.
     res_bind (decrement_size (proc E) p) (\<lambda>p.
     if c = 1 then Inr (True, (p, h)) else if c = 0 then Inr (False, (p, h)) else Inl (OperationErr (err c)))))"

text \<open>The condition at the end of an iteration, popped only if it is binary.\<close>

definition pop_loop_condition ::
    "('m, 'q, 'h) exec_env \<Rightarrow> ('m, 'h) mach \<Rightarrow> (bool \<times> ('m, 'h) mach) res" where
  "pop_loop_condition E = (\<lambda>(p, h).
     res_bind (get (proc E) p 0) (\<lambda>c.
     if c = 1 then res_map (\<lambda>p. (True, (p, h))) (decrement_size (proc E) p)
     else if c = 0 then res_map (\<lambda>p. (False, (p, h))) (decrement_size (proc E) p)
     else Inl (OperationErr (NotBinaryValueLoop c))))"

definition enter_call ::
    "('m, 'q, 'h) exec_env \<Rightarrow> mast_forest \<Rightarrow> node_id \<Rightarrow> bool \<Rightarrow> 'm fast_processor \<Rightarrow> 'm fast_processor res" where
  "enter_call E F callee is_syscall p =
     res_bind (save_context_and_truncate_stack (proc E) p) (\<lambda>p.
     res_bind (node_at F callee) (\<lambda>node.
     if is_syscall then
       (if contains_proc (ee_kernel E) (digest node) then Inr (set_ctx (proc E) p 0)
        else Inl (OperationErr (SyscallTargetNotInKernel (digest node))))
     else
       let new_ctx = get_next_ctx_id E p in
       res_map_err MemoryErr (write_element (proc E) (set_caller_hash (proc E) (set_ctx (proc E) p new_ctx) (digest node))
         new_ctx FMP_ADDR FMP_INIT_VALUE)))"

definition leave :: "('m, 'q, 'h) exec_env \<Rightarrow> bool \<Rightarrow> ('m, 'h) mach \<Rightarrow> ('m, 'h) mach res" where
  "leave E switched m = (if switched then on_proc (restore_context (proc E)) m else Inr m)"

definition enter_dynamic ::
    "('m, 'q, 'h) exec_env \<Rightarrow> bool \<Rightarrow> ('m, 'h) mach \<Rightarrow> (fword \<times> ('m, 'h) mach) res" where
  "enter_dynamic E dyncall = (\<lambda>(p, h). res_map (\<lambda>(d, p). (d, (p, h))) (enter_dyn E dyncall p))"

text \<open>Results of evaluations that may run out of fuel.\<close>

definition seq :: "'a res option \<Rightarrow> ('a \<Rightarrow> 'b res option) \<Rightarrow> 'b res option" where
  "seq r f = Option.bind r (\<lambda>r. case r of Inl e \<Rightarrow> Some (Inl e) | Inr x \<Rightarrow> f x)"

fun eval_node :: "nat \<Rightarrow> ('m, 'q, 'h) exec_env \<Rightarrow> mast_forest \<Rightarrow> nat \<Rightarrow> node_id \<Rightarrow> ('m, 'h) mach \<Rightarrow> ('m, 'h) mach res option"
  and eval_loop :: "nat \<Rightarrow> ('m, 'q, 'h) exec_env \<Rightarrow> mast_forest \<Rightarrow> nat \<Rightarrow> node_id \<Rightarrow> node_id \<Rightarrow> ('m, 'h) mach \<Rightarrow> ('m, 'h) mach res option"
  where
  "eval_node 0 E F n i m = None"
| "eval_node (Suc fuel) E F n i m = (case get_node_by_id F i of
      None \<Rightarrow> Some (Inl (Panic ''called unwrap on a None value''))
    | Some node \<Rightarrow> seq (Some (before_enter E F i m)) (\<lambda>m. case node of
        Block bs _ \<Rightarrow> Some (run_block E F n i bs m)
      | Join first second _ \<Rightarrow>
          seq (Some (tick (n + 3) m)) (\<lambda>m.
          seq (eval_node fuel E F (n + 2) first m) (\<lambda>m.
          seq (eval_node fuel E F (n + 1) second m) (\<lambda>m.
          Some (finish E F n i m))))
      | Split on_true on_false _ \<Rightarrow>
          seq (Some (pop_condition E NotBinaryValueIf m)) (\<lambda>(c, m).
          seq (Some (tick (n + 2) m)) (\<lambda>m.
          seq (eval_node fuel E F (n + 1) (if c then on_true else on_false) m) (\<lambda>m.
          Some (finish E F n i m))))
      | Loop body _ \<Rightarrow>
          seq (Some (pop_condition E NotBinaryValueLoop m)) (\<lambda>(c, m).
          if c then seq (Some (tick (n + 2) m)) (eval_loop fuel E F n i body)
          else seq (Some (tick n m)) (\<lambda>m. Some (finish E F n i m)))
      | Call callee is_syscall _ \<Rightarrow>
          seq (Some (on_proc (enter_call E F callee is_syscall) m)) (\<lambda>m.
          seq (Some (tick (n + 2) m)) (\<lambda>m.
          seq (eval_node fuel E F (n + 1) callee m) (\<lambda>m.
          Some (res_bind (leave E True m) (finish E F n i)))))
      | Dyn dyncall _ \<Rightarrow>
          seq (Some (enter_dynamic E dyncall m)) (\<lambda>(d, m).
          seq (Some (find_procedure_root F d)) (\<lambda>callee.
          seq (case callee of
              Some callee_id \<Rightarrow> seq (Some (tick (n + 2) m)) (eval_node fuel E F (n + 1) callee_id)
            | None \<Rightarrow> seq (Some (load E d m)) (\<lambda>(root_id, G, m).
                seq (Some (tick (n + 3) m)) (eval_node fuel E G (n + 2) root_id)) ) (\<lambda>m.
          Some (res_bind (leave E dyncall m) (finish E F n i)))))
      | External d \<Rightarrow>
          seq (Some (load E d m)) (\<lambda>(root_id, G, m).
          seq (Some (node_at G root_id)) (\<lambda>root.
          if is_external root then Some (Inl (OperationErr (CircularExternalNode d)))
          else seq (eval_node fuel E G (n + 2) root_id m) (\<lambda>m.
            Some (after_exit E F i m))))))"
| "eval_loop 0 E F n i body m = None"
| "eval_loop (Suc fuel) E F n i body m =
     seq (eval_node fuel E F (n + 1) body m) (\<lambda>m.
     seq (Some (pop_loop_condition E m)) (\<lambda>(c, m).
     if c then seq (Some (tick (n + 2) m)) (eval_loop fuel E F n i body)
     else Some (finish E F n i m)))"

section \<open>Runs of the engine\<close>

text \<open>The engine without the state an error leaves behind.\<close>

definition run ::
    "('m, 'q, 'h) exec_env \<Rightarrow> ('m, 'h) exec_state \<Rightarrow> (break_reason + felt list \<times> ('m, 'h) exec_state) option" where
  "run E s = map_option (\<lambda>r. case r of Inl (b, _) \<Rightarrow> Inl b | Inr x \<Rightarrow> Inr x) (fp_execute_impl E s)"

text \<open>One iteration of the main loop and what the outer loop does after it.\<close>

definition serve ::
    "('m, 'q, 'h) exec_env \<Rightarrow> (internal_break_reason, ('m, 'h) exec_state) flow \<Rightarrow> (break_reason, ('m, 'h) exec_state) flow" where
  "serve E r = (case r of Break b s \<Rightarrow> serve_break E b s | Continue s \<Rightarrow> Continue s)"

definition proceed ::
    "('m, 'q, 'h) exec_env \<Rightarrow> (internal_break_reason, ('m, 'h) exec_state) flow \<Rightarrow>
     (break_reason + felt list \<times> ('m, 'h) exec_state) option" where
  "proceed E r = (case serve E r of Break b _ \<Rightarrow> Some (Inl b) | Continue s \<Rightarrow> run E s)"

lemma serve_simps [simp]:
  "serve E (map_break User r) = r" "serve E (Continue s) = Continue s" "serve E (Break (User b) s) = Break b s"
  by (cases r) (simp_all add: serve_def serve_break_def)

lemma mk_sel [simp]:
  "es_processor (mk F K m) = fst m" "es_stack (mk F K m) = K" "es_host (mk F K m) = snd m" "es_forest (mk F K m) = F"
  "(mk F K m)\<lparr>es_processor := p\<rparr> = mk F K (p, snd m)" "(mk F K m)\<lparr>es_stack := L\<rparr> = mk F L m"
  "(mk F K m)\<lparr>es_host := h\<rparr> = mk F K (fst m, h)" "(mk F K m)\<lparr>es_forest := G\<rparr> = mk G K m"
  by (cases m; simp)+

lemma mk_eta: "mk (es_forest s) (es_stack s) (es_processor s, es_host s) = s"
  by simp

declare mk.simps [simp del]

lemma fp_execute_impl_step:
  "fp_execute_impl E (mk F (c # K) m) = (case serve E (execute_continuation E c (mk F K m)) of
     Break b s \<Rightarrow> Some (Inl (b, s)) | Continue s \<Rightarrow> fp_execute_impl E s)"
proof (cases "execute_continuation E c (mk F K m)")
  case (Break b s)
  then have "execute_impl E (mk F (c # K) m) = Some (Break b s)"
    by (subst execute_impl.simps) simp
  then show ?thesis
    by (simp add: fp_execute_impl.simps [of E "mk F (c # K) m"] Break serve_def)
next
  case (Continue s)
  then have "execute_impl E (mk F (c # K) m) = execute_impl E s"
    by (subst execute_impl.simps) simp
  then have "fp_execute_impl E (mk F (c # K) m) = fp_execute_impl E s"
    by (subst (1 2) fp_execute_impl.simps) simp
  then show ?thesis by (simp add: Continue)
qed

lemma fp_execute_impl_nil:
  "fp_execute_impl E (mk F [] m) = Some (case final_stack_outputs (fst m) of
     Inl e \<Rightarrow> Inl (BreakErr e, mk F [] m) | Inr outputs \<Rightarrow> Inr (outputs, mk F [] m))"
proof -
  have "execute_impl E (mk F [] m) = Some (Continue (mk F [] m))"
    by (subst execute_impl.simps) simp
  then show ?thesis by (simp add: fp_execute_impl.simps [of E "mk F [] m"])
qed

lemma run_step: "run E (mk F (c # K) m) = proceed E (execute_continuation E c (mk F K m))"
  by (simp add: run_def proceed_def fp_execute_impl_step split: flow.splits)

lemma run_nil:
  "run E (mk F [] m) = Some (case final_stack_outputs (fst m) of
     Inl e \<Rightarrow> Inl (BreakErr e) | Inr outputs \<Rightarrow> Inr (outputs, mk F [] m))"
  by (simp add: run_def fp_execute_impl_nil split: sum.splits)

lemma run_InlD: "run E s = Some (Inl b) \<Longrightarrow> \<exists>t. fp_execute_impl E s = Some (Inl (b, t))"
  by (cases "fp_execute_impl E s") (auto simp: run_def split: sum.splits prod.splits)

lemma run_InrD: "run E s = Some (Inr x) \<Longrightarrow> fp_execute_impl E s = Some (Inr x)"
  by (cases "fp_execute_impl E s") (auto simp: run_def split: sum.splits prod.splits)

section \<open>Calculating with runs\<close>

definition after_res :: "'a res \<Rightarrow> ('a \<Rightarrow> (break_reason + 'b) option) \<Rightarrow> (break_reason + 'b) option" where
  "after_res r f = (case r of Inl e \<Rightarrow> Some (Inl (BreakErr e)) | Inr x \<Rightarrow> f x)"

definition after_opt :: "'a res option \<Rightarrow> ('a \<Rightarrow> (break_reason + 'b) option) \<Rightarrow> (break_reason + 'b) option" where
  "after_opt r f = Option.bind r (\<lambda>r. after_res r f)"

lemma after_res_simps [simp]:
  "after_res (Inl e) f = Some (Inl (BreakErr e))"
  "after_res (Inr x) f = f x"
  "after_res (res_bind r g) f = after_res r (\<lambda>x. after_res (g x) f)"
  "after_res (res_map k r) f = after_res r (\<lambda>x. f (k x))"
  by (cases r; simp add: after_res_def)+

lemma after_opt_simps [simp]:
  "after_opt None f = None"
  "after_opt (Some r) f = after_res r f"
  "after_opt (seq q g) f = after_opt q (\<lambda>x. after_opt (g x) f)"
  by (simp_all add: after_opt_def seq_def after_res_def split: sum.splits Option.bind_split)

lemma proceed_simps [simp]:
  "proceed E (Continue s) = run E s"
  "proceed E (Break (User b) s) = Some (Inl b)"
  by (simp_all add: proceed_def)

lemma map_break_bind: "map_break f (flow_bind a g) = flow_bind (map_break f a) (\<lambda>s. map_break f (g s))"
  by (cases a) simp_all

lemma flow_bind_Continue [simp]: "flow_bind a Continue = a"
  by (cases a) simp_all

lemma flow_bind_assoc: "flow_bind (flow_bind a f) g = flow_bind a (\<lambda>s. flow_bind (f s) g)"
  by (cases a) simp_all

lemma proceed_try [simp]:
  "proceed E (map_break User (try_res s r f)) = after_res r (\<lambda>x. proceed E (map_break User (f x)))"
  "proceed E (flow_bind (map_break User (try_res s r f)) g) =
     after_res r (\<lambda>x. proceed E (flow_bind (map_break User (f x)) g))"
  by (simp_all add: try_res_def after_res_def split: sum.splits)

text \<open>\<open>implements F K a r\<close>: the flow \<open>r\<close> of the engine carries the result \<open>a\<close> and leaves the forest \<open>F\<close> and the
  continuations \<open>K\<close> as they are.\<close>

definition implements ::
    "mast_forest \<Rightarrow> continuation list \<Rightarrow> ('m, 'h) mach res \<Rightarrow> (break_reason, ('m, 'h) exec_state) flow \<Rightarrow> bool" where
  "implements F K a r \<longleftrightarrow> (case a of Inl e \<Rightarrow> (\<exists>s. r = Break (BreakErr e) s) | Inr m \<Rightarrow> r = Continue (mk F K m))"

lemma implements_simps [simp]:
  "implements F K (Inl e) r \<longleftrightarrow> (\<exists>s. r = Break (BreakErr e) s)"
  "implements F K (Inr m) r \<longleftrightarrow> r = Continue (mk F K m)"
  by (simp_all add: implements_def)

lemma implements_bind:
  assumes "implements F K a r" and "\<And>m. implements F K (g m) (f (mk F K m))"
  shows "implements F K (res_bind a g) (flow_bind r f)"
  using assms by (cases a) auto

lemma implements_try:
  assumes "\<And>x. r = Inr x \<Longrightarrow> implements F K (g x) (f x)"
  shows "implements F K (res_bind r g) (try_res s r f)"
  using assms by (cases r) (auto simp: try_res_def)

lemma implements_proceed:
  assumes "implements F K a r"
  shows "proceed E (flow_bind (map_break User r) k) = after_res a (\<lambda>m. proceed E (k (mk F K m)))"
  using assms by (cases a) auto

lemma implements_proceed_end:
  assumes "implements F K a r"
  shows "proceed E (map_break User r) = after_res a (\<lambda>m. run E (mk F K m))"
  using assms by (cases a) auto

text \<open>Decorators and events do not depend on the continuations.\<close>

lemma decorate_one_implements: "implements F K (decorate_one E d m) (execute_decorator E d (mk F K m))"
  by (cases m) (auto simp: execute_decorator_def decorate_one_def host_result_def split: decorator.splits prod.splits sum.splits)

lemma decorate_implements: "implements F K (decorate E ds m) (execute_decorators E ds (mk F K m))"
  by (induction ds arbitrary: m) (auto intro!: implements_bind decorate_one_implements)

lemma decorators_implement:
  "implements F K (before_enter E F i m) (execute_before_enter_decorators E i (mk F K m))"
  "implements F K (after_exit E F i m) (execute_after_exit_decorators E i (mk F K m))"
  "implements F K (before_op E F i k m) (execute_decorators_for_op E i k (mk F K m))"
  "implements F K (end_of_block E F bs i m) (execute_end_of_block_decorators E bs i (mk F K m))"
  by (auto simp: before_enter_def after_exit_def before_op_def end_of_block_def execute_before_enter_decorators_def
      execute_after_exit_decorators_def execute_decorators_for_op_def execute_end_of_block_decorators_def
      intro!: implements_try decorate_implements)

lemma emit_implements: "implements F K (emit E m) (op_emit_sync E (mk F K m))"
  by (cases m) (auto simp: emit_def op_emit_sync_def apply_host_event_mutations_def Let_def simp del: implements_simps(1)
      split: option.splits prod.splits intro!: implements_try)

lemma tick_implements:
  assumes "ee_stopper E = never_stopper"
  shows "implements F K (tick (length K) m) (finalize_clock_cycle_with_continuation E c (mk F K m))"
  using assms
  by (cases m) (simp add: tick_def finalize_clock_cycle_with_continuation_def never_stopper_def Let_def
      check_if_max_cycles_exceeded_def check_if_continuation_stack_too_large_def fast_processor_impl_def)

lemmas engine_implements = decorators_implement emit_implements tick_implements

section \<open>Basic blocks\<close>

lemma from_batch_step:
  assumes "b < length bs"
  shows "execute_basic_block_node_from_batch E bs i b s =
    flow_bind (map_break User (finalize_clock_cycle_with_continuation E (Some (ResumeBasicBlock i b 0)) s)) (\<lambda>s.
    flow_bind (execute_ops E bs i b (batch_offset bs b) (b_ops (bs ! b)) 0 s)
      (execute_basic_block_node_from_batch E bs i (b + 1)))"
proof -
  have "batch_offset bs (Suc b) = batch_offset bs b + length (b_ops (bs ! b))"
    using assms by (simp add: batch_offset_def take_Suc_conv_app_nth)
  then show ?thesis
    using assms by (simp add: execute_basic_block_node_from_batch_def [abs_def] upt_conv_Cons flow_bind_assoc execute_op_batch_def
        del: upt_Suc)
qed

lemma from_batch_end:
  "length bs \<le> b \<Longrightarrow> execute_basic_block_node_from_batch E bs i b s = map_break User (finish_basic_block E bs i s)"
  by (simp add: execute_basic_block_node_from_batch_def)

lemma proceed_emit:
  assumes "ee_stopper E = never_stopper"
  shows "proceed E (Break (EmitBreak i k c) (mk F K m)) =
    after_res (emit E m) (\<lambda>m. after_res (tick (length K) m) (\<lambda>m. run E (mk F (c # K) m)))"
proof -
  have "proceed E (Break (EmitBreak i k c) s) =
      proceed E (flow_bind (map_break User (op_emit_sync E s)) (\<lambda>s.
        map_break User (finish_emit_op_execution E c s)))" for s
    by (cases "op_emit_sync E s") (auto simp: proceed_def serve_def serve_break_def split: flow.splits)
  then show ?thesis
    by (simp add: implements_proceed [OF emit_implements] finish_emit_op_execution_def map_break_bind
        implements_proceed [OF tick_implements [OF assms]])
qed

text \<open>The rest of a block after an operation: the engine comes to it directly, or through the continuation that
  it leaves when it breaks off to have an event served.\<close>

lemma run_after_operation:
  assumes "unwrap_basic_block F i = Inr bs" and b: "b < length bs" and k: "k < length (b_ops (bs ! b))"
  shows "run E (mk F (get_continuation_after_executing_operation bs i b k # K) m) =
    proceed E (flow_bind (execute_ops E bs i b (batch_offset bs b) (drop (Suc k) (b_ops (bs ! b))) (Suc k) (mk F K m))
      (execute_basic_block_node_from_batch E bs i (b + 1)))"
proof -
  have r: "run E (mk F (c # K) m) = proceed E (execute_continuation E c (mk F K m))" for c
    by (rule run_step)
  consider "k < length (b_ops (bs ! b)) - 1" | "\<not> k < length (b_ops (bs ! b)) - 1" "length (b_ops (bs ! b)) = Suc k" "b < length bs - 1"
    | "\<not> k < length (b_ops (bs ! b)) - 1" "length (b_ops (bs ! b)) = Suc k" "length bs = Suc b"
    using b k by linarith
  then show ?thesis
  proof cases
    case 1
    then show ?thesis
      using b by (simp add: get_continuation_after_executing_operation_def r execute_continuation_def assms(1)
          execute_basic_block_node_from_op_idx_def execute_op_batch_def)
  next
    case 2
    then show ?thesis
      using b by (simp add: get_continuation_after_executing_operation_def r execute_continuation_def assms(1))
  next
    case 3
    then show ?thesis
      using b by (simp add: get_continuation_after_executing_operation_def r execute_continuation_def assms(1)
          from_batch_end)
  qed
qed

lemma proceed_ops:
  assumes E: "ee_stopper E = never_stopper" and "unwrap_basic_block F i = Inr bs" and b: "b < length bs"
    and "drop k (b_ops (bs ! b)) = ops"
  shows "proceed E (flow_bind (execute_ops E bs i b (batch_offset bs b) ops k (mk F K m))
      (execute_basic_block_node_from_batch E bs i (b + 1))) =
    after_res (run_block_ops E F (length K) i (batch_offset bs b + k) ops m) (\<lambda>m.
      proceed E (execute_basic_block_node_from_batch E bs i (b + 1) (mk F K m)))"
  using assms(4)
proof (induction ops arbitrary: k m)
  case Nil
  then show ?case by simp
next
  case (Cons op ops)
  then have k: "k < length (b_ops (bs ! b))"
    by (metis drop_all leI list.distinct(1))
  from Cons.prems have d: "drop (Suc k) (b_ops (bs ! b)) = ops"
    by (metis drop_Suc list.sel(3) tl_drop)
  show ?case
    by (auto simp: flow_bind_assoc implements_proceed [OF decorators_implement(3)] Let_def proceed_emit [OF E]
        run_op_def on_proc_def run_after_operation [OF assms(2) b k] d Cons.IH [OF d, simplified]
        implements_proceed [OF tick_implements [OF E]] split_def
        intro!: arg_cong2 [where f = after_res] ext)
qed

lemma proceed_batches:
  assumes E: "ee_stopper E = never_stopper" and F: "unwrap_basic_block F i = Inr bs" and "drop b bs = rest"
  shows "proceed E (execute_basic_block_node_from_batch E bs i b (mk F K m)) =
    after_res (run_batches E F (length K) i (batch_offset bs b) rest m) (\<lambda>m.
      proceed E (map_break User (finish_basic_block E bs i (mk F K m))))"
  using assms(3)
proof (induction rest arbitrary: b m)
  case Nil
  then show ?case by (simp add: from_batch_end)
next
  case (Cons x rest)
  then have b: "b < length bs"
    by (metis drop_all leI list.distinct(1))
  from Cons.prems have x: "bs ! b = x" and d: "drop (Suc b) bs = rest"
    by (metis b Cons_nth_drop_Suc list.inject)+
  have o: "batch_offset bs (Suc b) = batch_offset bs b + length (b_ops x)"
    using b x by (simp add: batch_offset_def take_Suc_conv_app_nth)
  show ?case
    by (simp add: from_batch_step [OF b, simplified] implements_proceed [OF tick_implements [OF E]]
        proceed_ops [OF E F b, where k = 0, simplified] Cons.IH [OF d, unfolded o] x)
qed

lemma run_block_node:
  assumes E: "ee_stopper E = never_stopper" and F: "get_node_by_id F i = Some (Block bs d)"
  shows "proceed E (execute_basic_block_node_from_start E bs i (mk F K m)) =
    after_res (before_enter E F i m) (\<lambda>m.
    after_res (run_block E F (length K) i bs m) (\<lambda>m. run E (mk F K m)))"
proof -
  have u: "unwrap_basic_block F i = Inr bs"
    by (simp add: unwrap_basic_block_def F)
  have fin: "proceed E (map_break User (finish_basic_block E bs i (mk F K m))) =
      after_res (tick (length K) m) (\<lambda>m. after_res (end_of_block E F bs i m) (\<lambda>m.
      after_res (after_exit E F i m) (\<lambda>m. run E (mk F K m))))" for m
    by (simp add: finish_basic_block_def map_break_bind implements_proceed [OF tick_implements [OF E]]
        implements_proceed [OF decorators_implement(4)] implements_proceed_end [OF decorators_implement(2)])
  show ?thesis
  proof (cases bs)
    case Nil
    then show ?thesis
      using fin by (simp add: execute_basic_block_node_from_start_def implements_proceed [OF decorators_implement(1)]
          implements_proceed [OF tick_implements [OF E]] from_batch_end run_block_def)
  next
    case (Cons x rest)
    then have o: "batch_offset bs 0 = 0" "batch_offset bs (Suc 0) = length (b_ops x)"
      by (simp_all add: batch_offset_def)
    have ops: "proceed E (flow_bind (execute_ops E bs i 0 0 (b_ops x) 0 (mk F K m))
        (execute_basic_block_node_from_batch E bs i (Suc 0))) =
      after_res (run_block_ops E F (length K) i 0 (b_ops x) m) (\<lambda>m.
        proceed E (execute_basic_block_node_from_batch E bs i (Suc 0) (mk F K m)))" for m
      using proceed_ops [OF E u, where b = 0 and k = 0 and ops = "b_ops x"] Cons o by simp
    have "bs \<noteq> []" "bs ! 0 = x" using Cons by simp_all
    then show ?thesis
      using proceed_batches [OF E u, of "Suc 0" rest] Cons
      by (simp add: execute_basic_block_node_from_start_def implements_proceed [OF decorators_implement(1)]
          implements_proceed [OF tick_implements [OF E]] execute_op_batch_def ops [unfolded Cons]
          fin [unfolded Cons] run_block_def o [unfolded Cons])
  qed
qed

section \<open>Control flow nodes\<close>

text \<open>What the engine does at each continuation, over the results of the evaluator.\<close>

lemma run_finish_node:
  assumes "ee_stopper E = never_stopper"
  shows "proceed E (map_break User (finish_node E i (mk F K m))) =
    after_res (finish E F (length K) i m) (\<lambda>m. run E (mk F K m))"
  by (simp add: finish_node_def finish_def map_break_bind implements_proceed [OF tick_implements [OF assms]]
      implements_proceed_end [OF decorators_implement(2)])

lemma run_tick:
  assumes "ee_stopper E = never_stopper"
  shows "proceed E (map_break User (finalize_clock_cycle E (mk F K m))) =
    after_res (tick (length K) m) (\<lambda>m. run E (mk F K m))"
  unfolding finalize_clock_cycle_def by (rule implements_proceed_end [OF tick_implements [OF assms]])

lemma run_finish:
  assumes E: "ee_stopper E = never_stopper"
  shows "run E (mk F (FinishJoin i # K) m) = after_res (finish E F (length K) i m) (\<lambda>m. run E (mk F K m))"
    and "run E (mk F (FinishSplit i # K) m) = after_res (finish E F (length K) i m) (\<lambda>m. run E (mk F K m))"
    and "run E (mk F (FinishCall i # K) m) =
      after_res (leave E True m) (\<lambda>m. after_res (finish E F (length K) i m) (\<lambda>m. run E (mk F K m)))"
    and "run E (mk F (FinishExternal i # K) m) = after_res (after_exit E F i m) (\<lambda>m. run E (mk F K m))"
    and "run E (mk F (EnterForest G # K) m) = run E (mk G K m)"
  by (simp_all add: run_step execute_continuation_def finish_join_node_def finish_split_node_def finish_call_node_def
      run_finish_node [OF E] implements_proceed_end [OF decorators_implement(2)] leave_def on_proc_def split_def)

lemma run_finish_dyn:
  assumes E: "ee_stopper E = never_stopper" and F: "get_node_by_id F i = Some (Dyn dyncall d)"
  shows "run E (mk F (FinishDyn i # K) m) =
    after_res (leave E dyncall m) (\<lambda>m. after_res (finish E F (length K) i m) (\<lambda>m. run E (mk F K m)))"
  by (simp add: run_step execute_continuation_def finish_dyn_node_def node_at_def F unwrap_dyn_def
      run_finish_node [OF E] leave_def on_proc_def split_def)

lemma run_finish_loop:
  assumes E: "ee_stopper E = never_stopper" and F: "get_node_by_id F i = Some (Loop body d)"
  shows "run E (mk F (FinishLoop i True # K) m) =
    after_res (pop_loop_condition E m) (\<lambda>(c, m).
      if c then after_res (tick (length K + 2) m) (\<lambda>m. run E (mk F (StartNode body # FinishLoop i True # K) m))
      else after_res (finish E F (length K) i m) (\<lambda>m. run E (mk F K m)))"
  by (cases "get (proc E) (fst m) 0")
    (auto simp: run_step execute_continuation_def finish_loop_node_def node_at_def F unwrap_loop_def
      run_finish_node [OF E] run_tick [OF E] pop_loop_condition_def split_def)

lemma run_start_join:
  assumes E: "ee_stopper E = never_stopper"
  shows "proceed E (map_break User (start_join_node E a b i (mk F K m))) =
    after_res (before_enter E F i m) (\<lambda>m. after_res (tick (length K + 3) m) (\<lambda>m.
      run E (mk F (StartNode a # StartNode b # FinishJoin i # K) m)))"
  by (simp add: start_join_node_def map_break_bind implements_proceed [OF decorators_implement(1)] run_tick [OF E]
      numeral_3_eq_3)

lemma run_start_split:
  assumes E: "ee_stopper E = never_stopper"
  shows "proceed E (map_break User (start_split_node E a b i (mk F K m))) =
    after_res (before_enter E F i m) (\<lambda>m. after_res (pop_condition E NotBinaryValueIf m) (\<lambda>(c, m).
    after_res (tick (length K + 2) m) (\<lambda>m. run E (mk F (StartNode (if c then a else b) # FinishSplit i # K) m))))"
  by (auto simp: start_split_node_def map_break_bind implements_proceed [OF decorators_implement(1)] run_tick [OF E]
      pop_condition_def split_def Let_def intro!: arg_cong2 [where f = after_res] ext)

lemma run_start_loop:
  assumes E: "ee_stopper E = never_stopper" and F: "get_node_by_id F i = Some (Loop body d)"
  shows "proceed E (map_break User (start_loop_node E body i (mk F K m))) =
    after_res (before_enter E F i m) (\<lambda>m. after_res (pop_condition E NotBinaryValueLoop m) (\<lambda>(c, m).
    if c then after_res (tick (length K + 2) m) (\<lambda>m. run E (mk F (StartNode body # FinishLoop i True # K) m))
    else after_res (tick (length K) m) (\<lambda>m. after_res (finish E F (length K) i m) (\<lambda>m. run E (mk F K m)))))"
  by (auto simp: start_loop_node_def map_break_bind implements_proceed [OF decorators_implement(1)] run_tick [OF E]
      implements_proceed [OF tick_implements [OF E]] run_finish_node [OF E] finish_loop_node_def node_at_def F unwrap_loop_def
      pop_condition_def split_def Let_def intro!: arg_cong2 [where f = after_res] ext)

lemma run_start_call:
  assumes E: "ee_stopper E = never_stopper"
  shows "proceed E (map_break User (start_call_node E callee is_syscall i (mk F K m))) =
    after_res (before_enter E F i m) (\<lambda>m. after_res (on_proc (enter_call E F callee is_syscall) m) (\<lambda>m.
    after_res (tick (length K + 2) m) (\<lambda>m. run E (mk F (StartNode callee # FinishCall i # K) m))))"
  by (auto simp: start_call_node_def map_break_bind implements_proceed [OF decorators_implement(1)] run_tick [OF E]
      enter_call_def on_proc_def split_def Let_def intro!: arg_cong2 [where f = after_res] ext)

lemma proceed_load_dyn:
  assumes E: "ee_stopper E = never_stopper"
  shows "proceed E (Break (LoadMastForestFromDyn i d) (mk F K m)) =
    after_res (load E d m) (\<lambda>(j, G, m). after_res (tick (length K + 2) m) (\<lambda>m.
      run E (mk G (StartNode j # EnterForest F # K) m)))"
proof -
  have "proceed E (Break (LoadMastForestFromDyn i d) s) =
      proceed E (map_break User (serve_break E (LoadMastForestFromDyn i d) s))" for s
    by (simp add: proceed_def serve_def serve_break_def split: flow.splits)
  then show ?thesis
    by (simp add: serve_break_def load_mast_forest_sync_def load_def split_def
        finish_load_mast_forest_from_dyn_start_def run_tick [OF E])
qed

lemma proceed_load_external:
  assumes E: "ee_stopper E = never_stopper" and F: "get_node_by_id F i = Some (External d)"
  shows "proceed E (Break (LoadMastForestFromExternal i d) (mk F K m)) =
    after_res (load E d m) (\<lambda>(j, G, m). after_res (node_at G j) (\<lambda>root.
      if is_external root then Some (Inl (BreakErr (OperationErr (CircularExternalNode d))))
      else run E (mk G (StartNode j # EnterForest F # FinishExternal i # K) m)))"
proof -
  have "proceed E (Break (LoadMastForestFromExternal i d) s) =
      proceed E (map_break User (serve_break E (LoadMastForestFromExternal i d) s))" for s
    by (simp add: proceed_def serve_def serve_break_def split: flow.splits)
  then show ?thesis
    by (auto simp: serve_break_def load_mast_forest_sync_def load_def split_def node_at_def [of F] F unwrap_external_def
        finish_load_mast_forest_from_external_def intro!: arg_cong2 [where f = after_res] ext)
qed

lemma run_start_dyn:
  assumes E: "ee_stopper E = never_stopper" and F: "get_node_by_id F i = Some (Dyn dyncall d)"
  shows "proceed E (start_dyn_node E i (mk F K m)) =
    after_res (before_enter E F i m) (\<lambda>m. after_res (enter_dynamic E dyncall m) (\<lambda>(d, m).
    after_res (find_procedure_root F d) (\<lambda>callee. case callee of
      Some j \<Rightarrow> after_res (tick (length K + 2) m) (\<lambda>m. run E (mk F (StartNode j # FinishDyn i # K) m))
    | None \<Rightarrow> after_res (load E d m) (\<lambda>(j, G, m). after_res (tick (length K + 3) m) (\<lambda>m.
        run E (mk G (StartNode j # EnterForest F # FinishDyn i # K) m))))))"
  by (auto simp: start_dyn_node_def implements_proceed [OF decorators_implement(1)] node_at_def F unwrap_dyn_def
      enter_dynamic_def after_res_def run_tick [OF E, unfolded after_res_def] numeral_3_eq_3
      proceed_load_dyn [OF E, unfolded after_res_def] res_map_def
      split: sum.splits option.splits prod.splits intro!: ext)

lemma run_start_external:
  assumes E: "ee_stopper E = never_stopper" and F: "get_node_by_id F i = Some (External d)"
  shows "proceed E (execute_external_node E i (mk F K m)) =
    after_res (before_enter E F i m) (\<lambda>m. after_res (load E d m) (\<lambda>(j, G, m). after_res (node_at G j) (\<lambda>root.
      if is_external root then Some (Inl (BreakErr (OperationErr (CircularExternalNode d))))
      else run E (mk G (StartNode j # EnterForest F # FinishExternal i # K) m))))"
  by (simp add: execute_external_node_def implements_proceed [OF decorators_implement(1)] node_at_def [of F] F
      unwrap_external_def proceed_load_external [OF assms])

section \<open>The engine implements the evaluator\<close>

text \<open>\<open>below a b\<close>: \<open>a\<close> is undefined or is \<open>b\<close>.\<close>

definition below :: "'a option \<Rightarrow> 'a option \<Rightarrow> bool" where
  "below a b \<longleftrightarrow> a = None \<or> a = b"

lemma below_after_res: "(\<And>x. r = Inr x \<Longrightarrow> below (f x) (g x)) \<Longrightarrow> below (after_res r f) (after_res r g)"
  by (cases r) (auto simp: below_def)

lemma below_refl [simp]: "below a a"
  by (simp add: below_def)

definition node_ok :: "nat \<Rightarrow> ('m, 'q, 'h) exec_env \<Rightarrow> bool" where
  "node_ok fuel E \<longleftrightarrow> (\<forall>F K i m g. (\<forall>m. below (g m) (run E (mk F K m))) \<longrightarrow>
     below (after_opt (eval_node fuel E F (length K) i m) g) (run E (mk F (StartNode i # K) m)))"

definition loop_ok :: "nat \<Rightarrow> ('m, 'q, 'h) exec_env \<Rightarrow> bool" where
  "loop_ok fuel E \<longleftrightarrow> (\<forall>F K i body d m g. get_node_by_id F i = Some (Loop body d) \<longrightarrow>
     (\<forall>m. below (g m) (run E (mk F K m))) \<longrightarrow>
     below (after_opt (eval_loop fuel E F (length K) i body m) g) (run E (mk F (StartNode body # FinishLoop i True # K) m)))"

lemma node_okD:
  assumes "node_ok fuel E" and "n = length K" and "\<And>m. below (g m) (run E (mk F K m))"
  shows "below (after_opt (eval_node fuel E F n i m) g) (run E (mk F (StartNode i # K) m))"
  using assms unfolding node_ok_def by blast

lemma loop_okD:
  assumes "loop_ok fuel E" and "get_node_by_id F i = Some (Loop body d)" and "\<And>m. below (g m) (run E (mk F K m))"
  shows "below (after_opt (eval_loop fuel E F (length K) i body m) g) (run E (mk F (StartNode body # FinishLoop i True # K) m))"
  using assms unfolding loop_ok_def by blast

lemma loop_ok_Suc:
  assumes E: "ee_stopper E = never_stopper" and n: "node_ok fuel E" and l: "loop_ok fuel E"
  shows "loop_ok (Suc fuel) E"
  unfolding loop_ok_def
proof (intro allI impI)
  fix F K i body d m g
  assume F: "get_node_by_id F i = Some (Loop body d)" and g: "\<forall>m. below (g m) (run E (mk F K m))"
  show "below (after_opt (eval_loop (Suc fuel) E F (length K) i body m) g) (run E (mk F (StartNode body # FinishLoop i True # K) m))"
    using g by (auto simp: run_finish_loop [OF E F] split_def
        intro!: node_okD [OF n] below_after_res loop_okD [OF l F])
qed

lemma node_ok_Suc:
  assumes E: "ee_stopper E = never_stopper" and n: "node_ok fuel E" and l: "loop_ok fuel E"
  shows "node_ok (Suc fuel) E"
  unfolding node_ok_def
proof (intro allI impI)
  fix F K i m g
  assume g: "\<forall>m. below (g m) (run E (mk F K m))"
  have start: "run E (mk F (StartNode i # K) m) = proceed E (start_node E i (mk F K m))"
    by (simp add: run_step execute_continuation_def)
  note sim = start start_node_def run_block_node [OF E] run_start_join [OF E] run_start_split [OF E] run_start_loop [OF E]
    run_start_call [OF E] run_start_dyn [OF E] run_start_external [OF E] run_finish [OF E] run_finish_dyn [OF E] split_def
  show "below (after_opt (eval_node (Suc fuel) E F (length K) i m) g) (run E (mk F (StartNode i # K) m))"
  proof (cases "get_node_by_id F i")
    case None
    then show ?thesis by (simp add: sim)
  next
    case (Some node)
    then show ?thesis
      using g by (cases node) (auto simp: sim intro!: node_okD [OF n] below_after_res loop_okD [OF l] split: option.splits)
  qed
qed

lemma engine_ok:
  assumes "ee_stopper E = never_stopper"
  shows "node_ok fuel E \<and> loop_ok fuel E"
proof (induction fuel)
  case 0
  then show ?case by (simp add: node_ok_def loop_ok_def below_def)
next
  case (Suc fuel)
  then show ?case using node_ok_Suc loop_ok_Suc assms by blast
qed

lemma run_entry:
  assumes "ee_stopper E = never_stopper" and "eval_node fuel E F 0 i m = Some r"
  shows "run E (mk F [StartNode i] m) = after_res r (\<lambda>m. run E (mk F [] m))"
proof -
  have "below (after_opt (eval_node fuel E F (length ([] :: continuation list)) i m) (\<lambda>m. run E (mk F [] m)))
      (run E (mk F [StartNode i] m))"
    using engine_ok [OF assms(1), of fuel] by (intro node_okD) simp_all
  then show ?thesis
    using assms(2) by (cases r) (auto simp: below_def run_nil)
qed

text \<open>The result of a program, from the evaluator.\<close>

definition eval_program ::
    "nat \<Rightarrow> ('m, 'q) crypto_lib \<Rightarrow> hash_lib \<Rightarrow> ('m, 'h) sync_host \<Rightarrow> 'm fast_processor \<Rightarrow> mast_program \<Rightarrow> 'h \<Rightarrow>
     ('m execution_output \<times> 'h) res option" where
  "eval_program fuel X H host p program h =
     seq (Some (res_map_err AdviceErr (extend_map (fp_advice p) (mf_advice_map (mp_forest program))))) (\<lambda>a.
     seq (eval_node fuel (run_env X H host never_stopper (mp_kernel program)) (mp_forest program) 0 (mp_entrypoint program)
            (p\<lparr>fp_advice := a\<rparr>, h)) (\<lambda>(p, h).
     Some (res_map (\<lambda>outputs. (into_execution_output p outputs, h)) (final_stack_outputs p))))"

lemma execution_result_run:
  "map_option execution_result_from_flow (fp_execute_impl E s) =
   map_option (\<lambda>r. case r of
      Inl (BreakErr e) \<Rightarrow> Inl e
    | Inl (Stopped c) \<Rightarrow> Inl (Panic ''Execution never stops prematurely with NeverStopper'')
    | Inr (outputs, s) \<Rightarrow> Inr (into_execution_output (es_processor s) outputs, es_host s)) (run E s)"
  by (auto simp: run_def execution_result_from_flow_def option.map_comp comp_def
      split: sum.splits break_reason.splits intro!: option.map_cong)

lemma execute_sync_evaluates:
  assumes "eval_program fuel X H host p program h = Some r"
  shows "execute_sync X H host p program h = Some r"
proof (cases "res_map_err AdviceErr (extend_map (fp_advice p) (mf_advice_map (mp_forest program)))")
  case (Inl e)
  then show ?thesis
    using assms by (simp add: eval_program_def execute_sync_def seq_def)
next
  case (Inr a)
  let ?E = "run_env X H host never_stopper (mp_kernel program)"
  let ?m = "(p\<lparr>fp_advice := a\<rparr>, h)"
  obtain q where q: "eval_node fuel ?E (mp_forest program) 0 (mp_entrypoint program) ?m = Some q"
    using assms Inr by (cases "eval_node fuel ?E (mp_forest program) 0 (mp_entrypoint program) ?m")
      (auto simp: eval_program_def seq_def)
  have "ee_stopper ?E = never_stopper"
    by (simp add: run_env_def)
  from run_entry [OF this q] show ?thesis
    using assms Inr q
    by (cases q) (auto simp: execute_sync_def execution_result_run continuation_stack_new_def eval_program_def seq_def
        mk.simps run_nil res_map_def split: sum.splits prod.splits)
qed

end
