(* ===== verification/Vm_Safety.thy ===== *)
theory Vm_Safety
  imports Fast_Processor
begin

text \<open>
  Consequences of the refinement for \<open>FastProcessor\<close>: the constructor establishes the buffer
  invariant with the program inputs on top of the stack, the abstract machine never panics, and its
  stack depth follows the classification of the operations.  The runs considered here are sequences
  of operations (\<open>run_ops\<close>), as executed for the operations of a basic block.
\<close>

section \<open>The initial state\<close>

lemma fold_inputs:
  assumes "length xs \<le> n"
  shows "fold (\<lambda>(i, x) st. st(n - 1 - i := x)) (zip [0..<length xs] xs) (\<lambda>_. 0) j =
     (if j < n \<and> n - 1 - j < length xs then xs ! (n - 1 - j) else 0)"
  using assms
proof (induction xs rule: rev_induct)
  case (snoc x xs)
  have "zip [0..<length (xs @ [x])] (xs @ [x]) = zip [0..<length xs] xs @ [(length xs, x)]"
    by simp
  with snoc show ?case by (auto simp: nth_append)
qed simp

lemma new_with_options_view:
  assumes "length xs \<le> 16"
  shows "fp_good (new_with_options xs adv opts)"
    and "fp_view (new_with_options xs adv opts) =
      \<lparr>v_stack = xs @- zeros, v_depth = 16, v_clk = 0, v_ctx = 0, v_caller = EMPTY_WORD, v_mem = memory_new,
       v_adv = advice_from_inputs adv, v_calls = [], v_transcript = EMPTY_WORD, v_options = opts\<rparr>"
proof -
  let ?f = "fold (\<lambda>(i, input) st. st(249 - i := input)) (zip [0..<length xs] xs) (\<lambda>_. 0 :: felt)"
  have f: "?f j = (if j < 250 \<and> 249 - j < length xs then xs ! (249 - j) else 0)" for j
    using fold_inputs [of xs 250 j] assms by simp
  show "fp_good (new_with_options xs adv opts)"
    using assms by (auto simp: fp_good_def new_with_options_def f)
  have "buf_view ?f 250 = xs @- zeros"
    by (rule stream_eqI) (use assms in \<open>auto simp: f\<close>)
  then show "fp_view (new_with_options xs adv opts) =
      \<lparr>v_stack = xs @- zeros, v_depth = 16, v_clk = 0, v_ctx = 0, v_caller = EMPTY_WORD, v_mem = memory_new,
       v_adv = advice_from_inputs adv, v_calls = [], v_transcript = EMPTY_WORD, v_options = opts\<rparr>"
    by (simp add: fp_view_def new_with_options_def)
qed

section \<open>No panics\<close>

definition panics :: "'a res \<Rightarrow> bool" where
  "panics m = (\<exists>msg. m = Inl (Panic msg))"

lemma panics_simps [simp]:
  "\<not> panics (Inr x)" "\<not> panics (Inl (OperationErr e))" "\<not> panics (Inl (MemoryErr e'))"
  "\<not> panics (Inl (AdviceErr a))" "\<not> panics (Inl (AceChipError s))" "\<not> panics (Inl (Internal s))"
  "panics (Inl (Panic s))"
  by (simp_all add: panics_def)

lemma panics_bind: "panics (res_bind m f) \<longleftrightarrow> panics m \<or> (\<exists>x. m = Inr x \<and> panics (f x))"
  by (cases m) (auto simp: panics_def)

lemma panics_map [simp]: "panics (res_map f m) \<longleftrightarrow> panics m"
  by (cases m) (auto simp: panics_def)

lemma panics_map_err [simp]:
  "\<not> panics (res_map_err OperationErr m)" "\<not> panics (res_map_err MemoryErr n)" "\<not> panics (res_map_err AdviceErr k)"
  "\<not> panics (res_map_err (\<lambda>_. OperationErr e) l)"
  by (cases m, simp_all) (cases n, simp_all, cases k, simp_all, cases l, simp_all)

lemma panics_ok_or [simp]: "panics (ok_or m e) \<longleftrightarrow> m = None \<and> panics (Inl e :: unit res)"
  by (cases m) (simp_all add: panics_def)

lemma hash_no_panic [simp]: "\<not> panics (hash_verify X r w q i e)" "\<not> panics (hash_update X r w w' q i e)"
  by (simp_all add: hash_verify_def hash_update_def)

lemma read_vars_no_panic: "\<not> panics (read_vars rd k p vs)"
  by (induction rd k p vs rule: read_vars.induct) (auto simp: panics_bind)

lemma gate_value_no_panic: "\<not> panics (gate_value n vs g)"
  by (auto simp: gate_value_def panics_bind)

lemma eval_gates_no_panic: "\<not> panics (eval_gates rd n k p vs)"
  by (induction rd n k p vs rule: eval_gates.induct) (auto simp: panics_bind gate_value_no_panic)

lemma isa_eval_circuit_no_panic: "\<not> panics (isa_eval_circuit \<sigma>)"
  by (auto simp: isa_eval_circuit_def circuit_values_def Let_def panics_bind read_vars_no_panic eval_gates_no_panic)

lemma machine_op_no_panic: "op \<noteq> Emit \<Longrightarrow> \<not> panics (machine_op X resolve op \<sigma>)"
  by (cases op) (auto simp: isa_defs Let_def panics_bind isa_eval_circuit_no_panic split: prod.split)

lemma isa_no_panic: "op \<noteq> Emit \<Longrightarrow> \<not> panics (isa X resolve op \<sigma>)"
  by (simp add: isa_def machine_op_no_panic split: option.split)

lemma sim_no_panic: "sim good view m am \<Longrightarrow> \<not> panics am \<Longrightarrow> \<not> panics m"
  by (auto simp: sim_def panics_def split: sum.splits)

section \<open>Stack overflow\<close>

text \<open>A handler runs out of stack space only when the processor refuses to grow the stack.  The
  contract \<open>bounded_stack\<close>: no other function of the processor reports an overflow.\<close>

definition overflows :: "'a res \<Rightarrow> bool" where
  "overflows m = (m = Inl stack_overflow)"

lemma overflows_simps [simp]:
  "\<not> overflows (Inr x)" "\<not> overflows (Inl (OperationErr e))" "\<not> overflows (Inl (MemoryErr e'))"
  "\<not> overflows (Inl (AdviceErr a))" "\<not> overflows (Inl (AceChipError t))" "\<not> overflows (Inl (Panic t))"
  "overflows (Inl stack_overflow)"
  by (simp_all add: overflows_def)

lemma overflows_bind: "overflows (res_bind m f) \<longleftrightarrow> overflows m \<or> (\<exists>x. m = Inr x \<and> overflows (f x))"
  by (cases m) (auto simp: overflows_def)

lemma overflows_map_err [simp]:
  "\<not> overflows (res_map_err OperationErr m)" "\<not> overflows (res_map_err MemoryErr n)" "\<not> overflows (res_map_err AdviceErr k)"
  "\<not> overflows (res_map_err (\<lambda>_. OperationErr e) l)"
  by (cases m, simp_all) (cases n, simp_all, cases k, simp_all, cases l, simp_all)

lemma overflows_ok_or [simp]: "overflows (ok_or m e) \<longleftrightarrow> m = None \<and> e = stack_overflow"
  by (cases m) (simp_all add: overflows_def)

lemma overflows_ensure [simp]: "overflows (ensure b e) \<longleftrightarrow> \<not> b \<and> e = stack_overflow"
  by (simp add: ensure_def overflows_def)

lemma overflows_usize_sub [simp]: "\<not> overflows (usize_sub a b)"
  by (simp add: usize_sub_def)

lemma overflows_map [simp]: "overflows (res_map f m) \<longleftrightarrow> overflows m"
  by (cases m) (auto simp: overflows_def)

lemma overflows_fold: "(\<And>x s. \<not> overflows (f x s)) \<Longrightarrow> \<not> overflows (res_fold f xs s)"
  by (induction xs arbitrary: s) (auto simp: overflows_bind)

lemma fword_is_FWord: "(\<forall>a b c d. w \<noteq> FWord a b c d) \<longleftrightarrow> False"
  by (cases w) simp

locale bounded_stack =
  fixes P :: "('s, 'q) processor"
  assumes stack_fns: "\<not> overflows (get P s i)" "\<not> overflows (get_word P s i)" "\<not> overflows (depth P s)"
      "\<not> overflows (set_at P s i x)" "\<not> overflows (set_word P s i w)" "\<not> overflows (swap P s i j)"
      "\<not> overflows (swapw_nth P s i)" "\<not> overflows (rotate_left P s i)" "\<not> overflows (rotate_right P s i)"
      "\<not> overflows (decrement_size P s)"
    and hasher_fns: "\<not> overflows (permute P s h)" "\<not> overflows (verify_merkle_root P s w w' q x e)"
      "\<not> overflows (update_merkle_root P s w w' w'' q x e)"
begin

lemma read_operands_no_overflow: "\<not> overflows (read_operands P s is)"
  by (induction "is") (auto simp: overflows_bind stack_fns)

lemma circuit_no_overflow: "\<not> overflows (op_eval_circuit P s)"
proof -
  have bus: "\<not> overflows (wire_insert b v)" for b v
    by (simp add: wire_insert_def)
  have "\<not> overflows (circuit_evaluation_new c clk r e)" for c clk r e
    by (simp add: circuit_evaluation_new_def Let_def wire_bus_new_def)
  moreover have "\<not> overflows (ace_read_loop P c clk n p ce t)" for c clk n p ce t
    by (induction n arbitrary: p ce t) (auto simp: overflows_bind do_read_def bus Let_def)
  moreover have "\<not> overflows (ace_eval_loop P c n p ce t)" for c n p ce t
    by (induction n arbitrary: p ce t) (auto simp: overflows_bind do_eval_def bus Let_def)
  ultimately show ?thesis
    by (auto simp: op_eval_circuit_def eval_circuit_impl_def overflows_bind stack_fns Let_def)
qed

lemma advpop_overflow:
  "overflows (op_advpop P s) \<Longrightarrow> \<exists>x t. pop_stack P s = Inr (x, t) \<and> overflows (increment_size P t)"
  by (cases "pop_stack P s") (auto simp: op_advpop_def overflows_bind stack_fns)

lemma fri_no_overflow: "\<not> overflows (op_fri_ext2fold4 P s)"
proof -
  have "\<not> overflows (get_query_values P s)"
    by (auto simp: get_query_values_def overflows_bind stack_fns split: fword.split)
  then show ?thesis
    by (simp add: op_fri_ext2fold4_def bit_reverse_segment_def get_tau_factor_def get_domain_segment_flags_def
        overflows_bind stack_fns Let_def split: prod.split)
qed

lemma no_overflow_unless_growing:
  "overflows (execute_op X P resolve op s) \<Longrightarrow> increments_stack_size op \<and>
     (overflows (increment_size P s) \<or> (\<exists>x t. pop_stack P s = Inr (x, t) \<and> overflows (increment_size P t)))"
  using advpop_overflow fri_no_overflow
  by (cases op)
     (auto simp: increments_stack_size_def op_defs get_double_word_def overflows_bind stack_fns hasher_fns Let_def
       read_operands_no_overflow circuit_no_overflow fword_is_FWord simp del: op_advpop_def op_fri_ext2fold4_def
       split: prod.splits if_splits option.splits fword.splits)

end

lemma fp_buffer_no_overflow:
  "\<not> overflows (stack_get p i)" "\<not> overflows (stack_depth p)" "\<not> overflows (stack_write p i x)"
  "\<not> overflows (buf_copy_from_slice p i xs)" "\<not> overflows (buf_slice p i j)" "\<not> overflows (word_from_slice xs)"
  "\<not> overflows (buf_get p i)" "\<not> overflows (buf_set p i x)"
  by (auto simp: stack_get_def stack_depth_def stack_write_def buf_copy_from_slice_def buf_slice_def
      word_from_slice_def buf_get_def buf_set_def overflows_bind)

interpretation fp_bounded: bounded_stack "fast_processor_impl X" for X :: "('m, 'q) crypto_lib"
proof
  fix s :: "'m fast_processor" and w w' w'' :: fword and q :: "'q option" and x e
  have "\<not> overflows (reset_stack_in_buffer s n)" for n
    by (auto simp: reset_stack_in_buffer_def overflows_bind fp_buffer_no_overflow)
  then show "\<not> overflows (decrement_size (fast_processor_impl X) s)"
    by (auto simp: fast_processor_impl_def decrement_stack_size_def overflows_bind split: if_splits)
qed (auto simp: fast_processor_impl_def stack_get_word_def stack_write_word_def stack_swap_def fp_swapw_nth_def
  fp_rotate_left_def fp_rotate_right_def fp_verify_merkle_root_def fp_update_merkle_root_def overflows_bind
  fp_buffer_no_overflow overflows_fold split: option.splits)

lemma fp_overflow_condition:
  assumes "fp_good p" "overflows (execute_op X (fast_processor_impl X) resolve op p)"
  shows "increments_stack_size op" "stack_top_idx p = STACK_BUFFER_SIZE - 1"
proof -
  have inc: "stack_top_idx q = 6849" if "overflows (increment_size (fast_processor_impl X) q)" "stack_top_idx q \<le> 6849" for q
    using that by (auto simp: fast_processor_impl_def fp_increment_size_def split: if_splits)
  have top: "stack_top_idx p \<le> 6849" using assms(1) by (simp add: fp_good_def)
  have pop: "stack_top_idx t = stack_top_idx p" if "pop_stack (fast_processor_impl X) p = Inr (x, t)" for x t
    using that by (cases "adv_pop_stack (fp_advice p)") (auto simp: fast_processor_impl_def with_advice_def)
  show "increments_stack_size op"
    using fp_bounded.no_overflow_unless_growing [OF assms(2)] by simp
  show "stack_top_idx p = STACK_BUFFER_SIZE - 1"
    using fp_bounded.no_overflow_unless_growing [OF assms(2)] inc [of p] inc top pop by fastforce
qed

lemma fp_progress:
  assumes "fp_good p" "isa X resolve op (fp_view p) = Inr \<sigma>"
    and "\<not> increments_stack_size op \<or> stack_top_idx p < STACK_BUFFER_SIZE - 1"
  shows "\<exists>p'. execute_op X (fast_processor_impl X) resolve op p = Inr p' \<and> fp_good p' \<and> fp_view p' = \<sigma>"
  using fp.execute_op_sim [OF assms(1), of X resolve op] fp_overflow_condition [OF assms(1), of X resolve op] assms(2,3)
  by (cases "execute_op X (fast_processor_impl X) resolve op p") (auto simp: sim_def overflows_def)

section \<open>Depth\<close>

lemma vset_depth [simp]: "v_depth (vset i x \<sigma>) = v_depth \<sigma>" "v_depth (vset_word i w \<sigma>) = v_depth \<sigma>"
  by (simp_all add: vset_def vset_word_def)

lemma isa_depth:
  assumes "isa X resolve op \<sigma> = Inr \<sigma>'"
  shows "v_depth \<sigma>' = depth_after op (v_depth \<sigma>)"
proof (cases "stack_op resolve op")
  case None
  with assms have "machine_op X resolve op \<sigma> = Inr \<sigma>'" by (simp add: isa_def)
  with None show ?thesis
    by (cases op)
       (auto simp: depth_after_def increments_stack_size_def decrements_stack_size_def isa_defs
         isa_eval_circuit_def vpush_def vpop_def vshrink_def Let_def res_bind_eq_Inr split: prod.splits if_splits)
next
  case (Some f)
  with assms show ?thesis by (cases "f (v_stack \<sigma>)") (auto simp: isa_def)
qed

text \<open>Operations do not touch the clock, the options, the context, the hash of its caller and the suspended contexts.\<close>

lemma vset_frame [simp]:
  "v_clk (vset i x \<sigma>) = v_clk \<sigma>" "v_clk (vset_word i w \<sigma>) = v_clk \<sigma>"
  "v_options (vset i x \<sigma>) = v_options \<sigma>" "v_options (vset_word i w \<sigma>) = v_options \<sigma>"
  "v_calls (vset i x \<sigma>) = v_calls \<sigma>" "v_calls (vset_word i w \<sigma>) = v_calls \<sigma>"
  "v_ctx (vset i x \<sigma>) = v_ctx \<sigma>" "v_ctx (vset_word i w \<sigma>) = v_ctx \<sigma>"
  "v_caller (vset i x \<sigma>) = v_caller \<sigma>" "v_caller (vset_word i w \<sigma>) = v_caller \<sigma>"
  by (simp_all add: vset_def vset_word_def)

lemma isa_frame:
  assumes "isa X resolve op \<sigma> = Inr \<sigma>'"
  shows "v_clk \<sigma>' = v_clk \<sigma> \<and> v_options \<sigma>' = v_options \<sigma> \<and> v_calls \<sigma>' = v_calls \<sigma> \<and>
    v_ctx \<sigma>' = v_ctx \<sigma> \<and> v_caller \<sigma>' = v_caller \<sigma>"
proof (cases "stack_op resolve op")
  case None
  with assms have "machine_op X resolve op \<sigma> = Inr \<sigma>'" by (simp add: isa_def)
  with None show ?thesis
    by (cases op)
       (auto simp: isa_defs isa_eval_circuit_def vpush_def vpop_def vshrink_def Let_def res_bind_eq_Inr
         split: prod.splits if_splits)
next
  case (Some f)
  with assms show ?thesis by (cases "f (v_stack \<sigma>)") (auto simp: isa_def)
qed

lemma depth_after_min: "16 \<le> d \<Longrightarrow> 16 \<le> depth_after op d"
  by (simp add: depth_after_def)

section \<open>Sequences of operations\<close>

definition run_ops :: "('m, 'q) crypto_lib \<Rightarrow> ('s, 'q) processor \<Rightarrow> (felt \<Rightarrow> string option) \<Rightarrow> operation list \<Rightarrow> 's \<Rightarrow> 's res" where
  "run_ops X P resolve ops s = res_fold (execute_op X P resolve) ops s"

definition run_isa :: "('m, 'q) crypto_lib \<Rightarrow> (felt \<Rightarrow> string option) \<Rightarrow> operation list \<Rightarrow> 'm vm \<Rightarrow> 'm vm res" where
  "run_isa X resolve ops \<sigma> = res_fold (isa X resolve) ops \<sigma>"

lemma run_isa_no_panic: "Emit \<notin> set ops \<Longrightarrow> \<not> panics (run_isa X resolve ops \<sigma>)"
  by (induction ops arbitrary: \<sigma>) (auto simp: run_isa_def panics_bind isa_no_panic)

context processor_laws
begin

lemma run_ops_sim: "good s \<Longrightarrow> sim good view (run_ops X P resolve ops s) (run_isa X resolve ops (view s))"
proof (induction ops arbitrary: s)
  case (Cons op ops)
  show ?case
    unfolding run_ops_def run_isa_def res_fold.simps
    by (rule sim_bind [OF execute_op_sim [OF Cons.prems]])
       (use Cons.IH in \<open>simp add: run_ops_def run_isa_def\<close>)
qed (simp add: run_ops_def run_isa_def sim_def)

end

section \<open>Effects on the processor\<close>

lemma call_return_effect:
  assumes g: "fp_good p" and save: "fp_save_context_and_truncate_stack p = Inr p1"
    and g2: "fp_good p2" and calls: "call_stack p2 = call_stack p1"
  shows "stack_size p1 = Inr 16 \<and> v_stack (fp_view p1) = stake 16 (v_stack (fp_view p)) @- zeros \<and>
    (if v_depth (fp_view p2) > 16
     then fp_restore_context p2 = Inl (OperationErr (InvalidStackDepthOnReturn (v_depth (fp_view p2))))
     else \<exists>p3. fp_restore_context p2 = Inr p3 \<and> fp_good p3 \<and>
       v_stack (fp_view p3) = stake 16 (v_stack (fp_view p2)) @- sdrop 16 (v_stack (fp_view p)) \<and>
       v_depth (fp_view p3) = v_depth (fp_view p) \<and> fp_ctx p3 = fp_ctx p \<and> fp_caller_hash p3 = fp_caller_hash p \<and>
       fp_memory p3 = fp_memory p2 \<and> fp_advice p3 = fp_advice p2 \<and> v_calls (fp_view p3) = v_calls (fp_view p))"
proof -
  have p1: "fp_good p1" "fp_view p1 = vsave (fp_view p)"
    using save_context_yields [OF g] save by (auto simp: yields_def)
  have d1: "v_depth (fp_view p1) = 16" and s1: "v_stack (fp_view p1) = stake 16 (v_stack (fp_view p)) @- zeros"
    unfolding p1(2) by (simp_all add: vsave_def)
  have c2: "v_calls (fp_view p2) = \<lparr>fr_rest = sdrop 16 (v_stack (fp_view p)), fr_count = v_depth (fp_view p) - 16,
      fr_ctx = v_ctx (fp_view p), fr_hash = v_caller (fp_view p)\<rparr> # v_calls (fp_view p)"
    using arg_cong [OF p1(2), of v_calls] calls by (simp add: vsave_def)
  have d: "16 \<le> v_depth (fp_view p)" by (rule fp_stack_views(4) [OF g])
  have S: "sim_state fp_good fp_view (fp_restore_context p2) (vrestore (fp_view p2))"
    by (rule restore_context_sim [OF g2])
  have "if v_depth (fp_view p2) > 16
     then fp_restore_context p2 = Inl (OperationErr (InvalidStackDepthOnReturn (v_depth (fp_view p2))))
     else \<exists>p3. fp_restore_context p2 = Inr p3 \<and> fp_good p3 \<and> Inr (fp_view p3) = vrestore (fp_view p2)"
    using S c2 by (cases "fp_restore_context p2") (auto simp: sim_state_def vrestore_def simp del: fp_view_simps split: if_splits)
  moreover have "v_stack \<sigma> = stake 16 (v_stack (fp_view p2)) @- sdrop 16 (v_stack (fp_view p)) \<and>
       v_depth \<sigma> = v_depth (fp_view p) \<and> v_ctx \<sigma> = v_ctx (fp_view p) \<and> v_caller \<sigma> = v_caller (fp_view p) \<and>
       v_mem \<sigma> = v_mem (fp_view p2) \<and> v_adv \<sigma> = v_adv (fp_view p2) \<and> v_calls \<sigma> = v_calls (fp_view p)"
    if "Inr \<sigma> = vrestore (fp_view p2)" for \<sigma>
    using that c2 d by (auto simp: vrestore_def simp del: fp_view_simps split: if_splits)
  ultimately show ?thesis
    using s1 d1 p1(1) by (fastforce simp: stack_size_def fp_good_def split: if_splits)
qed

lemma circuit_accepted_iff:
  fixes nv ne :: felt
  assumes "fp_good p"
  shows "is_ok (eval_circuit_impl (fast_processor_impl X) c ptr clk nv ne p)
    \<longleftrightarrow> nat (Rep_felt nv) + nat (Rep_felt ne) < 2 ^ 30 \<and> even (nat (Rep_felt nv)) \<and> nv \<noteq> 0 \<and>
      4 dvd nat (Rep_felt ne) \<and> ne \<noteq> 0 \<and>
      (\<exists>vs. circuit_values (fp_memory p) c ptr (nat (Rep_felt nv)) (nat (Rep_felt ne)) = Inr vs \<and> last vs = 0)"
      (is "?L \<longleftrightarrow> ?R")
    and "eval_circuit_impl (fast_processor_impl X) c ptr clk nv ne p = Inr (ce, p') \<Longrightarrow>
      fp_view p' = fp_view p \<and>
      circuit_values (fp_memory p) c ptr (nat (Rep_felt nv)) (nat (Rep_felt ne)) = Inr (map fst (wires (ce_bus ce))) \<and>
      length (wires (ce_bus ce)) = nat (Rep_felt nv) + nat (Rep_felt ne) \<and>
      sum_list (map (unat \<circ> snd) (wires (ce_bus ce))) = 2 * nat (Rep_felt ne)"
proof -
  let ?a = "nat (Rep_felt nv)" and ?b = "nat (Rep_felt ne)"
  let ?r = "eval_circuit_impl (fast_processor_impl X) c ptr clk nv ne p"
  let ?v = "circuit_values (fp_memory p) c ptr ?a ?b"
  have V: "case ?v of Inl x \<Rightarrow> ?r = Inl x
    | Inr vs \<Rightarrow> if last vs \<noteq> 0 then ?r = Inl (ace_error ''circuit does not evaluate to zero'')
        else \<exists>ce s'. ?r = Inr (ce, s') \<and> fp_good s' \<and> fp_view s' = fp_view p \<and> ce_inv (?a + ?b) vs (?a div 2) ?b ce"
    if "?a + ?b < 2 ^ 30 \<and> ?a mod 2 = 0 \<and> ?a \<noteq> 0 \<and> ?b mod 4 = 0 \<and> ?b \<noteq> 0"
    by (rule fp.eval_circuit_impl_values [OF assms, unfolded fp_view_simps]) (use that in blast)+
  have guard: "?a + ?b < 2 ^ 30 \<and> ?a mod 2 = 0 \<and> ?a \<noteq> 0 \<and> ?b mod 4 = 0 \<and> ?b \<noteq> 0" if "is_ok ?r"
    using that by (auto simp: eval_circuit_impl_def too_many_wires u64_mod_zero unat_canonical Let_def split: if_splits)
  show "?L \<longleftrightarrow> ?R"
  proof
    assume ?L
    from V [OF guard [OF this]] this guard [OF this] show ?R
      by (auto split: sum.splits if_splits simp: dvd_eq_mod_eq_0)
  next
    assume ?R
    then have "?a + ?b < 2 ^ 30 \<and> ?a mod 2 = 0 \<and> ?a \<noteq> 0 \<and> ?b mod 4 = 0 \<and> ?b \<noteq> 0" by auto
    from V [OF this] \<open>?R\<close> show ?L by auto
  qed
  assume r: "?r = Inr (ce, p')"
  then have g: "?a + ?b < 2 ^ 30 \<and> ?a mod 2 = 0 \<and> ?a \<noteq> 0 \<and> ?b mod 4 = 0 \<and> ?b \<noteq> 0" using guard by simp
  with V r obtain vs where vs: "?v = Inr vs" "fp_view p' = fp_view p" "ce_inv (?a + ?b) vs (?a div 2) ?b ce"
    by (auto split: sum.splits if_splits)
  have "2 * (?a div 2) = ?a" using g by auto
  with vs show "fp_view p' = fp_view p \<and> ?v = Inr (map fst (wires (ce_bus ce))) \<and>
      length (wires (ce_bus ce)) = ?a + ?b \<and> sum_list (map (unat \<circ> snd) (wires (ce_bus ce))) = 2 * ?b"
    by (auto simp: ce_inv_def bus_inv_def dest: arg_cong [of "map _ _" _ length])
qed

lemma vset_14_15: "vset 14 a (vset 15 b \<sigma>) = \<sigma>\<lparr>v_stack := supd 14 a (supd 15 b (v_stack \<sigma>))\<rparr>"
  by (simp add: vset_def)

lemma isa_horner_base_effect:
  assumes "isa_horner_base \<sigma> = Inr \<sigma>'"
  obtains \<alpha>0 \<alpha>1 r where "mem_read_element (v_mem \<sigma>) (v_ctx \<sigma>) (v_stack \<sigma> !! 13) = Inr \<alpha>0"
    "mem_read_element (v_mem \<sigma>) (v_ctx \<sigma>) (v_stack \<sigma> !! 13 + 1) = Inr \<alpha>1"
    "r = poly_value (map quad_of (stake 8 (v_stack \<sigma>))) (Quad \<alpha>0 \<alpha>1) +
       Quad (v_stack \<sigma> !! 14) (v_stack \<sigma> !! 15) * Quad \<alpha>0 \<alpha>1 ^ 8"
    "\<sigma>' = \<sigma>\<lparr>v_stack := supd 14 (q0 r) (supd 15 (q1 r) (v_stack \<sigma>))\<rparr>"
proof -
  define h where "h \<alpha>0 \<alpha>1 = horner (Quad \<alpha>0 \<alpha>1) (map quad_of (stake 8 (v_stack \<sigma>))) (Quad (v_stack \<sigma> !! 14) (v_stack \<sigma> !! 15))" for \<alpha>0 \<alpha>1
  obtain \<alpha>0 \<alpha>1 where "mem_read_element (v_mem \<sigma>) (v_ctx \<sigma>) (v_stack \<sigma> !! 13) = Inr \<alpha>0"
    "mem_read_element (v_mem \<sigma>) (v_ctx \<sigma>) (v_stack \<sigma> !! 13 + 1) = Inr \<alpha>1"
    "\<sigma>' = vset 14 (q0 (h \<alpha>0 \<alpha>1)) (vset 15 (q1 (h \<alpha>0 \<alpha>1)) \<sigma>)"
    using assms unfolding isa_horner_base_def Let_def h_def by (elim res_bindE) (auto dest!: res_map_err_Inr simp del: snth.simps snth_numeral)
  moreover have "h \<alpha>0 \<alpha>1 = poly_value (map quad_of (stake 8 (v_stack \<sigma>))) (Quad \<alpha>0 \<alpha>1) +
       Quad (v_stack \<sigma> !! 14) (v_stack \<sigma> !! 15) * Quad \<alpha>0 \<alpha>1 ^ 8"
    unfolding h_def horner_poly length_map length_stake by (rule add.commute)
  ultimately show thesis using that by (simp only: vset_14_15)
qed

lemma isa_horner_ext_effect:
  assumes "isa_horner_ext \<sigma> = Inr \<sigma>'"
  defines "st \<equiv> v_stack \<sigma>"
  defines "cs \<equiv> [Quad (st !! 0) (st !! 1), Quad (st !! 2) (st !! 3), Quad (st !! 4) (st !! 5), Quad (st !! 6) (st !! 7)]"
  obtains w r where "mem_read_word (v_mem \<sigma>) (v_ctx \<sigma>) (st !! 13) = Inr w"
    "r = poly_value cs (Quad (w0 w) (w1 w)) + Quad (st !! 14) (st !! 15) * Quad (w0 w) (w1 w) ^ 4"
    "\<sigma>' = \<sigma>\<lparr>v_stack := supd 14 (q0 r) (supd 15 (q1 r) st)\<rparr>"
proof -
  define h where "h w = horner (Quad (w0 w) (w1 w)) cs (Quad (st !! 14) (st !! 15))" for w
  obtain w where "mem_read_word (v_mem \<sigma>) (v_ctx \<sigma>) (st !! 13) = Inr w"
    "\<sigma>' = vset 14 (q0 (h w)) (vset 15 (q1 (h w)) \<sigma>)"
    using assms(1) unfolding isa_horner_ext_def Let_def h_def cs_def st_def
    by (elim res_bindE) (auto dest!: res_map_err_Inr simp del: snth.simps snth_numeral)
  moreover have "h w = poly_value cs (Quad (w0 w) (w1 w)) + Quad (st !! 14) (st !! 15) * Quad (w0 w) (w1 w) ^ length cs"
    unfolding h_def horner_poly by (rule add.commute)
  moreover have "length cs = 4" by (simp add: cs_def)
  ultimately show thesis using that by (simp only: vset_14_15 st_def)
qed

lemma fp_isa_effects:
  assumes "fp_good p"
  shows "op_horner_eval_base (fast_processor_impl X) p = Inr p' \<Longrightarrow> isa_horner_base (fp_view p) = Inr (fp_view p')"
    and "op_horner_eval_ext (fast_processor_impl X) p = Inr p' \<Longrightarrow> isa_horner_ext (fp_view p) = Inr (fp_view p')"
    and "op_crypto_stream (fast_processor_impl X) p = Inr p' \<Longrightarrow> isa_crypto_stream (fp_view p) = Inr (fp_view p')"
    and "op_fri_ext2fold4 (fast_processor_impl X) p = Inr p' \<Longrightarrow> isa_fri (fp_view p) = Inr (fp_view p')"
    and "op_log_precompile (fast_processor_impl X) p = Inr p' \<Longrightarrow> isa_log_precompile X (fp_view p) = Inr (fp_view p')"
  using fp.op_horner_eval_base_sim [OF assms, of X] fp.op_horner_eval_ext_sim [OF assms, of X]
    fp.op_crypto_stream_sim [OF assms, of X] fp.op_fri_ext2fold4_sim [OF assms, of X]
    fp.op_log_precompile_sim [OF assms, of X]
  by (simp_all add: sim_def)

text \<open>FRI folding of four values of a polynomial of degree below 4.\<close>

lemma isa_fri_fold:
  assumes "isa_fri \<sigma> = Inr \<sigma>'"
  defines "st \<equiv> v_stack \<sigma>" and "st' \<equiv> v_stack \<sigma>'" and "seg \<equiv> nat (Rep_felt (v_stack \<sigma> !! 9) mod 4)"
  defines "x \<equiv> st !! 10 * TAU_INV ^ segment_rev seg"
  defines "y \<equiv> quad_of x" and "\<tau> \<equiv> quad_of TAU3_INV"
  shows "st !! 10 \<noteq> 0"
    and "[Quad (st !! 0) (st !! 1), Quad (st !! 2) (st !! 3), Quad (st !! 4) (st !! 5), Quad (st !! 6) (st !! 7)] ! seg =
         Quad (st !! 11) (st !! 12)"
    and "st' !! 10 = st !! 15 + 8" "st' !! 11 = (st !! 10) ^ 4" "st' !! 12 = of_int (Rep_felt (st !! 9) div 4)"
    and "\<lbrakk>Quad (st !! 0) (st !! 1) = cubic c y; Quad (st !! 2) (st !! 3) = cubic c (\<tau> ^ 2 * y);
       Quad (st !! 4) (st !! 5) = cubic c (\<tau> * y); Quad (st !! 6) (st !! 7) = cubic c (\<tau> ^ 3 * y)\<rbrakk> \<Longrightarrow>
       Quad (st' !! 13) (st' !! 14) = cubic c (Quad (st !! 13) (st !! 14))"
proof -
  let ?v = "(Quad (st !! 0) (st !! 1), Quad (st !! 2) (st !! 3), Quad (st !! 4) (st !! 5), Quad (st !! 6) (st !! 7))"
  let ?ev = "qscale (Quad (st !! 13) (st !! 14)) (inverse x)"
  obtain w t0 t1 where fold: "fold4 (reorder_bitrev4 ?v) ?ev (?ev * ?ev) = (w, t0, t1)" by (metis prod_cases3)
  have seg': "nat (Rep_felt (st !! 9) mod 4) = seg" by (simp only: seg_def st_def)
  from assms(1) show poe: "st !! 10 \<noteq> 0"
    by (auto simp: isa_fri_def Let_def st_def simp del: snth.simps snth_numeral split: if_splits)
  from assms(1) poe have seg: "quad4_nth ?v seg = Quad (st !! 11) (st !! 12)"
    by (auto simp: isa_fri_def Let_def st_def seg_def simp del: snth.simps snth_numeral split: if_splits)
  then show "[Quad (st !! 0) (st !! 1), Quad (st !! 2) (st !! 3), Quad (st !! 4) (st !! 5), Quad (st !! 6) (st !! 7)] ! seg =
         Quad (st !! 11) (st !! 12)" by (simp only: quad4_nth_def prod.case)
  define xs where "xs = [q0 t0, q1 t0, q0 t1, q1 t1] @ map (\<lambda>i. of_bool (segment_rev seg = i)) [0, 1, 2, 3] @
         [(st !! 10) ^ 2, TAU_INV ^ segment_rev seg, st !! 15 + 8, (st !! 10) ^ 4, of_int (Rep_felt (st !! 9) div 4), q0 w, q1 w]"
  have "isa_fri \<sigma> = Inr (vshrink (xs @- sdrop 16 st) \<sigma>)"
    unfolding isa_fri_def Let_def st_def [symmetric] seg' x_def [symmetric] xs_def
    by (simp only: poe seg fold simp_thms if_False prod.case)
  with assms(1) have st': "st' = xs @- sdrop 16 st" by (auto simp: st'_def vshrink_def)
  have len: "length xs = 15" by (simp add: xs_def)
  have nth: "st' !! i = xs ! i" if "i < 15" for i
    using that by (simp only: st' snth_shift len if_True)
  show "st' !! 10 = st !! 15 + 8" "st' !! 11 = (st !! 10) ^ 4" "st' !! 12 = of_int (Rep_felt (st !! 9) div 4)"
    using nth [of 10] nth [of 11] nth [of 12] by (simp_all add: xs_def del: snth.simps snth_numeral)
  assume v: "Quad (st !! 0) (st !! 1) = cubic c y" "Quad (st !! 2) (st !! 3) = cubic c (\<tau> ^ 2 * y)"
     "Quad (st !! 4) (st !! 5) = cubic c (\<tau> * y)" "Quad (st !! 6) (st !! 7) = cubic c (\<tau> ^ 3 * y)"
  have "x \<noteq> 0" using poe TAU_INV_square by (auto simp: x_def)
  from fold4_cubic [OF this, of c "Quad (st !! 13) (st !! 14)"]
  have "w = cubic c (Quad (st !! 13) (st !! 14))"
    using fold unfolding v reorder_bitrev4_def by (simp add: y_def \<tau>_def)
  moreover have "Quad (st' !! 13) (st' !! 14) = w"
    using nth [of 13] nth [of 14] by (simp add: xs_def del: snth.simps snth_numeral)
  ultimately show "Quad (st' !! 13) (st' !! 14) = cubic c (Quad (st !! 13) (st !! 14))" by simp
qed

section \<open>A sample state\<close>

definition sample_processor :: "unit fast_processor" where
  "sample_processor = new_with_options [3, 4]
     \<lparr>inputs_stack = [], inputs_map = [], inputs_store = ()\<rparr> default_options"

lemma sample_good: "fp_good sample_processor"
  unfolding sample_processor_def by (rule new_with_options_view) simp

lemma sample_view: "fp_view sample_processor =
    \<lparr>v_stack = 3 ## 4 ## zeros, v_depth = 16, v_clk = 0, v_ctx = 0, v_caller = EMPTY_WORD, v_mem = memory_new,
     v_adv = \<lparr>adv_stack = [], adv_map = Map.empty, adv_store = (), adv_pc_requests = []\<rparr>,
     v_calls = [], v_transcript = EMPTY_WORD, v_options = default_options\<rparr>"
  unfolding sample_processor_def by (subst new_with_options_view(2)) (simp_all add: advice_from_inputs_def)

end
