(* ===== verification/Engine_Term.thy ===== *)
theory Engine_Term
  imports Engine_Ref Vm_Safety
begin

text \<open>
  Termination of the engine and what a run preserves.  Every node that is not external takes a clock cycle before
  it comes to its children, an external node resolves to one that is not external, and a clock cycle is granted
  only below the limit of cycles; so a bounded amount of fuel is enough to evaluate any node of any forest, and
  by \<open>Engine_Ref\<close> the engine returns.  The evaluation of a node leaves the context, the hash of its caller and the
  suspended contexts as it found them.
\<close>

section \<open>What evaluation preserves\<close>

text \<open>A processor that has not used up its cycles.\<close>

definition within_limit :: "'m fast_processor \<Rightarrow> bool" where
  "within_limit p \<longleftrightarrow> fp_good p \<and> fp_clk p \<le> max_cycles (fp_options p) \<and> max_cycles (fp_options p) \<le> MAX_CYCLES"

definition same_frame :: "'m vm \<Rightarrow> 'm vm \<Rightarrow> bool" where
  "same_frame \<sigma> \<sigma>' \<longleftrightarrow> v_options \<sigma>' = v_options \<sigma> \<and> v_calls \<sigma>' = v_calls \<sigma> \<and> v_ctx \<sigma>' = v_ctx \<sigma> \<and> v_caller \<sigma>' = v_caller \<sigma>"

text \<open>\<open>goes k p p'\<close>: at least \<open>k\<close> cycles later, in the same context.\<close>

definition goes :: "nat \<Rightarrow> 'm fast_processor \<Rightarrow> 'm fast_processor \<Rightarrow> bool" where
  "goes k p p' \<longleftrightarrow> within_limit p' \<and> same_frame (fp_view p) (fp_view p') \<and> unat (fp_clk p) + k \<le> unat (fp_clk p')"

lemma goes_refl: "within_limit p \<Longrightarrow> goes 0 p p"
  by (simp add: goes_def same_frame_def)

lemma goes_trans: "goes j p p' \<Longrightarrow> goes k p' p'' \<Longrightarrow> goes (j + k) p p''"
  by (auto simp: goes_def same_frame_def)

lemma goes_mono: "goes k p p' \<Longrightarrow> j \<le> k \<Longrightarrow> goes j p p'"
  by (auto simp: goes_def)

lemma goes_within: "goes k p p' \<Longrightarrow> within_limit p'"
  by (simp add: goes_def)

lemma goes_then:
  assumes "goes j p p1" and "within_limit p1 \<Longrightarrow> goes k p1 p2" and "l \<le> j + k"
  shows "goes l p p2"
  using goes_mono [OF goes_trans [OF assms(1) assms(2) [OF goes_within [OF assms(1)]]] assms(3)] .

lemma goes_same:
  assumes "within_limit p" and "fp_good p'" and "v_clk (fp_view p') = v_clk (fp_view p)" and "same_frame (fp_view p) (fp_view p')"
  shows "goes 0 p p'"
  using assms by (auto simp: goes_def within_limit_def same_frame_def)

text \<open>The number of cycles left.\<close>

definition cycles_left :: "'m fast_processor \<Rightarrow> nat" where
  "cycles_left p = unat (max_cycles (fp_options p)) - unat (fp_clk p)"

lemma goes_cycles_left: "goes k p p' \<Longrightarrow> cycles_left p' + k \<le> cycles_left p"
  by (auto simp: goes_def cycles_left_def within_limit_def same_frame_def word_le_nat_alt)

lemma tick_goes:
  assumes "within_limit p" and "tick n (p, h) = Inr (p', h')"
  shows "goes 1 p p'"
proof -
  have "unat (fp_clk p) \<le> 2 ^ 29"
    using assms(1) by (simp add: within_limit_def MAX_CYCLES_def word_le_nat_alt)
  then have c: "unat (fp_clk p + 1) = unat (fp_clk p) + 1"
    by (simp add: unat_plus_simple [THEN iffD1] word_le_nat_alt unat_word_ariths)
  show ?thesis
    using assms c by (auto simp: tick_def goes_def within_limit_def same_frame_def fp_good_def Let_def frame_view_def split: if_splits)
qed

lemma advice_goes: "within_limit p \<Longrightarrow> goes 0 p (p\<lparr>fp_advice := a\<rparr>)"
  by (rule goes_same) (simp_all add: within_limit_def fp_good_def same_frame_def)

text \<open>System events change the advice provider only.\<close>

lemma set_advice_Inr: "set_advice p r = Inr p' \<Longrightarrow> \<exists>a. p' = p\<lparr>fp_advice := a\<rparr>"
  by (auto simp: set_advice_def res_map_def res_bind_eq_Inr)

lemma handle_system_event_advice:
  assumes "handle_system_event X H p ev = Inr p'"
  shows "\<exists>a. p' = p\<lparr>fp_advice := a\<rparr>"
  using assms
  by (cases ev) (auto simp: handle_system_event_def merge_merkle_nodes_def copy_merkle_node_to_adv_stack_def
      copy_map_value_to_adv_stack_def copy_map_value_length_to_adv_stack_def push_key_presence_flag_def
      push_ext2_inv_result_def push_leading_zeros_def push_trailing_zeros_def push_leading_ones_def
      push_trailing_ones_def push_transformed_stack_top_def push_ilog2_def insert_mem_values_into_adv_map_def
      insert_hdword_into_adv_map_def insert_hqword_into_adv_map_def insert_hperm_into_adv_map_def
      res_bind_eq_Inr Let_def split_def dest!: set_advice_Inr)

lemma host_result_Inr: "host_result p r = Inr (p', h') \<Longrightarrow> p' = p"
  by (auto simp: host_result_def split: prod.splits sum.splits)

lemma decorate_one_Inr: "decorate_one E d (p, h) = Inr (p', h') \<Longrightarrow> p' = p"
  by (auto simp: decorate_one_def dest: host_result_Inr split: decorator.splits if_splits)

lemma decorate_Inr: "decorate E ds (p, h) = Inr (p', h') \<Longrightarrow> p' = p"
proof (induction ds arbitrary: h)
  case (Cons d ds)
  then obtain p1 h1 where "decorate_one E d (p, h) = Inr (p1, h1)" "decorate E ds (p1, h1) = Inr (p', h')"
    by (auto simp: res_bind_eq_Inr)
  moreover from this(1) have "p1 = p" by (rule decorate_one_Inr)
  ultimately show ?case using Cons.IH by simp
qed simp

lemma decorators_Inr:
  "before_enter E F i (p, h) = Inr (p', h') \<Longrightarrow> p' = p"
  "after_exit E F i (p, h) = Inr (p', h') \<Longrightarrow> p' = p"
  "before_op E F i k (p, h) = Inr (p', h') \<Longrightarrow> p' = p"
  "end_of_block E F bs i (p, h) = Inr (p', h') \<Longrightarrow> p' = p"
  by (auto simp: before_enter_def after_exit_def before_op_def end_of_block_def res_bind_eq_Inr
      dest: decorate_Inr split: if_splits)

lemma emit_advice:
  assumes "emit E (p, h) = Inr (p', h')"
  shows "\<exists>a. p' = p\<lparr>fp_advice := a\<rparr>"
  using assms by (auto simp: emit_def res_bind_eq_Inr dest: handle_system_event_advice split: option.splits prod.splits)

lemma emit_goes:
  assumes "within_limit p" and "emit E (p, h) = Inr (p', h')"
  shows "goes 0 p p'"
  using emit_advice [OF assms(2)] advice_goes [OF assms(1)] by auto

lemma execute_op_goes:
  assumes "within_limit p" and "execute_op X (fast_processor_impl X) resolve op p = Inr p'"
  shows "goes 0 p p'"
proof -
  have "fp_good p" using assms(1) by (simp add: within_limit_def)
  from fp.execute_op_sim [OF this, of X resolve op] have "fp_good p'" and "isa X resolve op (fp_view p) = Inr (fp_view p')"
    using assms(2) by (simp_all add: sim_def)
  then show ?thesis
    using isa_frame [of X resolve op "fp_view p" "fp_view p'"] by (intro goes_same [OF assms(1)]) (simp_all add: same_frame_def)
qed

lemma run_op_goes:
  assumes "within_limit p" and "run_op E F op (p, h) = Inr (p', h')"
  shows "goes 0 p p'"
  using assms by (auto simp: run_op_def on_proc_def res_map_def res_bind_eq_Inr
      intro: emit_goes execute_op_goes split: if_splits)

lemma load_goes:
  assumes "within_limit p" and "load E d (p, h) = Inr (j, G, (p', h'))"
  shows "goes 0 p p'"
  using assms advice_goes [OF assms(1)] by (auto simp: load_def res_bind_eq_Inr)

text \<open>The operations of the processor that the control flow uses.\<close>

lemma pop_goes:
  assumes "within_limit p" and "decrement_size (fast_processor_impl X) p = Inr p'"
  shows "goes 0 p p'"
  using fp_stack.decrement_law [of p X] assms
  by (intro goes_same [OF assms(1)]) (auto simp: yields_def within_limit_def same_frame_def vpop_def vshrink_def simp del: fp_view_simps)

lemma pop_condition_goes:
  assumes "within_limit p"
  shows "pop_condition E err (p, h) = Inr (c, (p', h')) \<Longrightarrow> goes 0 p p'"
    and "pop_loop_condition E (p, h) = Inr (c, (p', h')) \<Longrightarrow> goes 0 p p'"
  using assms by (auto simp: pop_condition_def pop_loop_condition_def res_bind_eq_Inr res_map_def intro: pop_goes split: if_splits)

text \<open>\<open>entered p p'\<close>: a new context on top of the one of \<open>p\<close>.\<close>

definition entered :: "'m fast_processor \<Rightarrow> 'm fast_processor \<Rightarrow> bool" where
  "entered p p' \<longleftrightarrow> within_limit p' \<and> fp_clk p \<le> fp_clk p' \<and> fp_options p' = fp_options p \<and>
     (\<exists>fr. v_calls (fp_view p') = fr # v_calls (fp_view p) \<and> fr_ctx fr = fp_ctx p \<and> fr_hash fr = fp_caller_hash p)"

lemma save_entered:
  assumes "within_limit p" and "save_context_and_truncate_stack (fast_processor_impl X) p = Inr p'"
  shows "entered p p'"
  using fp_context.save_law [of p X] assms
  by (auto simp: yields_def within_limit_def entered_def vsave_def fp_view_def)

lemma entered_switch:
  assumes "entered p p'" and "fp_good p''"
    and "v_clk (fp_view p'') = v_clk (fp_view p')" "v_options (fp_view p'') = v_options (fp_view p')" "v_calls (fp_view p'') = v_calls (fp_view p')"
  shows "entered p p''"
  using assms by (auto simp: entered_def within_limit_def)

lemma vrestore_frame:
  "vrestore \<sigma> = Inr \<sigma>' \<Longrightarrow> v_calls \<sigma> = fr # frs \<Longrightarrow>
   v_clk \<sigma>' = v_clk \<sigma> \<and> v_options \<sigma>' = v_options \<sigma> \<and> v_calls \<sigma>' = frs \<and> v_ctx \<sigma>' = fr_ctx fr \<and> v_caller \<sigma>' = fr_hash fr"
  by (auto simp: vrestore_def split: if_splits)

lemma restore_goes:
  assumes "entered p p1" and "goes k p1 p2" and "restore_context (fast_processor_impl X) p2 = Inr p'"
  shows "goes k p p'"
proof -
  have "fp_good p2" using assms(2) by (simp add: goes_def within_limit_def)
  from fp_context.restore_law [OF this, of X] have "fp_good p'" and r: "vrestore (fp_view p2) = Inr (fp_view p')"
    using assms(3) by (simp_all add: sim_state_def)
  moreover obtain fr where fr: "v_calls (fp_view p2) = fr # v_calls (fp_view p)" "fr_ctx fr = fp_ctx p" "fr_hash fr = fp_caller_hash p"
    using assms(1,2) by (auto simp: entered_def goes_def same_frame_def)
  ultimately show ?thesis
    using vrestore_frame [OF r fr(1)] assms(1,2)
    by (auto simp: goes_def same_frame_def within_limit_def entered_def word_le_nat_alt)
qed

lemma set_ctx_entered: "entered p p' \<Longrightarrow> entered p (set_ctx (fast_processor_impl X) p' c)"
  using fp_system.set_ctx_law [of p' X c] by (rule_tac entered_switch) (auto simp: entered_def within_limit_def fp_view_def)

lemma set_caller_hash_entered: "entered p p' \<Longrightarrow> entered p (set_caller_hash (fast_processor_impl X) p' w)"
  using fp_system.set_caller_hash_law [of p' X w] by (rule_tac entered_switch) (auto simp: entered_def within_limit_def fp_view_def)

lemma write_element_entered:
  assumes "entered p p'" and "write_element (fast_processor_impl X) p' c a x = Inr p''"
  shows "entered p p''"
proof -
  have "fp_good p'" using assms(1) by (simp add: entered_def within_limit_def)
  from fp_memory.write_element_law [OF this, of X c a x] assms(2)
  obtain m where "fp_good p''" "(fp_view p')\<lparr>v_mem := m\<rparr> = fp_view p''"
    by (auto simp: sim_state_def res_map_def res_bind_eq_Inr)
  then show ?thesis by (intro entered_switch [OF assms(1)]) (auto simp del: fp_view_simps dest!: sym [of _ "fp_view p''"])
qed

lemma enter_call_entered:
  assumes "within_limit p" and "enter_call E F callee is_syscall p = Inr p'"
  shows "entered p p'"
  using assms save_entered [OF assms(1)]
  by (auto simp: enter_call_def res_bind_eq_Inr Let_def dest!: res_map_err_Inr
      intro: set_ctx_entered write_element_entered [OF set_caller_hash_entered [OF set_ctx_entered]] split: if_splits)

lemma read_word_goes:
  assumes "within_limit p" and "read_word (fast_processor_impl X) p c a k = Inr (w, p')"
  shows "goes 0 p p'"
proof -
  have "fp_good p" using assms(1) by (simp add: within_limit_def)
  from fp_memory.read_word_law [OF this, of X c a k] assms(2) have "fp_good p'" "fp_view p' = fp_view p"
    by (auto simp: sim_val_def res_map_def res_bind_eq_Inr dest!: sym [of _ "Inr _"])
  then show ?thesis by (intro goes_same [OF assms(1)]) (simp_all add: same_frame_def del: fp_view_simps)
qed

lemma entered_goes: "goes 0 p p' \<Longrightarrow> entered p' p'' \<Longrightarrow> entered p p''"
  by (auto simp: goes_def entered_def same_frame_def word_le_nat_alt)

text \<open>The context an evaluation comes to when it enters a callee, and returns from.\<close>

definition callee_context :: "bool \<Rightarrow> 'm fast_processor \<Rightarrow> 'm fast_processor \<Rightarrow> bool" where
  "callee_context switched p p' \<longleftrightarrow> (if switched then entered p p' else goes 0 p p')"

lemma enter_dynamic_context:
  assumes "within_limit p" and "enter_dynamic E dyncall (p, h) = Inr (d, (p', h'))"
  shows "callee_context dyncall p p'"
proof -
  obtain a w p1 p2 where p: "read_word (proc E) p (ctx (proc E) p) a (clock (proc E) p) = Inr (w, p1)"
      "decrement_size (proc E) p1 = Inr p2"
    and d: "if dyncall then \<exists>p3. save_context_and_truncate_stack (proc E) p2 = Inr p3 \<and>
        write_element (proc E) (set_caller_hash (proc E) (set_ctx (proc E) p3 (get_next_ctx_id E p2)) w)
          (get_next_ctx_id E p2) FMP_ADDR FMP_INIT_VALUE = Inr p' else p' = p2"
    using assms(2) by (auto simp: enter_dynamic_def enter_dyn_def res_bind_eq_Inr res_map_def Let_def
        dest!: res_map_err_Inr split: if_splits)
  from read_word_goes [OF assms(1) p(1)] pop_goes [OF goes_within p(2)] have g: "goes 0 p p2"
    using goes_trans [of 0 p p1 0 p2] by simp
  show ?thesis
  proof (cases dyncall)
    case True
    then obtain p3 where "save_context_and_truncate_stack (proc E) p2 = Inr p3" and
      w: "write_element (proc E) (set_caller_hash (proc E) (set_ctx (proc E) p3 (get_next_ctx_id E p2)) w)
          (get_next_ctx_id E p2) FMP_ADDR FMP_INIT_VALUE = Inr p'"
      using d by auto
    then have "entered p2 p3" using save_entered goes_within [OF g] by blast
    then have "entered p2 p'"
      using w by (blast intro: write_element_entered set_caller_hash_entered set_ctx_entered)
    then show ?thesis using g True entered_goes by (auto simp: callee_context_def)
  qed (use d g in \<open>simp add: callee_context_def\<close>)
qed

lemma callee_context_within: "callee_context b p p' \<Longrightarrow> within_limit p' \<and> cycles_left p' \<le> cycles_left p"
  using goes_cycles_left [of 0 p p']
  by (auto simp: callee_context_def entered_def goes_def cycles_left_def word_le_nat_alt split: if_splits)

lemma callee_context_goes:
  assumes "callee_context b p p1" and "goes 0 p1 p2"
  shows "callee_context b p p2"
  using assms goes_trans [of 0 p p1 0 p2]
  by (auto simp: callee_context_def entered_def goes_def same_frame_def word_le_nat_alt split: if_splits)

lemma leave_goes:
  assumes "callee_context b p p1" and "goes k p1 p2" and "leave E b (p2, h) = Inr (p', h')"
  shows "goes k p p'"
  using assms goes_trans [of 0 p p1 k p2] restore_goes [of p p1 k p2 "ee_lib E" p']
  by (auto simp: callee_context_def leave_def on_proc_def res_map_def res_bind_eq_Inr split: if_splits)

lemma finish_goes:
  assumes "within_limit p" and "finish E F n i (p, h) = Inr (p', h')"
  shows "goes 1 p p'"
  using assms by (auto simp: finish_def res_bind_eq_Inr simp del: One_nat_def dest!: decorators_Inr intro: tick_goes)

section \<open>Blocks\<close>

lemma run_block_ops_goes:
  "within_limit p \<Longrightarrow> run_block_ops E F n i k ops (p, h) = Inr (p', h') \<Longrightarrow> goes 0 p p'"
proof (induction ops arbitrary: k p h)
  case (Cons op ops)
  then obtain h1 p2 h2 p3 h3 where "run_op E F op (p, h1) = Inr (p2, h2)" "tick n (p2, h2) = Inr (p3, h3)"
      "run_block_ops E F n i (k + 1) ops (p3, h3) = Inr (p', h')"
    by (auto simp: res_bind_eq_Inr dest!: decorators_Inr)
  note s = this
  have "goes 0 p p2" by (rule run_op_goes [OF Cons.prems(1) s(1)])
  then have "goes 0 p p3" by (rule goes_then [OF _ tick_goes [OF _ s(2)]]) simp_all
  then show ?case by (rule goes_then [OF _ Cons.IH [OF _ s(3)]]) simp_all
qed (simp add: goes_refl)

lemma run_batches_goes:
  "within_limit p \<Longrightarrow> run_batches E F n i k bs (p, h) = Inr (p', h') \<Longrightarrow> goes 0 p p'"
proof (induction bs arbitrary: k p h)
  case (Cons b bs)
  then obtain p1 h1 p2 h2 where "tick n (p, h) = Inr (p1, h1)" "run_block_ops E F n i k (b_ops b) (p1, h1) = Inr (p2, h2)"
      "run_batches E F n i (k + length (b_ops b)) bs (p2, h2) = Inr (p', h')"
    by (auto simp: res_bind_eq_Inr)
  note s = this
  have "goes 1 p p1" by (rule tick_goes [OF Cons.prems(1) s(1)])
  then have "goes 0 p p2" by (rule goes_then [OF _ run_block_ops_goes [OF _ s(2)]]) simp_all
  then show ?case by (rule goes_then [OF _ Cons.IH [OF _ s(3)]]) simp_all
qed (simp add: goes_refl)

lemma run_block_goes:
  assumes "within_limit p" and "run_block E F n i bs (p, h) = Inr (p', h')"
  shows "goes 1 p p'"
proof -
  obtain p1 h1 h2 where "(if bs = [] then tick n (p, h) else run_batches E F n i 0 bs (p, h)) = Inr (p1, h1)"
      "tick n (p1, h1) = Inr (p', h2)"
    using assms(2) by (auto simp: run_block_def res_bind_eq_Inr dest!: decorators_Inr)
  note s = this
  have "goes 0 p p1"
  proof (cases "bs = []")
    case True
    then have "goes 1 p p1" using s(1) by (intro tick_goes [OF assms(1)]) simp
    then show ?thesis by (rule goes_mono) simp
  next
    case False
    then show ?thesis using s(1) by (intro run_batches_goes [OF assms(1)]) simp
  qed
  then show ?thesis by (rule goes_then [OF _ tick_goes [OF _ s(2)]]) simp_all
qed

section \<open>Enough fuel\<close>

text \<open>\<open>settles k p r\<close>: the evaluation \<open>r\<close> has not run out of fuel, and a machine that it results in is at least \<open>k\<close>
  cycles after \<open>p\<close>, in the same context.\<close>

definition settles :: "nat \<Rightarrow> 'm fast_processor \<Rightarrow> ('m, 'h) mach res option \<Rightarrow> bool" where
  "settles k p r \<longleftrightarrow> (\<exists>q. r = Some q \<and> (\<forall>p' h'. q = Inr (p', h') \<longrightarrow> goes k p p'))"

lemma settles_Some: "(\<And>p' h'. r = Inr (p', h') \<Longrightarrow> goes k p p') \<Longrightarrow> settles k p (Some r)"
  by (auto simp: settles_def)

lemma settles_seq_Some: "(\<And>x. r = Inr x \<Longrightarrow> settles k p (f x)) \<Longrightarrow> settles k p (seq (Some r) f)"
  by (cases r) (simp_all add: settles_def seq_def)

lemma settles_seq:
  assumes "settles j p1 r" and "\<And>p2 h2. goes j p1 p2 \<Longrightarrow> settles k p (f (p2, h2))"
  shows "settles k p (seq r f)"
proof -
  obtain q where q: "r = Some q" "\<And>p' h'. q = Inr (p', h') \<Longrightarrow> goes j p1 p'"
    using assms(1) by (auto simp: settles_def)
  then show ?thesis using assms(2) by (cases q) (auto simp: seq_def settles_def)
qed

lemma settles_from: "settles k p1 r \<Longrightarrow> goes j p p1 \<Longrightarrow> l \<le> j + k \<Longrightarrow> settles l p r"
  unfolding settles_def using goes_trans goes_mono by blast

lemma settles_mono: "settles k p r \<Longrightarrow> l \<le> k \<Longrightarrow> settles l p r"
  unfolding settles_def using goes_mono by blast

lemma settles_tick:
  assumes "within_limit p1" and "\<And>p2 h2. goes 1 p1 p2 \<Longrightarrow> cycles_left p2 < cycles_left p1 \<Longrightarrow> settles k p (f (p2, h2))"
  shows "settles k p (seq (Some (tick n (p1, h1))) f)"
proof (rule settles_seq_Some)
  fix x assume x: "tick n (p1, h1) = Inr x"
  then have g: "goes 1 p1 (fst x)" using tick_goes [OF assms(1)] by (metis prod.collapse)
  then show "settles k p (f x)"
    using assms(2) [OF g, of "snd x"] goes_cycles_left [OF g] by simp
qed

text \<open>The fuel for a node that has not been entered, and for the body of a loop.\<close>

definition node_fuel :: "mast_forest \<Rightarrow> node_id \<Rightarrow> nat \<Rightarrow> nat" where
  "node_fuel F i c = 3 * c + (case get_node_by_id F i of Some (External _) \<Rightarrow> 2 | _ \<Rightarrow> 1)"

lemma node_fuel_le: "node_fuel F i c \<le> 3 * c + 2"
  by (simp add: node_fuel_def split: option.splits mast_node.splits)

definition nodes_settle :: "nat \<Rightarrow> ('m, 'q, 'h) exec_env \<Rightarrow> bool" where
  "nodes_settle fuel E \<longleftrightarrow> (\<forall>F n i p h. within_limit p \<longrightarrow> node_fuel F i (cycles_left p) \<le> fuel \<longrightarrow>
     settles 1 p (eval_node fuel E F n i (p, h)))"

definition loops_settle :: "nat \<Rightarrow> ('m, 'q, 'h) exec_env \<Rightarrow> bool" where
  "loops_settle fuel E \<longleftrightarrow> (\<forall>F n i body p h. within_limit p \<longrightarrow> 3 * cycles_left p + 3 \<le> fuel \<longrightarrow>
     settles 1 p (eval_loop fuel E F n i body (p, h)))"

lemma nodes_settleD:
  assumes "nodes_settle fuel E" and "within_limit p" and "3 * cycles_left p + 2 \<le> fuel"
  shows "settles 1 p (eval_node fuel E F n i (p, h))"
  using assms node_fuel_le [of F i "cycles_left p"] unfolding nodes_settle_def by (meson order_trans)

lemma settles_finish:
  assumes "goes k p p1"
  shows "settles (k + 1) p (Some (finish E F n i (p1, h1)))"
proof (rule settles_Some)
  fix p' h' assume "finish E F n i (p1, h1) = Inr (p', h')"
  from goes_trans [OF assms finish_goes [OF goes_within [OF assms] this]] show "goes (k + 1) p p'" .
qed

lemma settles_leave:
  assumes "callee_context b p p1" and "goes k p1 p2"
  shows "settles (k + 1) p (Some (res_bind (leave E b (p2, h2)) (finish E F n i)))"
proof (rule settles_Some)
  fix p' h' assume "res_bind (leave E b (p2, h2)) (finish E F n i) = Inr (p', h')"
  then obtain p3 h3 where l: "leave E b (p2, h2) = Inr (p3, h3)" and f: "finish E F n i (p3, h3) = Inr (p', h')"
    by (auto simp: res_bind_eq_Inr)
  from leave_goes [OF assms l] show "goes (k + 1) p p'"
    by (rule goes_then [OF _ finish_goes [OF _ f]]) simp_all
qed

text \<open>A callee evaluated after a tick, in its own context or in that of the caller.\<close>

lemma settles_callee:
  assumes "nodes_settle fuel E" and "callee_context b p p1" and "3 * cycles_left p \<le> fuel"
  shows "settles 1 p (seq (seq (Some (tick k (p1, h1))) (eval_node fuel E G l j)) (\<lambda>m.
    Some (res_bind (leave E b m) (finish E F n i))))"
proof -
  have p1: "within_limit p1" "cycles_left p1 \<le> cycles_left p"
    using callee_context_within [OF assms(2)] by auto
  have "settles 1 p1 (seq (Some (tick k (p1, h1))) (eval_node fuel E G l j))"
  proof (rule settles_tick [OF p1(1)])
    fix p2 h2 assume g: "goes 1 p1 p2" and "cycles_left p2 < cycles_left p1"
    then have "settles 1 p2 (eval_node fuel E G l j (p2, h2))"
      using p1 assms(3) by (intro nodes_settleD [OF assms(1) goes_within [OF g]]) simp
    then show "settles 1 p1 (eval_node fuel E G l j (p2, h2))"
      by (rule settles_from [OF _ g]) simp
  qed
  then show ?thesis
  proof (rule settles_seq)
    fix p2 h2 assume "goes 1 p1 p2"
    from settles_leave [OF assms(2) this] show "settles 1 p (Some (res_bind (leave E b (p2, h2)) (finish E F n i)))"
      by (rule settles_mono) simp
  qed
qed

lemma settles_body:
  assumes "nodes_settle fuel E" and "goes j p p1" and "3 * cycles_left p1 + 2 \<le> fuel"
    and "\<And>p2 h2. goes (j + 1) p p2 \<Longrightarrow> cycles_left p2 < cycles_left p1 \<Longrightarrow> settles k p (f (p2, h2))"
  shows "settles k p (seq (eval_node fuel E F n i (p1, h1)) f)"
proof (rule settles_seq [OF nodes_settleD [OF assms(1) goes_within [OF assms(2)] assms(3)]])
  fix p2 h2 assume g: "goes 1 p1 p2"
  then show "settles k p (f (p2, h2))"
    using assms(4) [OF goes_trans [OF assms(2) g]] goes_cycles_left [OF g] by simp
qed

lemma settles_cycle:
  assumes "goes j p p1" and "\<And>p2 h2. goes (j + 1) p p2 \<Longrightarrow> cycles_left p2 < cycles_left p1 \<Longrightarrow> settles k p (f (p2, h2))"
  shows "settles k p (seq (Some (tick n (p1, h1))) f)"
  by (rule settles_tick [OF goes_within [OF assms(1)]]) (use assms(2) goes_trans [OF assms(1)] in blast)

lemma settles_condition:
  assumes "goes j p p1" and "\<And>c p2 h2. goes j p p2 \<Longrightarrow> cycles_left p2 \<le> cycles_left p1 \<Longrightarrow> settles k p (f (c, (p2, h2)))"
  shows "settles k p (seq (Some (pop_condition E err (p1, h1))) f)"
    and "settles k p (seq (Some (pop_loop_condition E (p1, h1))) f)"
proof -
  have "settles k p (f x)" if "pop_condition E err (p1, h1) = Inr x \<or> pop_loop_condition E (p1, h1) = Inr x" for x
  proof (cases x)
    case (fields c p2 h2)
    then have g: "goes 0 p1 p2" using that pop_condition_goes [OF goes_within [OF assms(1)], of E] by auto
    from goes_trans [OF assms(1) this] goes_cycles_left [OF this] show ?thesis
      using assms(2) fields by simp
  qed
  then show "settles k p (seq (Some (pop_condition E err (p1, h1))) f)" "settles k p (seq (Some (pop_loop_condition E (p1, h1))) f)"
    by (auto intro: settles_seq_Some)
qed

lemma loops_settle_Suc:
  fixes E :: "('m, 'q, 'h) exec_env"
  assumes n: "nodes_settle fuel E" and l: "loops_settle fuel E"
  shows "loops_settle (Suc fuel) E"
  unfolding loops_settle_def
proof (intro allI impI)
  fix F n i body and p :: "'m fast_processor" and h
  assume p: "within_limit p" and c: "3 * cycles_left p + 3 \<le> Suc fuel"
  show "settles 1 p (eval_loop (Suc fuel) E F n i body (p, h))"
    unfolding eval_loop.simps
  proof (rule settles_body [OF assms(1) goes_refl [OF p]])
    fix p2 h2 assume g2: "goes (0 + 1) p p2" and c2: "cycles_left p2 < cycles_left p"
    show "settles 1 p (seq (Some (pop_loop_condition E (p2, h2)))
        (\<lambda>(c, m). if c then seq (Some (tick (n + 2) m)) (eval_loop fuel E F n i body) else Some (finish E F n i m)))"
    proof (rule settles_condition(2) [OF g2], simp split: if_splits, intro conjI impI)
      fix p3 h3 assume g3: "goes (Suc 0) p p3" and c3: "cycles_left p3 \<le> cycles_left p2"
      show "settles (Suc 0) p (seq (Some (tick (Suc (Suc n)) (p3, h3))) (eval_loop fuel E F n i body))"
      proof (rule settles_cycle [OF g3])
        fix p4 h4 assume g4: "goes (Suc 0 + 1) p p4" and "cycles_left p4 < cycles_left p3"
        then have "settles 1 p4 (eval_loop fuel E F n i body (p4, h4))"
          using l goes_within [OF g4] c c2 c3 unfolding loops_settle_def by simp
        then show "settles (Suc 0) p (eval_loop fuel E F n i body (p4, h4))"
          by (rule settles_from [OF _ g4]) simp
      qed
      show "settles (Suc 0) p (Some (finish E F n i (p3, h3)))"
        by (rule settles_mono [OF settles_finish [OF g3]]) simp
    qed
  qed (use c in simp)
qed

lemma settles_external:
  fixes E :: "('m, 'q, 'h) exec_env"
  assumes n: "nodes_settle fuel E" and p: "within_limit p" and c: "3 * cycles_left p + 1 \<le> fuel"
  shows "settles 1 p (seq (Some (load E d (p, h))) (\<lambda>(root_id, G, m).
    seq (Some (node_at G root_id)) (\<lambda>root.
    if is_external root then Some (Inl (OperationErr (CircularExternalNode d)))
    else seq (eval_node fuel E G k root_id m) (\<lambda>m. Some (after_exit E F i m)))))"
proof (rule settles_seq_Some)
  fix x assume x: "load E d (p, h) = Inr x"
  obtain j G p1 h1 where xs: "x = (j, G, (p1, h1))" by (cases x)
  have g: "goes 0 p p1" by (rule load_goes [OF p x [unfolded xs]])
  have "settles 1 p (if is_external root then Some (Inl (OperationErr (CircularExternalNode d)))
      else seq (eval_node fuel E G k j (p1, h1)) (\<lambda>m. Some (after_exit E F i m)))" if r: "node_at G j = Inr root" for root
  proof (cases "is_external root")
    case True
    then show ?thesis by (simp add: settles_def)
  next
    case False
    with r have "node_fuel G j (cycles_left p1) = 3 * cycles_left p1 + 1"
      by (cases root) (auto simp: node_fuel_def node_at_def split: option.splits)
    then have "settles 1 p1 (eval_node fuel E G k j (p1, h1))"
      using n goes_within [OF g] goes_cycles_left [OF g] c unfolding nodes_settle_def by simp
    then have "settles 1 p (seq (eval_node fuel E G k j (p1, h1)) (\<lambda>m. Some (after_exit E F i m)))"
    proof (rule settles_seq)
      fix p2 h2 assume "goes 1 p1 p2"
      from goes_trans [OF g this] show "settles 1 p (Some (after_exit E F i (p2, h2)))"
        by (auto intro!: settles_Some dest: decorators_Inr(2))
    qed
    with False show ?thesis by simp
  qed
  with xs show "settles 1 p ((\<lambda>(root_id, G, m). seq (Some (node_at G root_id)) (\<lambda>root.
      if is_external root then Some (Inl (OperationErr (CircularExternalNode d)))
      else seq (eval_node fuel E G k root_id m) (\<lambda>m. Some (after_exit E F i m)))) x)"
    by (auto intro!: settles_seq_Some)
qed

lemma settles_dyn:
  fixes E :: "('m, 'q, 'h) exec_env"
  assumes n: "nodes_settle fuel E" and p: "within_limit p" and c: "3 * cycles_left p \<le> fuel"
  shows "settles 1 p (seq (Some (enter_dynamic E dyncall (p, h))) (\<lambda>(d, m).
    seq (Some (find_procedure_root F d)) (\<lambda>callee.
    seq (case callee of
        Some callee_id \<Rightarrow> seq (Some (tick k (m))) (eval_node fuel E F k' callee_id)
      | None \<Rightarrow> seq (Some (load E d m)) (\<lambda>(root_id, G, m).
          seq (Some (tick l m)) (eval_node fuel E G l' root_id))) (\<lambda>m.
    Some (res_bind (leave E dyncall m) (finish E F n' i))))))"
proof (rule settles_seq_Some, clarify, rule settles_seq_Some)
  fix d p1 h1 callee
  assume "enter_dynamic E dyncall (p, h) = Inr (d, (p1, h1))"
  then have e: "callee_context dyncall p p1" by (rule enter_dynamic_context [OF p])
  show "settles 1 p (seq (case callee of
        Some callee_id \<Rightarrow> seq (Some (tick k (p1, h1))) (eval_node fuel E F k' callee_id)
      | None \<Rightarrow> seq (Some (load E d (p1, h1))) (\<lambda>(root_id, G, m).
          seq (Some (tick l m)) (eval_node fuel E G l' root_id))) (\<lambda>m.
      Some (res_bind (leave E dyncall m) (finish E F n' i))))"
  proof (cases callee)
    case (Some j)
    with settles_callee [OF n e c] show ?thesis by simp
  next
    case None
    show ?thesis
    proof (cases "load E d (p1, h1)")
      case (Inl e)
      with None show ?thesis by (simp add: seq_def settles_def)
    next
      case (Inr x)
      obtain j G p2 h2 where x: "x = (j, G, (p2, h2))" by (cases x)
      have "goes 0 p1 p2"
        using load_goes [of p1 E d h1 j G p2 h2] callee_context_within [OF e] Inr x by simp
      then have "callee_context dyncall p p2"
        using e callee_context_goes by blast
      from settles_callee [OF n this c] None Inr x show ?thesis by (simp add: seq_def)
    qed
  qed
qed

lemma settles_join:
  assumes n: "nodes_settle fuel E" and p: "within_limit p" and c: "3 * cycles_left p \<le> fuel"
  shows "settles 1 p (seq (Some (tick k (p, h))) (\<lambda>m.
    seq (eval_node fuel E F j first m) (\<lambda>m.
    seq (eval_node fuel E F l second m) (\<lambda>m. Some (finish E F n' i m)))))"
proof (rule settles_cycle [OF goes_refl [OF p]])
  fix p1 h1 assume g1: "goes (0 + 1) p p1" and c1: "cycles_left p1 < cycles_left p"
  show "settles 1 p (seq (eval_node fuel E F j first (p1, h1)) (\<lambda>m.
      seq (eval_node fuel E F l second m) (\<lambda>m. Some (finish E F n' i m))))"
  proof (rule settles_body [OF n g1])
    fix p2 h2 assume g2: "goes (0 + 1 + 1) p p2" and c2: "cycles_left p2 < cycles_left p1"
    show "settles 1 p (seq (eval_node fuel E F l second (p2, h2)) (\<lambda>m. Some (finish E F n' i m)))"
      by (rule settles_body [OF n g2], use c c1 c2 in simp, rule settles_mono [OF settles_finish]) auto
  qed (use c c1 in simp)
qed

lemma settles_split:
  assumes n: "nodes_settle fuel E" and p: "within_limit p" and c: "3 * cycles_left p \<le> fuel"
  shows "settles 1 p (seq (Some (pop_condition E err (p, h))) (\<lambda>(b, m).
    seq (Some (tick k m)) (\<lambda>m.
    seq (eval_node fuel E F j (if b then on_true else on_false) m) (\<lambda>m. Some (finish E F n' i m)))))"
proof (rule settles_condition(1) [OF goes_refl [OF p]], unfold prod.case)
  fix b p1 h1 assume g1: "goes 0 p p1" and c1: "cycles_left p1 \<le> cycles_left p"
  show "settles 1 p (seq (Some (tick k (p1, h1))) (\<lambda>m.
      seq (eval_node fuel E F j (if b then on_true else on_false) m) (\<lambda>m. Some (finish E F n' i m))))"
  proof (rule settles_cycle [OF g1])
    fix p2 h2 assume g2: "goes (0 + 1) p p2" and c2: "cycles_left p2 < cycles_left p1"
    show "settles 1 p (seq (eval_node fuel E F j (if b then on_true else on_false) (p2, h2)) (\<lambda>m. Some (finish E F n' i m)))"
      by (rule settles_body [OF n g2], use c c1 c2 in simp, rule settles_mono [OF settles_finish]) auto
  qed
qed

lemma settles_loop:
  assumes l: "loops_settle fuel E" and p: "within_limit p" and c: "3 * cycles_left p \<le> fuel"
  shows "settles 1 p (seq (Some (pop_condition E err (p, h))) (\<lambda>(b, m).
    if b then seq (Some (tick k m)) (eval_loop fuel E F n' i body)
    else seq (Some (tick n' m)) (\<lambda>m. Some (finish E F n' i m))))"
proof (rule settles_condition(1) [OF goes_refl [OF p]], unfold prod.case)
  fix b p1 h1 assume g1: "goes 0 p p1" and c1: "cycles_left p1 \<le> cycles_left p"
  have "settles 1 p (seq (Some (tick k (p1, h1))) (eval_loop fuel E F n' i body))"
  proof (rule settles_cycle [OF g1])
    fix p2 h2 assume g2: "goes (0 + 1) p p2" and "cycles_left p2 < cycles_left p1"
    then have "settles 1 p2 (eval_loop fuel E F n' i body (p2, h2))"
      using l goes_within [OF g2] c c1 unfolding loops_settle_def by simp
    then show "settles 1 p (eval_loop fuel E F n' i body (p2, h2))"
      by (rule settles_from [OF _ g2]) simp
  qed
  moreover have "settles 1 p (seq (Some (tick n' (p1, h1))) (\<lambda>m. Some (finish E F n' i m)))"
    by (rule settles_cycle [OF g1], rule settles_mono [OF settles_finish]) auto
  ultimately show "settles 1 p (if b then seq (Some (tick k (p1, h1))) (eval_loop fuel E F n' i body)
      else seq (Some (tick n' (p1, h1))) (\<lambda>m. Some (finish E F n' i m)))"
    by simp
qed

lemma seq_assoc: "seq (seq r f) g = seq r (\<lambda>x. seq (f x) g)"
  by (auto simp: seq_def split: Option.bind_split sum.splits)

lemma settles_call:
  assumes n: "nodes_settle fuel E" and p: "within_limit p" and c: "3 * cycles_left p \<le> fuel"
  shows "settles 1 p (seq (Some (on_proc (enter_call E F callee is_syscall) (p, h))) (\<lambda>m.
    seq (Some (tick k m)) (\<lambda>m.
    seq (eval_node fuel E F j callee m) (\<lambda>m. Some (res_bind (leave E True m) (finish E F n' i))))))"
proof (rule settles_seq_Some)
  fix x assume "on_proc (enter_call E F callee is_syscall) (p, h) = Inr x"
  then obtain p1 where x: "x = (p1, h)" and "enter_call E F callee is_syscall p = Inr p1"
    by (auto simp: on_proc_def res_map_def res_bind_eq_Inr)
  then have "callee_context True p p1"
    using enter_call_entered [OF p] by (simp add: callee_context_def)
  from settles_callee [OF n this c] x show "settles 1 p (seq (Some (tick k x)) (\<lambda>m.
      seq (eval_node fuel E F j callee m) (\<lambda>m. Some (res_bind (leave E True m) (finish E F n' i)))))"
    by (simp add: seq_assoc)
qed

lemma settles_before:
  assumes "\<And>h1. settles k p (f (p, h1))"
  shows "settles k p (seq (Some (before_enter E F i (p, h))) f)"
proof (rule settles_seq_Some)
  fix x assume "before_enter E F i (p, h) = Inr x"
  then obtain h1 where "x = (p, h1)" by (cases x) (auto dest: decorators_Inr(1))
  with assms show "settles k p (f x)" by simp
qed

lemma nodes_settle_Suc:
  fixes E :: "('m, 'q, 'h) exec_env"
  assumes n: "nodes_settle fuel E" and l: "loops_settle fuel E"
  shows "nodes_settle (Suc fuel) E"
  unfolding nodes_settle_def
proof (intro allI impI)
  fix F n' i and p :: "'m fast_processor" and h
  assume p: "within_limit p" and c: "node_fuel F i (cycles_left p) \<le> Suc fuel"
  then have c0: "3 * cycles_left p \<le> fuel"
    by (auto simp: node_fuel_def split: option.splits mast_node.splits)
  show "settles 1 p (eval_node (Suc fuel) E F n' i (p, h))"
  proof (cases "get_node_by_id F i")
    case (Some node)
    note u = eval_node.simps Some option.case mast_node.case
    show ?thesis
    proof (cases node)
      case (Block bs d)
      show ?thesis unfolding u Block
        by (rule settles_before) (blast intro: settles_Some run_block_goes [OF p])
    next
      case (Join first second d)
      show ?thesis unfolding u Join by (rule settles_before) (rule settles_join [OF n p c0])
    next
      case (Split on_true on_false d)
      show ?thesis unfolding u Split by (rule settles_before) (rule settles_split [OF n p c0])
    next
      case (Loop body d)
      show ?thesis unfolding u Loop by (rule settles_before) (rule settles_loop [OF l p c0])
    next
      case (Call callee is_syscall d)
      show ?thesis unfolding u Call by (rule settles_before) (rule settles_call [OF n p c0])
    next
      case (Dyn dyncall d)
      show ?thesis unfolding u Dyn by (rule settles_before) (rule settles_dyn [OF n p c0])
    next
      case (External d)
      then have "3 * cycles_left p + 1 \<le> fuel" using c Some by (simp add: node_fuel_def)
      from settles_external [OF n p this] show ?thesis unfolding u External by (rule settles_before)
    qed
  qed (simp add: settles_def)
qed

lemma evaluation_settles: "nodes_settle fuel E \<and> loops_settle fuel E"
proof (induction fuel)
  case 0
  then show ?case
    by (simp add: nodes_settle_def loops_settle_def node_fuel_def split: option.splits mast_node.splits)
next
  case (Suc fuel)
  then show ?case using nodes_settle_Suc loops_settle_Suc by blast
qed

section \<open>Termination\<close>

text \<open>Fuel that is enough for every program.\<close>

definition enough_fuel :: "'m fast_processor \<Rightarrow> nat" where
  "enough_fuel p = 3 * cycles_left p + 2"

lemma eval_program_settles:
  assumes "within_limit p"
  shows "\<exists>r. eval_program (enough_fuel p) X H host p program h = Some r"
proof (cases "res_map_err AdviceErr (extend_map (fp_advice p) (mf_advice_map (mp_forest program)))")
  case (Inl e)
  then show ?thesis by (simp add: eval_program_def seq_def)
next
  case (Inr a)
  let ?E = "run_env X H host never_stopper (mp_kernel program)"
  have "within_limit (p\<lparr>fp_advice := a\<rparr>)" "cycles_left (p\<lparr>fp_advice := a\<rparr>) = cycles_left p"
    using goes_within [OF advice_goes [OF assms]] by (simp_all add: cycles_left_def)
  then have "settles 1 (p\<lparr>fp_advice := a\<rparr>) (eval_node (enough_fuel p) ?E (mp_forest program) 0 (mp_entrypoint program)
      (p\<lparr>fp_advice := a\<rparr>, h))"
    using evaluation_settles [of "enough_fuel p" ?E] by (intro nodes_settleD) (simp_all add: enough_fuel_def)
  then obtain q where "eval_node (enough_fuel p) ?E (mp_forest program) 0 (mp_entrypoint program)
      (p\<lparr>fp_advice := a\<rparr>, h) = Some q"
    by (auto simp: settles_def)
  then show ?thesis using Inr by (cases q) (auto simp: eval_program_def seq_def split: prod.splits)
qed

lemma execute_sync_eval:
  assumes "within_limit p"
  shows "execute_sync X H host p program h = eval_program (enough_fuel p) X H host p program h"
proof -
  obtain r where r: "eval_program (enough_fuel p) X H host p program h = Some r"
    using eval_program_settles [OF assms, of X H host program h] by auto
  from execute_sync_evaluates [OF this] r show ?thesis by simp
qed

text \<open>The run of a program from the first node: it returns, and if it succeeds, it has used a cycle, stayed within
  the limit, and is back in the context it began in.\<close>

lemma fp_execute_impl_returns:
  assumes "within_limit p" and "ee_stopper E = never_stopper"
  shows "\<exists>r. fp_execute_impl E \<lparr>es_processor = p, es_stack = [StartNode i], es_host = h, es_forest = F\<rparr> = Some r \<and>
    (\<forall>outputs s. r = Inr (outputs, s) \<longrightarrow> es_stack s = [] \<and> es_forest s = F \<and> goes 1 p (es_processor s) \<and>
       final_stack_outputs (es_processor s) = Inr outputs)"
proof -
  have "settles 1 p (eval_node (enough_fuel p) E F 0 i (p, h))"
    using evaluation_settles [of "enough_fuel p" E] assms(1) by (intro nodes_settleD) (simp_all add: enough_fuel_def)
  then obtain q where q: "eval_node (enough_fuel p) E F 0 i (p, h) = Some q" "\<And>p' h'. q = Inr (p', h') \<Longrightarrow> goes 1 p p'"
    by (auto simp: settles_def)
  note r = run_entry [OF assms(2) q(1)]
  show ?thesis
  proof (cases q)
    case (Inl e)
    with r show ?thesis
      by (auto simp: mk.simps dest!: run_InlD)
  next
    case (Inr m)
    have g: "goes 1 p (fst m)" using q(2) [of "fst m" "snd m"] Inr by simp
    show ?thesis
    proof (cases "final_stack_outputs (fst m)")
      case (Inl e)
      with r Inr show ?thesis by (auto simp: mk.simps [of F "[StartNode i]"] run_nil dest!: run_InlD)
    next
      case (Inr outputs)
      with r \<open>q = Inr m\<close> g show ?thesis by (auto simp: mk.simps [of F "[StartNode i]"] run_nil dest!: run_InrD)
    qed
  qed
qed

text \<open>The outputs of a program are the operand stack, which must have returned to its minimal depth.\<close>

lemma final_stack_outputs_view:
  assumes "fp_good p"
  shows "final_stack_outputs p = (if v_depth (fp_view p) = 16 then Inr (stake 16 (v_stack (fp_view p)))
    else Inl (OutputStackOverflow (v_depth (fp_view p) - 16)))"
proof -
  have g: "stack_bot_idx p + 16 \<le> stack_top_idx p" "stack_top_idx p \<le> 6849"
    using assms by (simp_all add: fp_good_def)
  note defs = final_stack_outputs_def fp_stack_slice_def buf_slice_def stack_outputs_new_def MIN_STACK_DEPTH_def STACK_BUFFER_SIZE_def
  show ?thesis
  proof (cases "v_depth (fp_view p) = 16")
    case True
    then have top: "stack_top_idx p = stack_bot_idx p + 16" using g by simp
    have "rev (map (fp_stack p) [stack_bot_idx p..<stack_bot_idx p + 16]) = stake 16 (buf_view (fp_stack p) (stack_bot_idx p + 16))"
      by (rule nth_equalityI) (simp_all add: rev_nth add.commute)
    then show ?thesis using g by (simp add: defs top)
  next
    case False
    then show ?thesis using g by (simp add: defs)
  qed
qed

section \<open>Programs\<close>

text \<open>A sample program: one basic block that adds the two topmost elements.\<close>

definition sample_block :: mast_node where
  "sample_block = Block [batch_of [([Add], False)]] EMPTY_WORD"

definition sample_program :: mast_program where
  "sample_program =
     \<lparr>mp_forest = \<lparr>mf_nodes = [sample_block], mf_roots = [0], mf_advice_map = [], mf_before_enter = (\<lambda>_. []),
        mf_after_exit = (\<lambda>_. []), mf_op_decorators = (\<lambda>_ _. []), mf_error_codes = (\<lambda>_. None), mf_procedure_names = []\<rparr>,
      mp_entrypoint = 0, mp_kernel = []\<rparr>"

definition sample_host :: "(unit, unit) sync_host" where
  "sample_host = \<lparr>on_event = (\<lambda>p h. (Inr [], h)), get_mast_forest = (\<lambda>h d. None),
     on_debug = (\<lambda>p options h. (Inr (), h)), on_trace = (\<lambda>p trace_id h. (Inr (), h))\<rparr>"

abbreviation sample_env :: "(unit, unit, unit) exec_env" where
  "sample_env \<equiv> run_env sample_lib sample_hash sample_host never_stopper []"

lemma sample_within: "within_limit sample_processor"
  using sample_good sample_view by (simp add: within_limit_def fp_view_def default_options_def)

definition sample_at :: "felt stream \<Rightarrow> u32 \<Rightarrow> unit fast_processor \<Rightarrow> bool" where
  "sample_at xs c p \<longleftrightarrow> fp_good p \<and> fp_options p = default_options \<and> fp_clk p = c \<and> v_stack (fp_view p) = xs \<and> v_depth (fp_view p) = 16"

lemma tick_sample:
  assumes "sample_at xs c p" and "c < 100"
  shows "\<exists>p'. tick 0 (p, h) = Inr (p', h) \<and> sample_at xs (c + 1) p'"
proof -
  have "c + 1 \<le> MAX_CYCLES"
    using assms(2) by (simp add: MAX_CYCLES_def word_le_nat_alt word_less_nat_alt unat_word_ariths)
  then show ?thesis
    using assms(1) by (auto simp: sample_at_def tick_def Let_def default_options_def fp_good_def not_less)
qed

lemma add_sample:
  assumes "sample_at (3 ## 4 ## zeros) c p"
  shows "\<exists>p'. execute_op sample_lib (fast_processor_impl sample_lib) resolve Add p = Inr p' \<and> sample_at (7 ## zeros) c p'"
proof -
  have g: "fp_good p" "v_stack (fp_view p) = 3 ## 4 ## zeros" "v_depth (fp_view p) = 16"
    using assms by (simp_all add: sample_at_def)
  then obtain \<sigma> where i: "isa sample_lib resolve Add (fp_view p) = Inr \<sigma>" "v_stack \<sigma> = 7 ## zeros" "v_depth \<sigma> = 16"
    by (simp add: isa_def depth_after_def increments_stack_size_def decrements_stack_size_def del: fp_view_simps)
  have "\<not> overflows (execute_op sample_lib (fast_processor_impl sample_lib) resolve Add p)"
    using fp_overflow_condition(1) [OF g(1), of sample_lib resolve Add] by (auto simp: increments_stack_size_def)
  then obtain p' where p': "execute_op sample_lib (fast_processor_impl sample_lib) resolve Add p = Inr p'" "fp_good p'" "\<sigma> = fp_view p'"
    using fp.execute_op_sim [OF g(1), of sample_lib resolve Add] i(1) by (auto simp: sim_def overflows_def split: sum.splits)
  then show ?thesis
    using isa_frame [OF i(1)] i assms by (auto simp: sample_at_def)
qed

lemma sample_entry: "mp_entrypoint sample_program = 0" "mp_kernel sample_program = []"
  by (simp_all add: sample_program_def)

lemma sample_start: "sample_at (3 ## 4 ## zeros) 0 sample_processor"
  using sample_good sample_view by (simp add: sample_at_def fp_view_def)

lemma sample_run:
  "\<exists>p'. eval_node (Suc n) sample_env (mp_forest sample_program) 0 0 (sample_processor, ()) = Some (Inr (p', ())) \<and> sample_at (7 ## zeros) 3 p'"
proof -
  let ?F = "mp_forest sample_program"
  have ops: "b_ops (batch_of [([Add], False)]) = [Add]" by code_simp
  obtain p1 where p1: "tick 0 (sample_processor, ()) = Inr (p1, ())" "sample_at (3 ## 4 ## zeros) 1 p1"
    using tick_sample [OF sample_start, of "()"] by auto
  obtain p2 where p2: "execute_op sample_lib (fast_processor_impl sample_lib) (resolve_error_message ?F) Add p1 = Inr p2" "sample_at (7 ## zeros) 1 p2"
    using add_sample [OF p1(2)] by blast
  obtain p3 where p3: "tick 0 (p2, ()) = Inr (p3, ())" "sample_at (7 ## zeros) 2 p3"
    using tick_sample [OF p2(2), of "()"] by auto
  obtain p4 where p4: "tick 0 (p3, ()) = Inr (p4, ())" "sample_at (7 ## zeros) 3 p4"
    using tick_sample [OF p3(2), of "()"] by auto
  have d: "\<not> should_execute_decorators p" "\<not> enable_debugging (fp_options p)" if "sample_at xs c p" for xs c p
    using that by (simp_all add: sample_at_def should_execute_decorators_def default_options_def)
  have "get_node_by_id ?F 0 = Some (Block [batch_of [([Add], False)]] EMPTY_WORD)"
    by (simp add: sample_program_def sample_block_def get_node_by_id_def)
  then show ?thesis
    using p1 p2 p3 p4 by (simp add: before_enter_def before_op_def end_of_block_def after_exit_def run_block_def run_op_def on_proc_def
        seq_def ops run_env_def d [OF sample_start] d [OF p1(2)] d [OF p2(2)] d [OF p3(2)] d [OF p4(2)])
qed

text \<open>C3. Execution of a program terminates: for every program, every host whose calls return, and every advice, from every
  well-formed processor whose clock is within its limit of cycles, \<open>execute_sync\<close> returns an output or an error.\<close>

theorem execute_sync_terminates:
  assumes "fp_good p" and "fp_clk p \<le> max_cycles (fp_options p)" and "max_cycles (fp_options p) \<le> MAX_CYCLES"
  shows "\<exists>r. execute_sync X H host p program h = Some r"
proof -
  have "within_limit p" using assms by (simp add: within_limit_def)
  then show ?thesis using eval_program_settles execute_sync_eval by metis
qed

theorem execute_sync_terminates_witness:
  "\<exists>r. execute_sync sample_lib sample_hash sample_host sample_processor sample_program () = Some r"
  by (rule execute_sync_terminates) (use sample_within in \<open>simp_all add: within_limit_def\<close>)

text \<open>C2. The engine, a loop over a stack of continuations that breaks off to have events served and forests loaded,
  computes the recursive semantics of programs: \<open>execute_sync\<close> gives the output or the error of the evaluator that
  follows the structure of the nodes, with a bound on the depth of its recursion given by the cycles left.\<close>

theorem execute_sync_evaluates_program:
  assumes "within_limit p"
  shows "execute_sync X H host p program h = eval_program (3 * cycles_left p + 2) X H host p program h"
  using execute_sync_eval [OF assms] by (simp add: enough_fuel_def)

theorem execute_sync_evaluates_program_witness:
  "\<exists>output. execute_sync sample_lib sample_hash sample_host sample_processor sample_program () = Some (Inr (output, ())) \<and>
     eo_stack output = 7 # replicate 15 0"
proof -
  obtain p' where p': "eval_node (3 * cycles_left sample_processor + 2) sample_env (mp_forest sample_program) 0 0 (sample_processor, ()) =
      Some (Inr (p', ()))" "sample_at (7 ## zeros) 3 p'"
    using sample_run [of "3 * cycles_left sample_processor + 1"] by (auto simp del: eval_node.simps)
  have "final_stack_outputs p' = Inr (7 # replicate 15 0)"
    using p'(2) final_stack_outputs_view [of p'] by (simp add: sample_at_def eval_nat_numeral del: fp_view_simps)
  moreover have "extend_map (fp_advice sample_processor) (mf_advice_map (mp_forest sample_program)) = Inr (fp_advice sample_processor)"
    by (simp add: sample_program_def extend_map_def merge_map_def)
  ultimately show ?thesis
    using p'(1) by (simp add: execute_sync_evaluates_program [OF sample_within] eval_program_def seq_def
        sample_entry into_execution_output_def
        del: eval_node.simps)
qed

text \<open>C5. A program leaves the machine as it found it: when a program that began with the first node ends without an
  error, its cycles have stayed within the limit, at least one has passed, all continuations are used up, and the
  context, the hash of its caller, the suspended contexts, the options and the forest are those of the beginning.
  The operand stack is back at its minimal depth, and it is what the program outputs.\<close>

theorem execution_restores_context:
  assumes "within_limit p" and "ee_stopper E = never_stopper"
    and "fp_execute_impl E \<lparr>es_processor = p, es_stack = [StartNode i], es_host = h, es_forest = F\<rparr> = Some (Inr (outputs, s))"
  shows "let p' = es_processor s in fp_good p' \<and> fp_clk p < fp_clk p' \<and> fp_clk p' \<le> max_cycles (fp_options p) \<and>
    es_stack s = [] \<and> es_forest s = F \<and> fp_options p' = fp_options p \<and> fp_ctx p' = fp_ctx p \<and> fp_caller_hash p' = fp_caller_hash p \<and>
    v_calls (fp_view p') = v_calls (fp_view p) \<and> v_depth (fp_view p') = 16 \<and> outputs = stake 16 (v_stack (fp_view p'))"
proof -
  have g: "es_stack s = []" "es_forest s = F" "goes 1 p (es_processor s)" "final_stack_outputs (es_processor s) = Inr outputs"
    using fp_execute_impl_returns [OF assms(1,2), of i h F] assms(3) by auto
  then have "fp_good (es_processor s)" by (simp add: goes_def within_limit_def)
  with g(4) final_stack_outputs_view [OF this] have "v_depth (fp_view (es_processor s)) = 16"
      "outputs = stake 16 (v_stack (fp_view (es_processor s)))"
    by (auto split: if_splits)
  with g show ?thesis
    by (auto simp: Let_def goes_def within_limit_def same_frame_def word_less_nat_alt)
qed

theorem execution_restores_context_witness:
  "\<exists>s. fp_execute_impl sample_env \<lparr>es_processor = sample_processor, es_stack = [StartNode 0], es_host = (),
       es_forest = mp_forest sample_program\<rparr> = Some (Inr (7 # replicate 15 0, s)) \<and>
     fp_ctx (es_processor s) = fp_ctx sample_processor \<and> es_stack s = []"
proof -
  obtain p' where p': "eval_node (Suc 0) sample_env (mp_forest sample_program) 0 0 (sample_processor, ()) = Some (Inr (p', ()))"
      "sample_at (7 ## zeros) 3 p'"
    using sample_run by blast
  have o: "final_stack_outputs p' = Inr (7 # replicate 15 0)"
    using p'(2) final_stack_outputs_view [of p'] by (simp add: sample_at_def eval_nat_numeral del: fp_view_simps)
  have st: "ee_stopper sample_env = never_stopper" by (simp add: run_env_def)
  have "run sample_env (mk (mp_forest sample_program) [StartNode 0] (sample_processor, ())) =
      Some (Inr (7 # replicate 15 0, mk (mp_forest sample_program) [] (p', ())))"
    using run_entry [OF st p'(1)] o by (simp add: run_nil)
  then have r: "fp_execute_impl sample_env \<lparr>es_processor = sample_processor, es_stack = [StartNode 0], es_host = (),
      es_forest = mp_forest sample_program\<rparr> = Some (Inr (7 # replicate 15 0, mk (mp_forest sample_program) [] (p', ())))"
    by (auto simp: mk.simps [of _ "[StartNode 0]"] dest: run_InrD)
  from execution_restores_context [OF sample_within st r] r show ?thesis by (simp add: Let_def)
qed

end
