(* ===== verification/Engine_Step.thy ===== *)
theory Engine_Step
  imports Engine_Term
begin

text \<open>
  Execution in single steps.  A step runs the engine with a stopper that breaks off after every clock cycle and
  hands out the continuation to resume with.  The theory shows that each step returns, that it advances the clock
  by one unless the program ends or fails, and that resuming step after step computes what the uninterrupted run
  computes.
\<close>

section \<open>Environments and states of a step\<close>

definition step_env :: "('m, 'q, 'h) exec_env \<Rightarrow> ('m, 'q, 'h) exec_env" where
  "step_env E = E\<lparr>ee_stopper := step_stopper\<rparr>"

lemma step_env_sel [simp]:
  "ee_lib (step_env E) = ee_lib E" "ee_hash (step_env E) = ee_hash E" "ee_host (step_env E) = ee_host E"
  "ee_kernel (step_env E) = ee_kernel E" "ee_stopper (step_env E) = step_stopper"
  by (simp_all add: step_env_def)

lemma decorate_step [simp]: "decorate (step_env E) ds = decorate E ds"
proof -
  have "decorate_one (step_env E) d = decorate_one E d" for d
    unfolding decorate_one_def step_env_sel ..
  then show ?thesis by (induction ds) (auto intro!: ext)
qed

lemma pieces_step [simp]:
  "before_enter (step_env E) F i m = before_enter E F i m"
  "after_exit (step_env E) F i m = after_exit E F i m"
  "before_op (step_env E) F i k m = before_op E F i k m"
  "end_of_block (step_env E) F bs i m = end_of_block E F bs i m"
  "emit (step_env E) = emit E"
  "get_next_ctx_id (step_env E) = get_next_ctx_id E"
  "enter_dyn (step_env E) = enter_dyn E"
  "load_mast_forest_sync (step_env E) = load_mast_forest_sync E"
  unfolding before_enter_def after_exit_def before_op_def end_of_block_def emit_def get_next_ctx_id_def [abs_def]
    enter_dyn_def [abs_def] load_mast_forest_sync_def [abs_def] step_env_sel decorate_step by (rule refl)+

lemma implements_step:
  "implements F K (before_enter E F i m) (execute_before_enter_decorators (step_env E) i (mk F K m))"
  "implements F K (after_exit E F i m) (execute_after_exit_decorators (step_env E) i (mk F K m))"
  "implements F K (before_op E F i k m) (execute_decorators_for_op (step_env E) i k (mk F K m))"
  "implements F K (end_of_block E F bs i m) (execute_end_of_block_decorators (step_env E) bs i (mk F K m))"
  "implements F K (emit E m) (op_emit_sync (step_env E) (mk F K m))"
  using decorators_implement [of F K "step_env E"] emit_implements [of F K "step_env E"] by simp_all

text \<open>Basic blocks have batches: every builder of a basic block refuses an empty one with \<open>EmptyBasicBlock\<close>.\<close>

definition proper_forest :: "mast_forest \<Rightarrow> bool" where
  "proper_forest F \<longleftrightarrow> (\<forall>i d. get_node_by_id F i \<noteq> Some (Block [] d))"

definition proper_stack :: "continuation list \<Rightarrow> bool" where
  "proper_stack K \<longleftrightarrow> (\<forall>F. EnterForest F \<in> set K \<longrightarrow> proper_forest F)"

definition proper_host :: "('m, 'h) sync_host \<Rightarrow> bool" where
  "proper_host host \<longleftrightarrow> (\<forall>h d F. get_mast_forest host h d = Some F \<longrightarrow> proper_forest F)"

definition resume :: "continuation option \<Rightarrow> ('m, 'h) exec_state \<Rightarrow> ('m, 'h) exec_state" where
  "resume c s = (case c of Some c \<Rightarrow> s\<lparr>es_stack := c # es_stack s\<rparr> | None \<Rightarrow> s)"

definition stays :: "'m fast_processor \<Rightarrow> 'm fast_processor \<Rightarrow> bool" where
  "stays p p' \<longleftrightarrow> fp_good p' \<and> fp_clk p' = fp_clk p \<and> fp_options p' = fp_options p"

definition ticked :: "'m fast_processor \<Rightarrow> 'm fast_processor \<Rightarrow> bool" where
  "ticked p p' \<longleftrightarrow> fp_good p' \<and> fp_clk p' = fp_clk p + 1 \<and> fp_clk p' \<le> max_cycles (fp_options p) \<and> fp_options p' = fp_options p"

lemma tick_ticked:
  assumes "stays p (fst m)" and "tick n m = Inr m'"
  shows "ticked p (fst m')"
  using assms by (cases m) (auto simp: tick_def stays_def ticked_def fp_good_def Let_def split: if_splits)

text \<open>An upper bound on the iterations of a step before a clock cycle.\<close>

definition weight :: "('m, 'h) exec_state \<Rightarrow> nat" where
  "weight s = (case es_stack s of
      StartNode i # K \<Rightarrow> (case get_node_by_id (es_forest s) i of Some (External _) \<Rightarrow> length K + 1 | _ \<Rightarrow> 0)
    | K \<Rightarrow> length K)"

lemma weight_le: "weight (mk F K m) \<le> length K"
  by (auto simp: weight_def split: list.splits continuation.splits option.splits mast_node.splits)

section \<open>Matching a step with the uninterrupted run\<close>

text \<open>\<open>step_ok E p n x b\<close>: an iteration from the processor \<open>p\<close> gives \<open>b\<close> with the stopper of a step, where the
  uninterrupted run gives \<open>x\<close>.\<close>

definition step_ok ::
    "('m, 'q, 'h) exec_env \<Rightarrow> 'm fast_processor \<Rightarrow> nat \<Rightarrow> (break_reason + felt list \<times> ('m, 'h) exec_state) option \<Rightarrow>
     (break_reason, ('m, 'h) exec_state) flow \<Rightarrow> bool" where
  "step_ok E p n x b = (case b of
      Break (Stopped c) s \<Rightarrow> x = run E (resume c s) \<and> ticked p (es_processor s) \<and>
        proper_forest (es_forest s) \<and> proper_stack (es_stack (resume c s))
    | Break (BreakErr e) s \<Rightarrow> x = Some (Inl (BreakErr e))
    | Continue s \<Rightarrow> x = run E s \<and> stays p (es_processor s) \<and> proper_forest (es_forest s) \<and> proper_stack (es_stack s) \<and>
        weight s < n)"

lemma step_ok_BreakErr [simp]: "step_ok E p n (Some (Inl (BreakErr e))) (Break (BreakErr e) s)"
  by (simp add: step_ok_def)

lemma step_ok_bind:
  assumes "implements F K a r" and "\<And>m. a = Inr m \<Longrightarrow> step_ok E p n (x m) (serve E' (k (mk F K m)))"
  shows "step_ok E p n (after_res a x) (serve E' (flow_bind (map_break User r) k))"
  using assms by (cases a) auto

lemma step_ok_bind_user:
  assumes "implements F K a r" and "\<And>m. a = Inr m \<Longrightarrow> step_ok E p n (x m) (k (mk F K m))"
  shows "step_ok E p n (after_res a x) (flow_bind r k)"
  using assms by (cases a) auto

lemma step_ok_try:
  assumes "\<And>y. r = Inr y \<Longrightarrow> step_ok E p n (x y) (f y)"
  shows "step_ok E p n (after_res r x) (try_res s r f)"
  using assms by (cases r) (auto simp: try_res_def)

lemma step_tick:
  "finalize_clock_cycle_with_continuation (step_env E) c (mk F K m) = (case tick (length K) m of
     Inl e \<Rightarrow> Break (BreakErr e) (mk F K ((fst m)\<lparr>fp_clk := fp_clk (fst m) + 1\<rparr>, snd m))
   | Inr m' \<Rightarrow> Break (Stopped c) (mk F K m'))"
  by (cases m) (simp add: tick_def finalize_clock_cycle_with_continuation_def step_stopper_def Let_def
      check_if_max_cycles_exceeded_def check_if_continuation_stack_too_large_def fast_processor_impl_def)

lemma serve_tick:
  "serve E' (flow_bind (map_break User (finalize_clock_cycle_with_continuation (step_env E) c (mk F K m))) f) =
   flow_bind (finalize_clock_cycle_with_continuation (step_env E) c (mk F K m)) Continue"
  by (simp add: step_tick split: sum.splits)

lemma step_ok_tick:
  assumes "stays p (fst m)" and "proper_forest F" and "proper_stack (es_stack (resume c (mk F K m)))"
    and "\<And>m'. tick (length K) m = Inr m' \<Longrightarrow> x m' = run E (resume c (mk F K m'))" and "k = length K"
  shows "step_ok E p n (after_res (tick k m) x) (flow_bind (finalize_clock_cycle_with_continuation (step_env E) c (mk F K m)) f)"
  using assms tick_ticked [OF assms(1), of "length K"]
  by (cases "tick (length K) m") (auto simp: step_tick step_ok_def resume_def split: option.splits)

lemma step_ok_tick_end:
  assumes "stays p (fst m)" and "proper_forest F" and "proper_stack K" and "k = length K"
  shows "step_ok E p n (after_res (tick k m) (\<lambda>m. run E (mk F K m))) (finalize_clock_cycle (step_env E) (mk F K m))"
  using step_ok_tick [OF assms(1,2), where c = None and f = Continue and K = K and E = E and k = k] assms(3,4)
  unfolding finalize_clock_cycle_def by (simp add: resume_def)

section \<open>The iterations of a step\<close>

text \<open>\<open>start p F K m\<close>: the assumptions on a state at the beginning of an iteration.\<close>

definition start_ok :: "'m fast_processor \<Rightarrow> mast_forest \<Rightarrow> continuation list \<Rightarrow> ('m, 'h) mach \<Rightarrow> bool" where
  "start_ok p F K m \<longleftrightarrow> stays p (fst m) \<and> proper_forest F \<and> proper_stack K"

lemma start_ok_tick:
  assumes "start_ok p F K m" and "\<And>m'. x m' = run E (mk F (c # K) m')" and "\<And>G. c \<noteq> EnterForest G" and "k = length K"
  shows "step_ok E p n (after_res (tick k m) x)
    (flow_bind (finalize_clock_cycle_with_continuation (step_env E) (Some c) (mk F K m)) f)"
  using assms by (intro step_ok_tick) (auto simp: start_ok_def proper_stack_def resume_def)

lemma start_ok_tick_end:
  assumes "start_ok p F K m" and "\<And>G. EnterForest G \<notin> set cs" and "k = length cs + length K"
  shows "step_ok E p n (after_res (tick k m) (\<lambda>m. run E (mk F (cs @ K) m))) (finalize_clock_cycle (step_env E) (mk F (cs @ K) m))"
  using assms by (intro step_ok_tick_end) (auto simp: start_ok_def proper_stack_def)

lemma start_ok_decorated:
  assumes "start_ok p F K m"
  shows "before_enter E F i m = Inr m' \<Longrightarrow> start_ok p F K m'"
    and "after_exit E F i m = Inr m' \<Longrightarrow> start_ok p F K m'"
    and "before_op E F i k m = Inr m' \<Longrightarrow> start_ok p F K m'"
    and "end_of_block E F bs i m = Inr m' \<Longrightarrow> start_ok p F K m'"
  using assms by (cases m; cases m'; auto simp: start_ok_def dest: decorators_Inr)+

lemma finish_node_step:
  assumes E: "ee_stopper E = never_stopper" and s: "start_ok p F K m"
  shows "step_ok E p n (after_res (finish E F (length K) i m) (\<lambda>m. run E (mk F K m))) (finish_node (step_env E) i (mk F K m))"
  unfolding finish_node_def finish_def after_res_simps
  by (rule start_ok_tick [OF s]) (simp_all add: run_step execute_continuation_def implements_proceed_end [OF decorators_implement(2)])

lemma finish_basic_block_step:
  assumes E: "ee_stopper E = never_stopper" and s: "start_ok p F K m" and u: "unwrap_basic_block F i = Inr bs"
  shows "step_ok E p n (proceed E (map_break User (finish_basic_block E bs i (mk F K m)))) (finish_basic_block (step_env E) bs i (mk F K m))"
  unfolding finish_basic_block_def map_break_bind implements_proceed [OF tick_implements [OF E]]
  by (rule start_ok_tick [OF s]) (simp_all add: run_step execute_continuation_def u map_break_bind)

lemma from_batch_step_ok:
  assumes E: "ee_stopper E = never_stopper" and s: "start_ok p F K m" and u: "unwrap_basic_block F i = Inr bs"
  shows "step_ok E p n (proceed E (execute_basic_block_node_from_batch E bs i b (mk F K m)))
    (serve (step_env E) (execute_basic_block_node_from_batch (step_env E) bs i b (mk F K m)))"
proof (cases "b < length bs")
  case True
  have "step_ok E p n (after_res (tick (length K) m) (\<lambda>m. proceed E (flow_bind (execute_ops E bs i b (batch_offset bs b) (b_ops (bs ! b)) 0
        (mk F K m)) (execute_basic_block_node_from_batch E bs i (b + 1)))))
      (serve (step_env E) (flow_bind (map_break User (finalize_clock_cycle_with_continuation (step_env E)
        (Some (ResumeBasicBlock i b 0)) (mk F K m))) f))" for f
    unfolding serve_tick
    by (rule start_ok_tick [OF s])
      (use True in \<open>simp_all add: run_step execute_continuation_def u execute_basic_block_node_from_op_idx_def execute_op_batch_def\<close>)
  then show ?thesis
    by (simp add: from_batch_step [OF True] implements_proceed [OF tick_implements [OF E]])
next
  case False
  with finish_basic_block_step [OF E s u] show ?thesis
    by (simp add: from_batch_end)
qed

lemma emit_stays:
  assumes "stays p (fst m)" and "emit E m = Inr m'"
  shows "stays p (fst m')"
proof -
  have "\<exists>a. fst m' = (fst m)\<lparr>fp_advice := a\<rparr>"
    using emit_advice [of E "fst m" "snd m" "fst m'" "snd m'"] assms(2) by simp
  then show ?thesis using assms(1) by (auto simp: stays_def fp_good_def)
qed

lemma stays_trans: "stays p p' \<Longrightarrow> stays p' p'' \<Longrightarrow> stays p p''"
  by (simp add: stays_def)

lemma execute_op_stays:
  assumes "fp_good p" and "execute_op X (fast_processor_impl X) resolve op p = Inr p'"
  shows "stays p p'"
proof -
  from fp.execute_op_sim [OF assms(1), of X resolve op] have "fp_good p'" and "isa X resolve op (fp_view p) = Inr (fp_view p')"
    using assms(2) by (simp_all add: sim_def)
  then show ?thesis
    using isa_frame [of X resolve op "fp_view p" "fp_view p'"] by (simp add: stays_def)
qed

lemma serve_emit:
  "serve E (Break (EmitBreak i k c) s) = flow_bind (op_emit_sync E s) (finish_emit_op_execution E c)"
  by (simp add: serve_def serve_break_def)

lemma not_EnterForest: "get_continuation_after_executing_operation bs i b k \<noteq> EnterForest G"
  by (simp add: get_continuation_after_executing_operation_def Let_def)

lemma ops_step:
  assumes E: "ee_stopper E = never_stopper" and s: "start_ok p F K m" and u: "unwrap_basic_block F i = Inr bs" and b: "b < length bs"
  shows "step_ok E p n
    (proceed E (flow_bind (execute_ops E bs i b (batch_offset bs b) (drop k (b_ops (bs ! b))) k (mk F K m))
      (execute_basic_block_node_from_batch E bs i (b + 1))))
    (serve (step_env E) (flow_bind (execute_ops (step_env E) bs i b (batch_offset bs b) (drop k (b_ops (bs ! b))) k (mk F K m))
      (execute_basic_block_node_from_batch (step_env E) bs i (b + 1))))"
proof (cases "drop k (b_ops (bs ! b))")
  case Nil
  with from_batch_step_ok [OF E s u, of n "b + 1"] show ?thesis by simp
next
  case (Cons op ops)
  then have k: "k < length (b_ops (bs ! b))"
    by (metis drop_all leI list.distinct(1))
  from Cons have d: "drop (Suc k) (b_ops (bs ! b)) = ops"
    by (metis drop_Suc list.sel(3) tl_drop)
  let ?c = "get_continuation_after_executing_operation bs i b k"
  note after = run_after_operation [OF u b k, unfolded d, symmetric, of E]
  have next_op: "step_ok E p n
      (proceed E (flow_bind (map_break User (try_res (mk F K m1) (execute_op (ee_lib E) (proc E) (resolve_error_message F) op (fst m1))
        (\<lambda>p. finalize_clock_cycle_with_continuation E (Some ?c) (mk F K (p, snd m1))))) (\<lambda>s.
        flow_bind (execute_ops E bs i b (batch_offset bs b) ops (Suc k) s) (execute_basic_block_node_from_batch E bs i (b + 1)))))
      (serve (step_env E) (flow_bind (map_break User (try_res (mk F K m1) (execute_op (ee_lib E) (proc E) (resolve_error_message F) op (fst m1))
        (\<lambda>p. finalize_clock_cycle_with_continuation (step_env E) (Some ?c) (mk F K (p, snd m1))))) f))"
    if s1: "start_ok p F K m1" for m1 f
  proof (cases "execute_op (ee_lib E) (proc E) (resolve_error_message F) op (fst m1)")
    case (Inr p2)
    have "stays p p2"
      using s1 execute_op_stays [OF _ Inr] by (auto simp: start_ok_def stays_def)
    then have "start_ok p F K (p2, snd m1)" using s1 by (simp add: start_ok_def)
    then show ?thesis
      by (simp only: Inr try_res_def sum.case implements_proceed [OF tick_implements [OF E]] serve_tick)
        (rule start_ok_tick, simp_all add: after [simplified] not_EnterForest)
  qed (simp add: try_res_def)
  have emits: "step_ok E p n (proceed E (Break (EmitBreak i j ?c) (mk F K m1))) (serve (step_env E) (Break (EmitBreak i j ?c) (mk F K m1)))"
    if s1: "start_ok p F K m1" for m1 j
    unfolding proceed_emit [OF E] serve_emit
  proof (rule step_ok_bind_user [where a = "emit E m1"], rule implements_step)
    fix m2 assume "emit E m1 = Inr m2"
    then have "start_ok p F K m2" using s1 emit_stays [of p m1 E m2] by (simp add: start_ok_def)
    then show "step_ok E p n (after_res (tick (length K) m2) (\<lambda>m. run E (mk F (?c # K) m))) (finish_emit_op_execution (step_env E) ?c (mk F K m2))"
      unfolding finish_emit_op_execution_def by (rule start_ok_tick) (simp_all add: not_EnterForest)
  qed
  show ?thesis
    unfolding Cons execute_ops.simps flow_bind_assoc implements_proceed [OF decorators_implement(3)]
    apply (rule step_ok_bind [where F = F and K = K and a = "before_op E F i (batch_offset bs b + k) m"])
    subgoal by (rule implements_step)
    subgoal premises prem for m1
      using next_op [OF start_ok_decorated(3) [OF s prem]] emits [OF start_ok_decorated(3) [OF s prem]]
      by (cases "op = Emit") (simp_all add: Let_def flow_bind_assoc)
    done
qed

section \<open>Control flow in a step\<close>

lemma stays_good: "stays p p' \<Longrightarrow> fp_good p'"
  by (simp add: stays_def)

lemma stays_view:
  "fp_good p' \<Longrightarrow> v_clk (fp_view p') = v_clk (fp_view p) \<Longrightarrow> v_options (fp_view p') = v_options (fp_view p) \<Longrightarrow> stays p p'"
  by (simp add: stays_def)

lemma processor_stays:
  assumes "fp_good p"
  shows "decrement_size (fast_processor_impl X) p = Inr p' \<Longrightarrow> stays p p'"
    and "save_context_and_truncate_stack (fast_processor_impl X) p = Inr p' \<Longrightarrow> stays p p'"
    and "restore_context (fast_processor_impl X) p = Inr p' \<Longrightarrow> stays p p'"
    and "stays p (set_ctx (fast_processor_impl X) p c)"
    and "stays p (set_caller_hash (fast_processor_impl X) p w)"
    and "write_element (fast_processor_impl X) p c a x = Inr p' \<Longrightarrow> stays p p'"
    and "read_word (fast_processor_impl X) p c a k = Inr (w', p') \<Longrightarrow> stays p p'"
  using fp_stack.decrement_law [OF assms, of X] fp_context.save_law [OF assms, of X] fp_context.restore_law [OF assms, of X]
    fp_system.set_ctx_law [OF assms, of X c] fp_system.set_caller_hash_law [OF assms, of X w]
    fp_memory.write_element_law [OF assms, of X c a x] fp_memory.read_word_law [OF assms, of X c a k]
  by (auto simp: yields_def sim_state_def sim_val_def vpop_def vshrink_def vsave_def vrestore_def res_map_def res_bind_eq_Inr
      simp del: fp_view_simps intro!: stays_view split: if_splits list.splits dest!: sym [of _ "fp_view p'"])

lemma stays_then:
  assumes "stays p p1"
  shows "decrement_size (fast_processor_impl X) p1 = Inr p' \<Longrightarrow> stays p p'"
    and "save_context_and_truncate_stack (fast_processor_impl X) p1 = Inr p' \<Longrightarrow> stays p p'"
    and "restore_context (fast_processor_impl X) p1 = Inr p' \<Longrightarrow> stays p p'"
    and "stays p (set_ctx (fast_processor_impl X) p1 c)"
    and "stays p (set_caller_hash (fast_processor_impl X) p1 w)"
    and "write_element (fast_processor_impl X) p1 c a x = Inr p' \<Longrightarrow> stays p p'"
    and "read_word (fast_processor_impl X) p1 c a k = Inr (w', p') \<Longrightarrow> stays p p'"
proof -
  note s = stays_trans [OF assms processor_stays(1) [OF stays_good [OF assms]]]
    stays_trans [OF assms processor_stays(2) [OF stays_good [OF assms]]]
    stays_trans [OF assms processor_stays(3) [OF stays_good [OF assms]]]
    stays_trans [OF assms processor_stays(4) [OF stays_good [OF assms]]]
    stays_trans [OF assms processor_stays(5) [OF stays_good [OF assms]]]
    stays_trans [OF assms processor_stays(6) [OF stays_good [OF assms]]]
    stays_trans [OF assms processor_stays(7) [OF stays_good [OF assms]]]
  show "decrement_size (fast_processor_impl X) p1 = Inr p' \<Longrightarrow> stays p p'"
    "save_context_and_truncate_stack (fast_processor_impl X) p1 = Inr p' \<Longrightarrow> stays p p'"
    "restore_context (fast_processor_impl X) p1 = Inr p' \<Longrightarrow> stays p p'"
    "stays p (set_ctx (fast_processor_impl X) p1 c)" "stays p (set_caller_hash (fast_processor_impl X) p1 w)"
    "write_element (fast_processor_impl X) p1 c a x = Inr p' \<Longrightarrow> stays p p'"
    "read_word (fast_processor_impl X) p1 c a k = Inr (w', p') \<Longrightarrow> stays p p'"
    by (erule s | rule s)+
qed

lemma pop_condition_stays:
  assumes "stays p (fst m)"
  shows "pop_condition E err m = Inr (c, m') \<Longrightarrow> stays p (fst m')"
    and "pop_loop_condition E m = Inr (c, m') \<Longrightarrow> stays p (fst m')"
  by (cases m; use assms in \<open>auto simp: pop_condition_def pop_loop_condition_def res_bind_eq_Inr res_map_def
      dest: stays_then(1) split: if_splits\<close>)+

lemma enter_call_stays:
  assumes s: "stays p (fst m)" and "on_proc (enter_call E F callee is_syscall) m = Inr m'"
  shows "stays p (fst m')"
proof -
  from assms(2) have "enter_call E F callee is_syscall (fst m) = Inr (fst m')"
    by (cases m) (auto simp: on_proc_def res_map_def res_bind_eq_Inr)
  then obtain p1 node where p1: "save_context_and_truncate_stack (proc E) (fst m) = Inr p1" and
    p': "(if is_syscall then if contains_proc (ee_kernel E) (digest node) then Inr (set_ctx (proc E) p1 0)
        else Inl (OperationErr (SyscallTargetNotInKernel (digest node)))
      else res_map_err MemoryErr (write_element (proc E) (set_caller_hash (proc E) (set_ctx (proc E) p1 (get_next_ctx_id E p1))
        (digest node)) (get_next_ctx_id E p1) FMP_ADDR FMP_INIT_VALUE)) = Inr (fst m')"
    unfolding enter_call_def res_bind_eq_Inr Let_def by blast
  note s1 = stays_then(2) [OF s p1]
  show ?thesis
  proof (cases is_syscall)
    case True
    then show ?thesis using p' stays_then(4) [OF s1, of "ee_lib E" 0] by (auto split: if_splits)
  next
    case False
    with p' have "write_element (proc E) (set_caller_hash (proc E) (set_ctx (proc E) p1 (get_next_ctx_id E p1)) (digest node))
        (get_next_ctx_id E p1) FMP_ADDR FMP_INIT_VALUE = Inr (fst m')"
      by (auto dest: res_map_err_Inr)
    then show ?thesis by (rule stays_then(6) [OF stays_then(5) [OF stays_then(4) [OF s1]]])
  qed
qed

lemma enter_dynamic_stays:
  assumes s: "stays p (fst m)" and "enter_dynamic E dyncall m = Inr (d, m')"
  shows "stays p (fst m')"
proof -
  obtain a w p1 p2 where p: "read_word (proc E) (fst m) (ctx (proc E) (fst m)) a (clock (proc E) (fst m)) = Inr (w, p1)"
      "decrement_size (proc E) p1 = Inr p2"
    and p': "if dyncall then \<exists>p3. save_context_and_truncate_stack (proc E) p2 = Inr p3 \<and>
        write_element (proc E) (set_caller_hash (proc E) (set_ctx (proc E) p3 (get_next_ctx_id E p2)) w)
          (get_next_ctx_id E p2) FMP_ADDR FMP_INIT_VALUE = Inr (fst m') else fst m' = p2"
    using assms(2) by (cases m) (auto simp: enter_dynamic_def enter_dyn_def res_bind_eq_Inr res_map_def Let_def
        dest!: res_map_err_Inr split: if_splits)
  note s2 = stays_then(1) [OF stays_then(7) [OF s p(1)] p(2)]
  show ?thesis
  proof (cases dyncall)
    case True
    then obtain p3 where p3: "save_context_and_truncate_stack (proc E) p2 = Inr p3" and
      w: "write_element (proc E) (set_caller_hash (proc E) (set_ctx (proc E) p3 (get_next_ctx_id E p2)) w)
          (get_next_ctx_id E p2) FMP_ADDR FMP_INIT_VALUE = Inr (fst m')"
      using p' by auto
    from stays_then(2) [OF s2 p3] show ?thesis
      by (rule stays_then(6) [OF stays_then(5) [OF stays_then(4)] w])
  next
    case False
    then show ?thesis using p' s2 by simp
  qed
qed

lemma load_stays:
  assumes "stays p (fst m)" and "load E d m = Inr (j, G, m')"
  shows "stays p (fst m')"
  using assms by (cases m) (auto simp: load_def res_bind_eq_Inr stays_def fp_good_def)

lemma leave_stays:
  assumes "stays p (fst m)" and "leave E b m = Inr m'"
  shows "stays p (fst m')"
  using assms by (cases m) (auto simp: leave_def on_proc_def res_bind_eq_Inr res_map_def intro: stays_then(3) split: if_splits)

lemma start_ok_with: "start_ok p F K m \<Longrightarrow> stays p (fst m') \<Longrightarrow> start_ok p F K m'"
  by (simp add: start_ok_def)

lemma start_ok_stays: "start_ok p F K m \<Longrightarrow> stays p (fst m)"
  by (simp add: start_ok_def)

lemma start_block_step:
  assumes E: "ee_stopper E = never_stopper" and s: "start_ok p F K m" and F: "get_node_by_id F i = Some (Block bs d)"
  shows "step_ok E p n (proceed E (execute_basic_block_node_from_start E bs i (mk F K m)))
    (serve (step_env E) (execute_basic_block_node_from_start (step_env E) bs i (mk F K m)))"
proof -
  have "bs \<noteq> []" using s F by (auto simp: start_ok_def proper_forest_def)
  then have c: "run E (mk F (ResumeBasicBlock i 0 0 # K) m) = proceed E (flow_bind (if bs \<noteq> [] then execute_op_batch E bs i 0 0 0 (mk F K m)
      else Continue (mk F K m)) (execute_basic_block_node_from_batch E bs i 1))" for m
    by (simp add: run_step execute_continuation_def unwrap_basic_block_def F execute_basic_block_node_from_op_idx_def
        batch_offset_def)
  show ?thesis
    unfolding execute_basic_block_node_from_start_def implements_proceed [OF decorators_implement(1)]
      implements_proceed [OF tick_implements [OF E]]
    apply (rule step_ok_bind [where F = F and K = K and a = "before_enter E F i m"])
    subgoal by (rule implements_step)
    subgoal premises prem for m1
      unfolding serve_tick by (rule start_ok_tick [OF start_ok_decorated(1) [OF s prem]]) (simp_all add: c)
    done
qed

lemma start_join_step:
  assumes E: "ee_stopper E = never_stopper" and s: "start_ok p F K m"
  shows "step_ok E p n (proceed E (map_break User (start_join_node E a b i (mk F K m)))) (start_join_node (step_env E) a b i (mk F K m))"
  unfolding run_start_join [OF E] unfolding start_join_node_def
  apply (rule step_ok_bind_user [where F = F and K = K and a = "before_enter E F i m"])
  subgoal by (rule implements_step)
  subgoal premises prem for m1
    using start_ok_tick_end [OF start_ok_decorated(1) [OF s prem], of "[StartNode a, StartNode b, FinishJoin i]" "length K + 3" E n] by simp
  done

lemma push_step:
  assumes "start_ok p F K m" and "stays p q" and "\<And>G. c \<noteq> EnterForest G"
  shows "step_ok E p n (after_res (tick (Suc (Suc (length K))) (q, h)) (\<lambda>m. run E (mk F (StartNode j # c # K) m)))
    (finalize_clock_cycle (step_env E) (mk F (StartNode j # c # K) (q, h)))"
proof -
  have "start_ok p F K (q, h)" using assms(1,2) by (simp add: start_ok_def)
  from start_ok_tick_end [OF this, of "[StartNode j, c]" "length K + 2" E n] show ?thesis using assms(3) by auto
qed

lemma start_split_step:
  assumes E: "ee_stopper E = never_stopper" and s: "start_ok p F K m"
  shows "step_ok E p n (proceed E (map_break User (start_split_node E a b i (mk F K m)))) (start_split_node (step_env E) a b i (mk F K m))"
  unfolding run_start_split [OF E] unfolding start_split_node_def
  apply (rule step_ok_bind_user [where F = F and K = K and a = "before_enter E F i m"])
  subgoal by (rule implements_step)
  subgoal premises prem for m1
    using start_ok_decorated(1) [OF s prem] stays_then(1) [OF start_ok_stays [OF start_ok_decorated(1) [OF s prem]], of "ee_lib E"]
    by (auto simp: pop_condition_def split_def Let_def intro!: step_ok_try intro: push_step)
  done

lemma start_loop_step:
  assumes E: "ee_stopper E = never_stopper" and s: "start_ok p F K m" and F: "get_node_by_id F i = Some (Loop body d)"
  shows "step_ok E p n (proceed E (map_break User (start_loop_node E body i (mk F K m)))) (start_loop_node (step_env E) body i (mk F K m))"
proof -
  have l: "step_ok E p n (after_res (tick (length K) (q, h)) (\<lambda>m. after_res (finish E F (length K) i m) (\<lambda>m. run E (mk F K m))))
      (flow_bind (finalize_clock_cycle_with_continuation (step_env E) (Some (FinishLoop i False)) (mk F K (q, h))) f)"
    if "stays p q" for q h f
    by (rule start_ok_tick [OF start_ok_with [OF s]])
      (simp_all add: that run_step execute_continuation_def finish_loop_node_def node_at_def F unwrap_loop_def run_finish_node [OF E])
  show ?thesis
    unfolding run_start_loop [OF E F] unfolding start_loop_node_def
    apply (rule step_ok_bind_user [where F = F and K = K and a = "before_enter E F i m"])
    subgoal by (rule implements_step)
    subgoal premises prem for m1
      using start_ok_decorated(1) [OF s prem] stays_then(1) [OF start_ok_stays [OF start_ok_decorated(1) [OF s prem]], of "ee_lib E"]
      by (auto simp: pop_condition_def split_def Let_def intro!: step_ok_try intro: push_step l)
    done
qed

lemma finish_loop_step:
  assumes E: "ee_stopper E = never_stopper" and s: "start_ok p F K m"
  shows "step_ok E p n (proceed E (map_break User (finish_loop_node E b i (mk F K m)))) (finish_loop_node (step_env E) b i (mk F K m))"
proof -
  have f: "step_ok E p n (proceed E (map_break User (finish_node E i (mk F K (q, h))))) (finish_node (step_env E) i (mk F K (q, h)))"
    if "stays p q" for q h
    unfolding run_finish_node [OF E] using s that by (intro finish_node_step [OF E]) (simp add: start_ok_def)
  have "stays p (fst m)" by (rule start_ok_stays [OF s])
  with f [of "fst m" "snd m"] stays_then(1) [OF this, of "ee_lib E"] show ?thesis
    by (cases "get (proc E) (fst m) 0"; cases "res_bind (node_at F i) unwrap_loop"; cases "decrement_size (proc E) (fst m)"; cases b)
      (auto simp: finish_loop_node_def try_res_def run_tick [OF E] intro: push_step [OF s] f)
qed

text \<open>A call after the decorators.\<close>

definition call_rest ::
    "('m, 'q, 'h) exec_env \<Rightarrow> node_id \<Rightarrow> bool \<Rightarrow> node_id \<Rightarrow> ('m, 'h) exec_state \<Rightarrow> (break_reason, ('m, 'h) exec_state) flow" where
  "call_rest E callee is_syscall i s =
     try_res s (save_context_and_truncate_stack (proc E) (es_processor s)) (\<lambda>p.
     let s = s\<lparr>es_processor := p\<rparr> in
     try_res s (res_map digest (node_at (es_forest s) callee)) (\<lambda>callee_hash.
     flow_bind
       (if is_syscall then
          (if \<not> contains_proc (ee_kernel E) callee_hash
           then Break (BreakErr (OperationErr (SyscallTargetNotInKernel callee_hash))) s
           else Continue (s\<lparr>es_processor := set_ctx (proc E) p 0\<rparr>))
        else
          let new_ctx = get_next_ctx_id E p;
              p = set_caller_hash (proc E) (set_ctx (proc E) p new_ctx) callee_hash in
          try_res s (res_map_err MemoryErr (write_element (proc E) p new_ctx FMP_ADDR FMP_INIT_VALUE)) (\<lambda>p.
          Continue (s\<lparr>es_processor := p\<rparr>))) (\<lambda>s.
     finalize_clock_cycle E (push_conts [StartNode callee, FinishCall i] s))))"

lemma start_call_node_rest:
  "start_call_node E callee is_syscall i s =
   flow_bind (execute_before_enter_decorators E i s) (call_rest E callee is_syscall i)"
  unfolding start_call_node_def call_rest_def [abs_def] ..

lemma call_rest_enter:
  "case enter_call E F callee is_syscall (fst m) of
     Inl e \<Rightarrow> \<exists>t. call_rest E callee is_syscall i (mk F K m) = Break (BreakErr e) t
   | Inr q \<Rightarrow> call_rest E callee is_syscall i (mk F K m) =
       finalize_clock_cycle E (mk F (StartNode callee # FinishCall i # K) (q, snd m))"
  by (cases "save_context_and_truncate_stack (proc E) (fst m)"; cases "node_at F callee")
    (auto simp: call_rest_def enter_call_def try_res_def Let_def split: sum.splits)

lemma enter_call_step [simp]: "enter_call (step_env E) = enter_call E"
  unfolding enter_call_def [abs_def] step_env_sel pieces_step ..

lemma start_call_step:
  assumes E: "ee_stopper E = never_stopper" and s: "start_ok p F K m"
  shows "step_ok E p n (proceed E (map_break User (start_call_node E callee is_syscall i (mk F K m))))
    (start_call_node (step_env E) callee is_syscall i (mk F K m))"
  unfolding run_start_call [OF E] unfolding start_call_node_rest
  apply (rule step_ok_bind_user [where F = F and K = K and a = "before_enter E F i m"])
  subgoal by (rule implements_step)
  subgoal premises prem for m1
    using enter_call_stays [OF start_ok_stays [OF start_ok_decorated(1) [OF s prem]], of E F callee is_syscall]
      call_rest_enter [where E = "step_env E" and F = F and callee = callee and is_syscall = is_syscall and m = m1 and i = i and K = K]
    by (cases m1; cases "enter_call E F callee is_syscall (fst m1)") (auto simp: on_proc_def intro: push_step [OF s])
  done

lemma finish_call_step:
  assumes E: "ee_stopper E = never_stopper" and s: "start_ok p F K m"
  shows "step_ok E p n (proceed E (map_break User (finish_call_node E i (mk F K m)))) (finish_call_node (step_env E) i (mk F K m))"
    and "step_ok E p n (proceed E (map_break User (finish_dyn_node E i (mk F K m)))) (finish_dyn_node (step_env E) i (mk F K m))"
proof -
  have f: "step_ok E p n (proceed E (map_break User (finish_node E i (mk F K (q, h))))) (finish_node (step_env E) i (mk F K (q, h)))"
    if "stays p q" for q h
    unfolding run_finish_node [OF E] using s that by (intro finish_node_step [OF E]) (simp add: start_ok_def)
  have "stays p (fst m)" by (rule start_ok_stays [OF s])
  note f [OF this, of "snd m"] stays_then(3) [OF this, of "ee_lib E"]
  then show "step_ok E p n (proceed E (map_break User (finish_call_node E i (mk F K m)))) (finish_call_node (step_env E) i (mk F K m))"
    and "step_ok E p n (proceed E (map_break User (finish_dyn_node E i (mk F K m)))) (finish_dyn_node (step_env E) i (mk F K m))"
    by (cases "restore_context (proc E) (fst m)"; cases "res_bind (node_at F i) unwrap_dyn";
        auto simp: finish_call_node_def finish_dyn_node_def try_res_def intro: f)+
qed

lemma load_proper:
  assumes "proper_host (ee_host E)" and "load E d m = Inr (j, G, m')"
  shows "proper_forest G"
  using assms by (cases m) (auto simp: load_def proper_host_def res_bind_eq_Inr ok_or_def split: option.splits)

lemma load_step [simp]: "load (step_env E) = load E"
  unfolding load_def [abs_def] step_env_sel ..

lemma load_sync:
  "load E d m = res_map (\<lambda>(j, G, a). (j, G, ((fst m)\<lparr>fp_advice := a\<rparr>, snd m))) (load_mast_forest_sync E d (mk F K m))"
  by (cases m) (simp add: load_def load_mast_forest_sync_def res_map_def res_bind_assoc)

lemma serve_load:
  "serve E (Break (LoadMastForestFromDyn i d) (mk F K m)) = (case load E d m of
     Inl e \<Rightarrow> Break (BreakErr e) (mk F K m)
   | Inr (j, G, m') \<Rightarrow> finalize_clock_cycle E (mk G (StartNode j # EnterForest F # K) m'))"
  "serve E (Break (LoadMastForestFromExternal i d) (mk F K m)) = (case load E d m of
     Inl e \<Rightarrow> Break (BreakErr e) (mk F K m)
   | Inr (j, G, m') \<Rightarrow> finish_load_mast_forest_from_external E j G i (mk F K m'))"
  by (cases "load_mast_forest_sync E d (mk F K m)";
      simp add: serve_def serve_break_def load_sync [where F = F and K = K] try_res_def finish_load_mast_forest_from_dyn_start_def split_def)+

lemma start_dyn_step:
  assumes E: "ee_stopper E = never_stopper" and h: "proper_host (ee_host E)" and s: "start_ok p F K m"
    and F: "get_node_by_id F i = Some (Dyn dyncall d)"
  shows "step_ok E p n (proceed E (start_dyn_node E i (mk F K m))) (serve (step_env E) (start_dyn_node (step_env E) i (mk F K m)))"
proof -
  have load: "step_ok E p n (after_res (load E d (q, h)) (\<lambda>(j, G, m). after_res (tick (length K + 3) m) (\<lambda>m.
        run E (mk G (StartNode j # EnterForest F # FinishDyn i # K) m))))
      (serve (step_env E) (Break (LoadMastForestFromDyn i d) (mk F (FinishDyn i # K) (q, h))))"
    if q: "stays p q" for q h d
  proof (cases "load E d (q, h)")
    case (Inr x)
    obtain j G m' where x: "x = (j, G, m')" by (cases x)
    have "stays p (fst m')" "proper_forest G" "proper_forest F"
      using load_stays [of p "(q, h)" E d j G m'] load_proper [OF assms(2), of d "(q, h)" j G m'] q Inr x s by (auto simp: start_ok_def)
    moreover have "proper_stack (StartNode j # EnterForest F # FinishDyn i # K)"
      using s by (auto simp: start_ok_def proper_stack_def)
    ultimately show ?thesis
      by (simp add: Inr x serve_load) (rule step_ok_tick_end, simp_all)
  qed (simp add: serve_load)
  have enter: "step_ok E p n (after_res (enter_dynamic E dyncall m1) (\<lambda>(d, m).
      after_res (find_procedure_root F d) (\<lambda>callee. case callee of
        Some j \<Rightarrow> after_res (tick (length K + 2) m) (\<lambda>m. run E (mk F (StartNode j # FinishDyn i # K) m))
      | None \<Rightarrow> after_res (load E d m) (\<lambda>(j, G, m). after_res (tick (length K + 3) m) (\<lambda>m.
          run E (mk G (StartNode j # EnterForest F # FinishDyn i # K) m))))))
      (serve (step_env E) (case enter_dyn E dyncall (fst m1) of
         Inl e \<Rightarrow> Break (User (BreakErr e)) (mk F K m1)
       | Inr (callee_hash, q) \<Rightarrow> (case find_procedure_root F callee_hash of
            Inl e \<Rightarrow> Break (User (BreakErr e)) (mk F (FinishDyn i # K) (q, snd m1))
          | Inr (Some callee_id) \<Rightarrow> map_break User (finalize_clock_cycle (step_env E) (mk F (StartNode callee_id # FinishDyn i # K) (q, snd m1)))
          | Inr None \<Rightarrow> Break (LoadMastForestFromDyn i callee_hash) (mk F (FinishDyn i # K) (q, snd m1)))))"
    if "start_ok p F K m1" for m1
  proof (cases "enter_dyn E dyncall (fst m1)")
    case (Inr x)
    obtain d' q where x: "x = (d', q)" by (cases x)
    have "stays p q"
      using enter_dynamic_stays [OF start_ok_stays [OF that], of E dyncall d' "(q, snd m1)"] Inr x by (simp add: enter_dynamic_def split_def)
    then show ?thesis
      using load [of q d' "snd m1"]
      by (auto simp: Inr x enter_dynamic_def split_def after_res_def [of "find_procedure_root F d'"] intro: push_step [OF s]
          split: sum.splits option.splits)
  qed (simp add: enter_dynamic_def split_def)
  have node: "res_bind (res_bind (node_at F i) unwrap_dyn) f = f dyncall" for f :: "bool \<Rightarrow> 'z res"
    by (simp add: node_at_def F unwrap_dyn_def)
  show ?thesis
    unfolding run_start_dyn [OF E F] unfolding start_dyn_node_def
    apply (rule step_ok_bind [where F = F and K = K and a = "before_enter E F i m"])
    subgoal by (rule implements_step)
    subgoal premises prem for m1
      using enter [OF start_ok_decorated(1) [OF s prem]] unfolding Let_def mk_sel node pieces_step append.simps .
    done
qed

lemma start_external_step:
  assumes E: "ee_stopper E = never_stopper" and h: "proper_host (ee_host E)" and s: "start_ok p F K m"
    and F: "get_node_by_id F i = Some (External d)" and n: "0 < n"
  shows "step_ok E p n (proceed E (execute_external_node E i (mk F K m))) (serve (step_env E) (execute_external_node (step_env E) i (mk F K m)))"
proof -
  have load: "step_ok E p n (after_res (load E d m1) (\<lambda>(j, G, m). after_res (node_at G j) (\<lambda>root.
        if is_external root then Some (Inl (BreakErr (OperationErr (CircularExternalNode d))))
        else run E (mk G (StartNode j # EnterForest F # FinishExternal i # K) m))))
      (serve (step_env E) (Break (LoadMastForestFromExternal i d) (mk F K m1)))"
    if s1: "start_ok p F K m1" for m1
  proof (cases "load E d m1")
    case (Inr x)
    obtain j G m' where x: "x = (j, G, m')" by (cases x)
    have ok: "stays p (fst m')" "proper_forest G" "proper_stack (StartNode j # EnterForest F # FinishExternal i # K)"
      using load_stays [OF start_ok_stays [OF s1], of E d j G m'] load_proper [OF h, of d m1 j G m'] Inr x s
      by (auto simp: start_ok_def proper_stack_def)
    have "weight (mk G (StartNode j # EnterForest F # FinishExternal i # K) m') < n" if "node_at G j = Inr root" "\<not> is_external root" for root
      using that n by (cases root) (auto simp: weight_def node_at_def split: option.splits)
    with ok show ?thesis
      by (cases "node_at G j") (auto simp: Inr x serve_load finish_load_mast_forest_from_external_def node_at_def [of F] F
          unwrap_external_def try_res_def step_ok_def)
  qed (simp add: serve_load)
  show ?thesis
    unfolding run_start_external [OF E F] unfolding execute_external_node_def
    apply (rule step_ok_bind [where F = F and K = K and a = "before_enter E F i m"])
    subgoal by (rule implements_step)
    subgoal premises prem for m1
      using load [OF start_ok_decorated(1) [OF s prem]] by (simp add: node_at_def [of F] F unwrap_external_def)
    done
qed

text \<open>The continuations that only run decorators or switch forests.\<close>

lemma decorators_step:
  assumes s: "start_ok p F K m" and n: "length K < n"
  shows "step_ok E p n (proceed E (map_break User (execute_after_exit_decorators E i (mk F K m)))) (execute_after_exit_decorators (step_env E) i (mk F K m))"
    and "step_ok E p n (proceed E (map_break User (flow_bind (execute_end_of_block_decorators E bs i (mk F K m)) (execute_after_exit_decorators E i))))
      (flow_bind (execute_end_of_block_decorators (step_env E) bs i (mk F K m)) (execute_after_exit_decorators (step_env E) i))"
proof -
  have c: "step_ok E p n (run E (mk F K m1)) (Continue (mk F K m1))" if "start_ok p F K m1" for m1
    using that n weight_le [of F K m1] by (simp add: step_ok_def start_ok_def)
  have a: "step_ok E p n (proceed E (map_break User (execute_after_exit_decorators E i (mk F K m1)))) (execute_after_exit_decorators (step_env E) i (mk F K m1))"
    if "start_ok p F K m1" for m1
    using step_ok_bind_user [OF implements_step(2), where k = Continue, of E F i m1 E p n "\<lambda>m. run E (mk F K m)" K] c
      start_ok_decorated(2) [OF that, of E i] by (auto simp: implements_proceed_end [OF decorators_implement(2)])
  show "step_ok E p n (proceed E (map_break User (execute_after_exit_decorators E i (mk F K m)))) (execute_after_exit_decorators (step_env E) i (mk F K m))"
    by (rule a [OF s])
  show "step_ok E p n (proceed E (map_break User (flow_bind (execute_end_of_block_decorators E bs i (mk F K m)) (execute_after_exit_decorators E i))))
      (flow_bind (execute_end_of_block_decorators (step_env E) bs i (mk F K m)) (execute_after_exit_decorators (step_env E) i))"
    unfolding map_break_bind implements_proceed [OF decorators_implement(4)]
    by (rule step_ok_bind_user [OF implements_step(4)]) (rule a [OF start_ok_decorated(4) [OF s]])
qed

lemma iteration_step:
  assumes E: "ee_stopper E = never_stopper" and h: "proper_host (ee_host E)" and s: "start_ok p F K m"
    and c: "proper_stack (c # K)"
  shows "step_ok E p (weight (mk F (c # K) m)) (run E (mk F (c # K) m))
    (serve (step_env E) (execute_continuation (step_env E) c (mk F K m)))"
proof -
  let ?n = "weight (mk F (c # K) m)"
  have n: "length K < ?n" if "\<forall>i. c \<noteq> StartNode i"
    using that by (cases c) (simp_all add: weight_def)
  note f = finish_node_step [OF E s, folded run_finish_node [OF E]]
  show ?thesis
    unfolding run_step
  proof (cases c)
    case (StartNode i)
    show "step_ok E p ?n (proceed E (execute_continuation E c (mk F K m))) (serve (step_env E) (execute_continuation (step_env E) c (mk F K m)))"
    proof (cases "get_node_by_id F i")
      case (Some node)
      with StartNode show ?thesis
        using start_block_step [OF E s] start_join_step [OF E s] start_split_step [OF E s] start_loop_step [OF E s]
          start_call_step [OF E s] start_dyn_step [OF E h s] start_external_step [OF E h s]
        by (cases node) (simp_all add: execute_continuation_def start_node_def weight_def)
    qed (simp add: StartNode execute_continuation_def start_node_def)
  next
    case (ResumeBasicBlock i b k)
    then show "step_ok E p ?n (proceed E (execute_continuation E c (mk F K m))) (serve (step_env E) (execute_continuation (step_env E) c (mk F K m)))"
      using ops_step [OF E s, of i _ b ?n k]
      by (auto simp: execute_continuation_def execute_basic_block_node_from_op_idx_def execute_op_batch_def split: sum.splits)
  next
    case (EnterForest G)
    with c s n weight_le [of G K m] show "step_ok E p ?n (proceed E (execute_continuation E c (mk F K m)))
        (serve (step_env E) (execute_continuation (step_env E) c (mk F K m)))"
      by (simp add: execute_continuation_def step_ok_def start_ok_def proper_stack_def)
  qed (use f n finish_loop_step [OF E s] finish_call_step [OF E s] decorators_step [OF s] from_batch_step_ok [OF E s] finish_basic_block_step [OF E s]
      in \<open>auto simp: execute_continuation_def finish_join_node_def finish_split_node_def split: sum.splits\<close>)
qed

section \<open>Steps\<close>

text \<open>\<open>step_result E p x r\<close>: \<open>r\<close> is the result of a step from the processor \<open>p\<close>, where the uninterrupted run gives \<open>x\<close>.\<close>

definition step_result ::
    "('m, 'q, 'h) exec_env \<Rightarrow> 'm fast_processor \<Rightarrow> (break_reason + felt list \<times> ('m, 'h) exec_state) option \<Rightarrow>
     (break_reason \<times> ('m, 'h) exec_state) + (felt list \<times> ('m, 'h) exec_state) \<Rightarrow> bool" where
  "step_result E p x r = (case r of
      Inl (b, s) \<Rightarrow> step_ok E p 0 x (Break b s)
    | Inr (outputs, s) \<Rightarrow> x = Some (Inr (outputs, s)) \<and> stays p (es_processor s) \<and>
        final_stack_outputs (es_processor s) = Inr outputs)"

lemma step_returns:
  assumes E: "ee_stopper E = never_stopper" and h: "proper_host (ee_host E)" and s: "start_ok p F K m"
  shows "\<exists>r. fp_execute_impl (step_env E) (mk F K m) = Some r \<and> step_result E p (run E (mk F K m)) r"
  using s
proof (induction "weight (mk F K m)" arbitrary: F K m rule: less_induct)
  case less
  show ?case
  proof (cases K)
    case Nil
    with less.prems show ?thesis
      by (auto simp: fp_execute_impl_nil run_nil step_result_def start_ok_def split: sum.splits)
  next
    case (Cons c L)
    with less.prems have "start_ok p F L m" "proper_stack (c # L)"
      by (auto simp: start_ok_def proper_stack_def)
    note i = iteration_step [OF E h this]
    show ?thesis
    proof (cases "serve (step_env E) (execute_continuation (step_env E) c (mk F L m))")
      case (Break b t)
      with i show ?thesis
        by (auto simp: Cons fp_execute_impl_step step_result_def step_ok_def split: break_reason.splits)
    next
      case (Continue t)
      obtain G J m' where t: "t = mk G J m'"
        using mk_eta [of t] by metis
      with i Continue have r: "run E (mk F K m) = run E (mk G J m')" "start_ok p G J m'" "weight (mk G J m') < weight (mk F K m)"
        by (simp_all add: step_ok_def start_ok_def Cons)
      from less.hyps [OF r(3,2)] r(1) show ?thesis
        by (simp add: Cons fp_execute_impl_step Continue t)
    qed
  qed
qed

text \<open>Contexts to resume from.\<close>

definition proper_context :: "resume_context \<Rightarrow> bool" where
  "proper_context c \<longleftrightarrow> proper_forest (rc_forest c) \<and> proper_stack (rc_stack c)"

lemma run_env_step: "step_env (run_env X H host never_stopper hashes) = run_env X H host step_stopper hashes"
  by (simp add: step_env_def run_env_def)

lemma run_env_sel [simp]:
  "ee_stopper (run_env X H host st hashes) = st" "ee_host (run_env X H host st hashes) = host"
  by (simp_all add: run_env_def)

text \<open>A step returns; if it returns a context to resume from, one clock cycle has passed, and the uninterrupted
  run goes on from there.\<close>

lemma step_sync_cases:
  fixes h :: 'h and host :: "('m, 'h) sync_host" and X :: "('m, 'q) crypto_lib" and H :: hash_lib
  assumes "proper_host host" and "proper_context c" and "fp_good p"
  defines "E \<equiv> run_env X H host never_stopper (rc_kernel c)"
  obtains (error) e where "step_sync X H host p h c = Some (Inl e)" "run E (mk (rc_forest c) (rc_stack c) (p, h)) = Some (Inl (BreakErr e))"
    | (finished) p' h' outputs G K where "step_sync X H host p h c = Some (Inr (None, p', h'))"
        "run E (mk (rc_forest c) (rc_stack c) (p, h)) = Some (Inr (outputs, mk G K (p', h')))" "final_stack_outputs p' = Inr outputs"
    | (resumes) c' p' h' where "step_sync X H host p h c = Some (Inr (Some c', p', h'))" "ticked p p'" "proper_context c'"
        "rc_kernel c' = rc_kernel c"
        "run E (mk (rc_forest c) (rc_stack c) (p, h)) = run E (mk (rc_forest c') (rc_stack c') (p', h'))"
proof -
  have "start_ok p (rc_forest c) (rc_stack c) (p, h)"
    using assms(2,3) by (simp add: start_ok_def stays_def proper_context_def)
  from step_returns [OF _ _ this, of E] obtain r where
    r: "fp_execute_impl (run_env X H host step_stopper (rc_kernel c)) (mk (rc_forest c) (rc_stack c) (p, h)) = Some r"
      "step_result E p (run E (mk (rc_forest c) (rc_stack c) (p, h))) r"
    using assms(1) by (auto simp: E_def run_env_step)
  then have sync: "step_sync X H host p h c = Some (resume_context_from_flow (rc_kernel c) r)"
    by (simp add: step_sync_def mk.simps)
  show thesis
  proof (cases r)
    case (Inl a)
    obtain b s where a: "a = (b, s)" by (cases a)
    show thesis
    proof (cases b)
      case (BreakErr e)
      with r(2) sync Inl a show thesis
        by (intro error) (simp_all add: step_result_def step_ok_def resume_context_from_flow_def)
    next
      case (Stopped k)
      have m: "resume k s = mk (es_forest s) (case k of Some c \<Rightarrow> c # es_stack s | None \<Rightarrow> es_stack s) (es_processor s, es_host s)"
        using mk_eta [of s] by (cases k) (simp_all add: resume_def mk.simps)
      show thesis
        by (rule resumes [of "\<lparr>rc_forest = es_forest s, rc_stack = es_stack (resume k s), rc_kernel = rc_kernel c\<rparr>" "es_processor s" "es_host s"])
          (use r(2) sync Inl a Stopped m in \<open>simp_all add: step_result_def step_ok_def resume_context_from_flow_def proper_context_def\<close>)
    qed
  next
    case (Inr a)
    obtain outputs s where a: "a = (outputs, s)" by (cases a)
    with r(2) sync Inr show thesis
      by (intro finished [of "es_processor s" "es_host s" outputs "es_forest s" "es_stack s"])
        (auto simp: step_result_def resume_context_from_flow_def mk_eta)
  qed
qed

text \<open>The result of a run, without the state of the engine.\<close>

definition run_result ::
    "break_reason + felt list \<times> ('m, 'h) exec_state \<Rightarrow> (felt list \<times> 'm fast_processor \<times> 'h) res" where
  "run_result r = (case r of
      Inl (BreakErr e) \<Rightarrow> Inl e
    | Inl (Stopped c) \<Rightarrow> Inl (Panic ''Execution never stops prematurely with NeverStopper'')
    | Inr (outputs, s) \<Rightarrow> Inr (outputs, es_processor s, es_host s))"

lemma current_stack_outputs_final: "final_stack_outputs p = Inr outputs \<Longrightarrow> current_stack_outputs p = Inr outputs"
  by (auto simp: final_stack_outputs_def current_stack_outputs_def res_bind_eq_Inr dest!: res_map_err_Inr)

lemma ticked_within:
  assumes "within_limit p" and "ticked p p'"
  shows "within_limit p' \<and> cycles_left p' < cycles_left p"
proof -
  have "unat (fp_clk p) \<le> 2 ^ 29"
    using assms(1) by (simp add: within_limit_def MAX_CYCLES_def word_le_nat_alt)
  then have "unat (fp_clk p + 1) = unat (fp_clk p) + 1"
    by (simp add: unat_word_ariths)
  then show ?thesis
    using assms by (auto simp: within_limit_def ticked_def cycles_left_def word_le_nat_alt)
qed

lemma step_loop_runs:
  fixes X :: "('m, 'q) crypto_lib"
  assumes "proper_host host" and "proper_context c" and "within_limit p"
  shows "\<exists>r. run (run_env X H host never_stopper (rc_kernel c)) (mk (rc_forest c) (rc_stack c) (p, h)) = Some r \<and>
    step_loop X H host p h c = Some (run_result r)"
  using assms(2,3)
proof (induction "cycles_left p" arbitrary: p h c rule: less_induct)
  case less
  have "fp_good p" using less.prems(2) by (simp add: within_limit_def)
  from assms(1) less.prems(1) this show ?case
  proof (cases rule: step_sync_cases [where X = X and H = H and h = h])
    case (error e)
    then show ?thesis by (subst step_loop.simps) (simp add: run_result_def)
  next
    case (finished p' h' outputs G K)
    then show ?thesis
      by (subst step_loop.simps) (simp add: run_result_def current_stack_outputs_final)
  next
    case (resumes c' p' h')
    have "within_limit p'" "cycles_left p' < cycles_left p"
      using ticked_within [OF less.prems(2) resumes(2)] by simp_all
    from less.hyps [OF this(2) resumes(3) this(1), of h'] resumes show ?thesis
      by (subst step_loop.simps) simp
  qed
qed

text \<open>Execution of a program step by step.\<close>

lemma execute_by_step_runs:
  assumes "proper_host host" and "proper_forest (mp_forest program)" and "within_limit p"
    and a: "extend_map (fp_advice p) (mf_advice_map (mp_forest program)) = Inr a"
  shows "map_option (res_map (\<lambda>(outputs, p, h). (into_execution_output p outputs, h)))
    (execute_by_step_sync X H host p program h) = execute_sync X H host p program h"
proof -
  let ?c = "\<lparr>rc_forest = mp_forest program, rc_stack = continuation_stack_new program, rc_kernel = mp_kernel program\<rparr>"
  have "proper_context ?c" "within_limit (p\<lparr>fp_advice := a\<rparr>)"
    using assms(2) goes_within [OF advice_goes [OF assms(3)]] by (simp_all add: proper_context_def proper_stack_def continuation_stack_new_def)
  from step_loop_runs [OF assms(1) this, of X H h] obtain r where
    r: "run (run_env X H host never_stopper (mp_kernel program)) (mk (mp_forest program) (continuation_stack_new program) (p\<lparr>fp_advice := a\<rparr>, h)) = Some r"
    and l: "step_loop X H host (p\<lparr>fp_advice := a\<rparr>) h ?c = Some (run_result r)"
    by auto
  have "execute_by_step_sync X H host p program h = Some (run_result r)"
    using l by (simp add: execute_by_step_sync_def get_initial_resume_context_def a)
  then show ?thesis
    using r by (auto simp: execute_sync_def a execution_result_run mk.simps run_result_def split: sum.splits break_reason.splits prod.splits)
qed

section \<open>Properties of steps\<close>

lemma sample_proper: "proper_host sample_host" "proper_forest (mp_forest sample_program)"
  by (auto simp: proper_host_def sample_host_def proper_forest_def sample_program_def sample_block_def get_node_by_id_def)

text \<open>C6. Stepping makes progress: from every well-formed processor and context to resume from, \<open>step_sync\<close> returns; and
  unless the program fails or has ended, exactly one clock cycle has passed, within the limit, and there is a
  well-formed context to resume from.\<close>

theorem step_sync_advances:
  fixes h :: 'h
  assumes "proper_host host" and "proper_context c" and "fp_good p"
  shows "\<exists>r. step_sync X H host p h c = Some r \<and>
    (\<forall>c' p' h'. r = Inr (Some c', p', h') \<longrightarrow>
       fp_clk p' = fp_clk p + 1 \<and> fp_clk p' \<le> max_cycles (fp_options p) \<and> fp_good p' \<and> proper_context c')"
  using assms
proof (cases rule: step_sync_cases [where X = X and H = H and h = h])
  case (resumes c' p' h')
  then show ?thesis by (auto simp: ticked_def)
qed simp_all

theorem step_sync_advances_witness:
  "\<exists>r. step_sync sample_lib sample_hash sample_host sample_processor ()
     \<lparr>rc_forest = mp_forest sample_program, rc_stack = [StartNode 0], rc_kernel = []\<rparr> = Some r"
  using step_sync_advances [OF sample_proper(1), of "\<lparr>rc_forest = mp_forest sample_program, rc_stack = [StartNode 0], rc_kernel = []\<rparr>"
      sample_processor sample_lib sample_hash "()"] sample_good sample_proper(2)
  by (auto simp: proper_context_def proper_stack_def)



end
