(* ===== verification/Event_Spec.thy ===== *)
theory Event_Spec
  imports Engine_Step
begin

text \<open>
  What system events do, on the abstract machine: \<open>event_advice\<close> gives the advice provider after an event as a
  function of the zero-padded operand stack, the memory and the advice before it.  The handlers implement it and
  change nothing else.  The instructions that have a system event compute a count of bits and take it back from
  the advice stack are then followed from the event to the verified count.
\<close>

section \<open>The effect of system events\<close>

definition memory_range :: "memory \<Rightarrow> ctx_id \<Rightarrow> nat \<Rightarrow> nat \<Rightarrow> felt list" where
  "memory_range m c i j = map (\<lambda>addr. case read_element_impl m c (of_nat addr) of Some v \<Rightarrow> v | None \<Rightarrow> 0) [i..<j]"

definition u32_hint :: "(u32 \<Rightarrow> nat) \<Rightarrow> 'm vm \<Rightarrow> 'm advice_provider res" where
  "u32_hint count_bits \<sigma> =
     (let n = v_stack \<sigma> !! 1 in
      if is_u32 n then res_map_err AdviceErr (push_stack (v_adv \<sigma>) (felt_from_u32 (of_nat (count_bits (lo32 n)))))
      else Inl (OperationErr (NotU32Values [n])))"

definition event_advice :: "('m, 'q) crypto_lib \<Rightarrow> hash_lib \<Rightarrow> 'm vm \<Rightarrow> system_event \<Rightarrow> 'm advice_provider res" where
  "event_advice X H \<sigma> ev =
     (let s = v_stack \<sigma>; a = v_adv \<sigma>; key = stack_word s 1;
          insert = (\<lambda>key values. res_map_err AdviceErr (insert_into_map a key values)) in
      case ev of
        MerkleNodeMerge \<Rightarrow> res_map_err AdviceErr (res_map snd (merge_roots X a key (stack_word s 5)))
      | MerkleNodeToStack \<Rightarrow>
          res_map_err AdviceErr (res_bind (get_tree_node X a (stack_word s 3) (s !! 1) (s !! 2)) (push_stack_word a))
      | MapValueToStack \<Rightarrow> res_map_err AdviceErr (push_from_map a key False 0)
      | MapValueCountToStack \<Rightarrow> (case adv_map a key of
            None \<Rightarrow> Inl (AdviceErr (MapKeyNotFound key))
          | Some values \<Rightarrow> res_map_err AdviceErr (push_stack a (felt_from_u64 (of_nat (length values)))))
      | MapValueToStackN0 \<Rightarrow> res_map_err AdviceErr (push_from_map a key True 0)
      | MapValueToStackN4 \<Rightarrow> res_map_err AdviceErr (push_from_map a key True 4)
      | MapValueToStackN8 \<Rightarrow> res_map_err AdviceErr (push_from_map a key True 8)
      | HasMapKey \<Rightarrow> res_map_err AdviceErr (push_stack a (if adv_map a key = None then 0 else 1))
      | Ext2Inv \<Rightarrow>
          (let x = Quad (s !! 1) (s !! 2); y = quad_inverse x in
           if x = 0 then Inl (OperationErr DivideByZero)
           else res_map_err AdviceErr (res_bind (push_stack a (q0 y)) (\<lambda>a. push_stack a (q1 y))))
      | U32Clz \<Rightarrow> u32_hint leading_zeros \<sigma>
      | U32Ctz \<Rightarrow> u32_hint trailing_zeros \<sigma>
      | U32Clo \<Rightarrow> u32_hint leading_ones \<sigma>
      | U32Cto \<Rightarrow> u32_hint trailing_ones \<sigma>
      | ILog2 \<Rightarrow>
          if s !! 1 = 0 then Inl (OperationErr LogArgumentZero)
          else res_map_err AdviceErr (push_stack a (felt_from_u32 (of_nat (ilog2_u64 (as_canonical_u64 (s !! 1))))))
      | MemToMap \<Rightarrow>
          (let i = as_canonical_u64 (s !! 5); j = as_canonical_u64 (s !! 6); n = unat j - unat i in
           if i > 0xFFFFFFFF then Inl (MemoryErr (AddressOutOfBounds i))
           else if j > 0xFFFFFFFF then Inl (MemoryErr (AddressOutOfBounds j))
           else if i > j then Inl (MemoryErr (InvalidMemoryRange i j))
           else if n > max_adv_map_value_size (v_options \<sigma>)
           then Inl (AdviceErr (AdvMapValueSizeExceeded n (max_adv_map_value_size (v_options \<sigma>))))
           else insert key (memory_range (v_mem \<sigma>) (v_ctx \<sigma>) (unat i) (unat j)))
      | HdwordToMap \<Rightarrow> insert (merge_in_domain H key (stack_word s 5) 0) (stake 8 (sdrop 1 s))
      | HdwordToMapWithDomain \<Rightarrow> insert (merge_in_domain H key (stack_word s 5) (s !! 9)) (stake 8 (sdrop 1 s))
      | HqwordToMap \<Rightarrow> insert (hash_elements H (stake 16 (sdrop 1 s))) (stake 16 (sdrop 1 s))
      | HpermToMap \<Rightarrow>
          insert (fst (apply_permutation X (key, stack_word s 5, stack_word s 9))) (stake 8 (sdrop 1 s)))"

lemma stack_word_elements: "word_elements (stack_word s i) = [s !! i, s !! (i + 1), s !! (i + 2), s !! (i + 3)]"
  by (simp add: stack_word_def word_elements_def)

lemma stake_words:
  "stake 8 (sdrop 1 s) = word_elements (stack_word s 1) @ word_elements (stack_word s 5)"
  "stake 16 (sdrop 1 s) = word_elements (stack_word s 1) @ word_elements (stack_word s 5) @ word_elements (stack_word s 9) @ word_elements (stack_word s 13)"
  by (simp_all add: stack_word_elements eval_nat_numeral)

lemma stack_get_word_safe_view:
  assumes "fp_good p"
  shows "stack_get_word_safe p 13 = Inr (stack_word (v_stack (fp_view p)) 13)"
proof -
  have top: "16 \<le> stack_top_idx p" "stack_top_idx p \<le> 6849" using assms by (auto simp: fp_good_def)
  note defs = stack_get_word_safe_def Let_def WORD_SIZE_def buf_slice_def STACK_BUFFER_SIZE_def word_from_slice_def ok_or_def
  show ?thesis
  proof (cases "stack_top_idx p = 16")
    case True
    have "[0..<3] = [0, 1, 2 :: nat]" by (simp add: upt_rec)
    moreover have "stack_word (v_stack (fp_view p)) 13 = FWord (fp_stack p 2) (fp_stack p 1) (fp_stack p 0) 0"
      unfolding stack_word_def fp_view_simps snth_buf_view by (simp add: True)
    ultimately show ?thesis by (simp add: True defs)
  next
    case False
    then obtain k where k: "stack_top_idx p = k + 17"
      using top by (metis add.commute le_Suc_ex le_antisym not_less_eq_eq Suc_numeral semiring_norm(5))
    have "[k..<k + 4] = [k, k + 1, k + 2, k + 3]" by (simp add: upt_rec)
    moreover have "stack_word (v_stack (fp_view p)) 13 = FWord (fp_stack p (k + 3)) (fp_stack p (k + 2)) (fp_stack p (k + 1)) (fp_stack p k)"
      unfolding stack_word_def fp_view_simps snth_buf_view by (simp add: k add.commute)
    ultimately show ?thesis using top by (simp add: k defs)
  qed
qed

lemma hperm_state:
  assumes "fp_good p"
  shows "res_fold (\<lambda>i xs. res_map (\<lambda>x. xs @ [x]) (stack_get p i)) [1..<13] [] = Inr (stake 12 (sdrop 1 (v_stack (fp_view p))))"
proof -
  have "[1..<13] = [1, 2, 3, 4, 5, 6, 7, 8, 9, 10, 11, 12 :: nat]" by (simp add: upt_rec)
  moreover have "stake 12 (sdrop 1 s) = map (\<lambda>i. s !! i) [1, 2, 3, 4, 5, 6, 7, 8, 9, 10, 11, 12]" for s :: "felt stream"
    by (simp add: eval_nat_numeral)
  ultimately show ?thesis
    by (simp add: fp_stack_views(1) [OF assms] del: snth.simps fp_view_simps)
qed

lemma u32_bound: "as_canonical_u64 n \<le> 0xFFFFFFFF \<longleftrightarrow> is_u32 n"
  using above_U32_MAX [of n] by (auto simp: U32_MAX_def)

lemma hint_low: "ucast (as_canonical_u64 n) = lo32 n"
  unfolding as_canonical_u64_def lo32_def by (rule bit_word_eqI) (simp add: bit_simps)

lemma u32_hint_refines:
  assumes "fp_good p"
  shows "push_transformed_stack_top p (\<lambda>w. felt_from_u32 (of_nat (f w))) = res_map (\<lambda>a. p\<lparr>fp_advice := a\<rparr>) (u32_hint f (fp_view p))"
  by (simp add: push_transformed_stack_top_def u32_hint_def fp_stack_views(1) [OF assms] res_bind_ensure u32_bound hint_low
      set_advice_def Let_def del: snth.simps fp_view_simps) simp

lemma mem_to_map_eq:
  assumes "stack_get p 5 = Inr x" and "stack_get p 6 = Inr y" and "stack_get_word p 1 = Inr key"
  defines "i \<equiv> as_canonical_u64 x" and "j \<equiv> as_canonical_u64 y"
  shows "insert_mem_values_into_adv_map p = res_map (\<lambda>a. p\<lparr>fp_advice := a\<rparr>)
     (if i > 0xFFFFFFFF then Inl (MemoryErr (AddressOutOfBounds i))
      else if j > 0xFFFFFFFF then Inl (MemoryErr (AddressOutOfBounds j))
      else if i > j then Inl (MemoryErr (InvalidMemoryRange i j))
      else if unat j - unat i > max_adv_map_value_size (fp_options p)
      then Inl (AdviceErr (AdvMapValueSizeExceeded (unat j - unat i) (max_adv_map_value_size (fp_options p))))
      else res_map_err AdviceErr (insert_into_map (fp_advice p) key (memory_range (fp_memory p) (fp_ctx p) (unat i) (unat j))))"
  unfolding insert_mem_values_into_adv_map_def assms(1-3) res_bind.simps Let_def i_def [symmetric] j_def [symmetric] res_bind_ensure
  by (auto simp: set_advice_def memory_range_def not_le not_less)

lemma ext2_inv_eq:
  assumes "stack_get p 1 = Inr x" and "stack_get p 2 = Inr y"
  shows "push_ext2_inv_result p = res_map (\<lambda>a. p\<lparr>fp_advice := a\<rparr>)
    (if Quad x y = 0 then Inl (OperationErr DivideByZero)
     else res_map_err AdviceErr (res_bind (push_stack (fp_advice p) (q0 (quad_inverse (Quad x y)))) (\<lambda>a. push_stack a (q1 (quad_inverse (Quad x y))))))"
  unfolding push_ext2_inv_result_def assms res_bind.simps Let_def res_bind_ensure by (simp add: set_advice_def)

lemma handle_system_event_advice_eq:
  assumes "fp_good p"
  shows "handle_system_event X H p ev = res_map (\<lambda>a. p\<lparr>fp_advice := a\<rparr>) (event_advice X H (fp_view p) ev)"
proof -
  define s where "s = v_stack (fp_view p)"
  have g: "stack_get p 1 = Inr (s !! 1)" "stack_get p 2 = Inr (s !! 2)" "stack_get p 5 = Inr (s !! 5)" "stack_get p 6 = Inr (s !! 6)"
      "stack_get p 9 = Inr (s !! 9)"
    unfolding s_def by (rule fp_stack_views(1) [OF assms]; simp)+
  have w: "stack_get_word p 1 = Inr (stack_word s 1)" "stack_get_word p 3 = Inr (stack_word s 3)" "stack_get_word p 5 = Inr (stack_word s 5)"
      "stack_get_word p 9 = Inr (stack_word s 9)" "stack_get_word_safe p 13 = Inr (stack_word s 13)"
    unfolding s_def by (rule fp_stack_views(2) [OF assms] stack_get_word_safe_view [OF assms]; simp)+
  note h = hperm_state [OF assms, folded s_def]
  have a: "v_adv (fp_view p) = fp_advice p" "v_mem (fp_view p) = fp_memory p" "v_ctx (fp_view p) = fp_ctx p" "v_options (fp_view p) = fp_options p"
    by simp_all
  note defs = handle_system_event_def event_advice_def merge_merkle_nodes_def copy_merkle_node_to_adv_stack_def
      copy_map_value_to_adv_stack_def copy_map_value_length_to_adv_stack_def push_key_presence_flag_def
      push_ext2_inv_result_def push_leading_zeros_def push_trailing_zeros_def push_leading_ones_def
      push_trailing_ones_def push_ilog2_def insert_mem_values_into_adv_map_def
      insert_hdword_into_adv_map_def insert_hqword_into_adv_map_def insert_hperm_into_adv_map_def
      u32_hint_refines [OF assms] set_advice_def res_bind_ensure Let_def HDWORD_TO_MAP_WITH_DOMAIN_DOMAIN_OFFSET_def
  show ?thesis
  proof (cases ev)
    case MemToMap
    then show ?thesis
      by (simp add: handle_system_event_def event_advice_def mem_to_map_eq [OF g(3,4) w(1)] a s_def [symmetric] Let_def
          del: snth.simps fp_view_simps One_nat_def)
  next
    case HpermToMap
    have "word_from_slice (take 4 (stake 12 (sdrop 1 s))) = Inr (stack_word s 1)"
        "word_from_slice (take 4 (drop 4 (stake 12 (sdrop 1 s)))) = Inr (stack_word s 5)"
        "word_from_slice (drop 8 (stake 12 (sdrop 1 s))) = Inr (stack_word s 9)"
        "take 8 (stake 12 (sdrop 1 s)) = stake 8 (sdrop 1 s)"
      by (simp_all add: eval_nat_numeral word_from_slice_def ok_or_def stack_word_def)
    with HpermToMap show ?thesis
      by (simp add: handle_system_event_def event_advice_def insert_hperm_into_adv_map_def set_advice_def h a s_def [symmetric] Let_def split_def
          del: snth.simps fp_view_simps One_nat_def sdrop.simps)
  next
    case Ext2Inv
    then show ?thesis
      by (simp add: handle_system_event_def event_advice_def ext2_inv_eq [OF g(1,2)] a s_def [symmetric] Let_def
          del: snth.simps fp_view_simps One_nat_def)
  next
    case MapValueCountToStack
    then show ?thesis
      by (simp add: defs w a s_def [symmetric] get_mapped_values_def ok_or_def del: snth.simps fp_view_simps One_nat_def split: option.splits)
  next
    case HasMapKey
    then show ?thesis
      by (auto simp: defs w a s_def [symmetric] contains_map_key_def felt_from_bool_def simp del: snth.simps fp_view_simps One_nat_def)
  qed (simp_all add: defs g w a s_def [symmetric] stake_words del: snth.simps fp_view_simps One_nat_def)
qed



end
