(* ===== verification/Spec2Isabelle.thy ===== *)
theory Spec2Isabelle
  imports Precompile Event_Spec
begin

text \<open>
  A verification development for the Miden virtual machine (\<open>src/miden-vm\<close>): the engine and the processor that
  execute programs, the data types they work on, and the part of the assembler that lowers instructions to
  operations.

  \<^bold>\<open>The program.\<close>  Miden assembly is lowered by \<open>crates/assembly\<close> to basic blocks of \<^emph>\<open>operations\<close> over the
  field of order \<open>2^64 - 2^32 + 1\<close>.  \<open>FastProcessor\<close> (\<open>processor/src/fast\<close>) executes them: the handlers in
  \<open>processor/src/execution/operations\<close> are generic in a processor given by traits (\<open>processor/src/processor.rs\<close>)
  for the stack, the memory, the advice provider, the hasher and the system.  A program is a node of a \<^emph>\<open>forest\<close> of
  blocks and control nodes (\<open>core/src/mast\<close>); the engine (\<open>processor/src/execution\<close>) runs it as a loop over a stack of
  continuations, and leaves the loop when the host has to serve an event or to load another forest.  Values that a program cannot
  compute itself come from the advice provider, filled by the host and by system events; precompile calls
  are logged in a transcript that the verifier replays.

  \<^bold>\<open>Theories and the code they model.\<close>
  \<^item> \<open>Goldilocks_Prime\<close>, \<open>Felt\<close>, \<open>Quad_Felt\<close>: the field and its quadratic extension.  The field type comes from
    another package; it is the integers modulo the prime, whose primality is proved.
  \<^item> \<open>Miden_Prelude\<close>: machine integers, streams, results, and the theorem collections of the development.
  \<^item> \<open>Vm_Errors\<close>: \<open>processor/src/errors.rs\<close>.  A panic of the code is the error \<open>Panic\<close>.
  \<^item> \<open>Memory\<close>: \<open>processor/src/fast/memory.rs\<close>; reads, writes and their errors.
  \<^item> \<open>Advice\<close>: \<open>processor/src/host/advice\<close>; advice stack, map, Merkle store and host mutations.
  \<^item> \<open>Program_Types\<close>: stack inputs and outputs, kernel, execution options.
  \<^item> \<open>Processor\<close>: the traits of \<open>processor/src/processor.rs\<close> as records of functions, and one locale per trait
    with the laws its callers rely on; \<open>processor_laws\<close> collects them over an abstract machine \<open>vm\<close> with an
    unbounded stack.
  \<^item> \<open>Stack_Ops\<close>, \<open>Field_Ops\<close>, \<open>U32_Ops\<close>, \<open>Io_Ops\<close>, \<open>Crypto_Ops\<close>, \<open>Fri_Ops\<close>, \<open>Ace\<close>: the handlers of
    \<open>processor/src/execution/operations\<close>, with their effect on the abstract machine proved in the locale.
  \<^item> \<open>Operation\<close>, \<open>Execute_Op\<close>: the operation set and its encoding (\<open>core/src/operations\<close>), the dispatcher
    \<open>execute_op\<close> and the instruction set \<open>isa\<close> as a function on the abstract machine.
  \<^item> \<open>Fast_Processor\<close>: the stack buffer, contexts and trait implementations of \<open>FastProcessor\<close>, its invariant
    \<open>fp_good\<close>, the abstraction \<open>fp_view\<close>, and the interpretation of \<open>processor_laws\<close>.
  \<^item> \<open>Vm_Safety\<close>: overflow, panics and stack depth over sequences of operations.
  \<^item> \<open>Precompile\<close>: \<open>core/src/precompile.rs\<close>.
  \<^item> \<open>System_Event\<close>: \<open>core/src/events\<close>.
  \<^item> \<open>Op_Batch\<close>, \<open>Batch_Validate\<close>, \<open>Batch_Commit\<close>: \<open>core/src/mast/node/basic_block_node\<close> and
    \<open>core/src/mast/serialization/basic_blocks.rs\<close>; how the operations of a block are packed into batches, the
    validation and serialised form of batches, and what their groups commit to.
  \<^item> \<open>Mast\<close>: \<open>core/src/mast/mod.rs\<close> and \<open>core/src/mast/node\<close>; nodes, forests, programs, the digests of nodes and the
    validation of untrusted forests.
  \<^item> \<open>Sys_Events\<close>, \<open>Event_Spec\<close>: \<open>processor/src/fast/basic_block/sys_event_handlers.rs\<close>, and what the handlers do to the
    advice provider, stated over the abstract machine.
  \<^item> \<open>Engine\<close>: \<open>processor/src/execution\<close> and \<open>processor/src/continuation_stack.rs\<close>; one definition per handler of a
    node or a continuation, and the loop \<open>execute_impl\<close>.  The mutable parts of \<open>ExecutionState\<close> are the record
    \<open>exec_state\<close>, the constant ones \<open>exec_env\<close>; \<open>ControlFlow\<close> is the datatype \<open>flow\<close>.
  \<^item> \<open>Engine_Api\<close>: \<open>processor/src/fast/execution_api.rs\<close>; the loop that serves breaks, whole programs and single steps.
  \<^item> \<open>Engine_Ref\<close>: the evaluator \<open>eval_node\<close>, a recursion over the nodes without continuations, and the proof that the
    engine computes it.  \<open>Engine_Term\<close>: that enough fuel exists, so that the engine returns, and what execution
    preserves.  \<open>Engine_Step\<close>: execution by single steps.
  \<^item> \<open>Asm_Base\<close>, \<open>Asm_Field\<close>, \<open>Asm_U32\<close>, \<open>Asm_Shift\<close>, \<open>Asm_Bits\<close>: \<open>crates/assembly/src/instruction\<close>.  A lowering
    function is the list of operations it appends to the block, or its error; \<open>run_stack\<close> executes operations
    that need only the stack.

  \<^bold>\<open>What is shown.\<close>  The processor refines the instruction set on every operation and every error, does not
  panic, and changes the depth as its classification says (C1, C7, C9).  The engine computes the recursive semantics
  of programs, returns for every program and every host, gives the same result when it is stepped cycle by cycle, and
  leaves contexts and stack depth as it found them (C2 to C6); calls restore the caller (C8).  System events change
  the advice provider only, as specified (C10), and are identified consistently (C32); node digests commit to code
  (C11).  Circuit evaluation, FRI folding, Horner evaluation, the stream cipher and the precompile transcript have
  their mathematical meaning (C12 to C16); memory, advice, encodings, kernels and options meet their contracts (C17
  to C27); instructions are lowered to operations that compute what the documentation says, and instructions that
  take their result from the advice provider accept only the right one (C28 to C31); basic blocks are packed into
  valid batches without loss, their groups determine what they compute, and they survive serialisation and index
  translation (C33 to C36).

  \<^bold>\<open>Parameters.\<close>  Code outside the repository is a field of the record \<open>crypto_lib\<close>, the permutation, hashing and
  Merkle operations, or of \<open>hash_lib\<close>, the hashes of nodes.  The host is a record \<open>sync_host\<close> of functions on its
  state: its calls return, and otherwise it is arbitrary, apart from the hypothesis \<open>proper_host\<close> on single steps that
  the forests it loads contain no empty block, which the builders of blocks refuse.  The encoding of a field element
  in bytes is a parameter of the operation codec, and the code registered for an error message is a parameter of the
  lowering functions.

  \<^bold>\<open>Bounds.\<close>  The loops of the engine (\<open>execute_impl\<close>, \<open>fp_execute_impl\<close>, \<open>step_loop\<close>) are partial functions to option
  types; C3 and C6 show that they return.  The evaluator has fuel, and three times the cycles left plus two is
  shown to be enough (C2).  All other loops are structural recursions.  \<open>usize\<close> and \<open>u64\<close> arithmetic is written with
  the check or the wrap-around that the source has.

  \<^bold>\<open>Not modelled.\<close>  Trace generation and AIR constraints, which have a meaning only for the external proof
  system; prover and verifier, which call it; the lexer, the generated parser, name resolution and linking;
  packages and registries; tracers, which only observe the execution, and source locations in errors; the asynchronous
  entry points, which repeat the synchronous ones with awaited host calls; merging and compacting forests; the command line; the rollup client and
  vendored protocol crates, which are network and storage code over external packages.
\<close>

section \<open>The operations of the processor\<close>



text \<open>C7. No operation other than \<open>Emit\<close>, which the dispatcher rejects by design, panics: no index leaves the
  stack buffer, no subtraction underflows and no assertion fails, whatever the operands are.\<close>

theorem fast_execute_op_no_panic:
  assumes "fp_good p" "op \<noteq> Emit"
  shows "execute_op X (fast_processor_impl X) resolve op p \<noteq> Inl (Panic msg)"
  using sim_no_panic [OF fp.execute_op_sim [OF assms(1), of X resolve op] isa_no_panic [OF assms(2)]]
  by (auto simp: panics_def)

theorem fast_execute_op_no_panic_witness:
  "execute_op sample_lib (fast_processor_impl sample_lib) (\<lambda>_. None) U32div sample_processor \<noteq> Inl (Panic ''division'')"
  by (rule fast_execute_op_no_panic [OF sample_good]) simp

text \<open>C9. The depth of the stack changes as the classification of the operation says: it grows by one, shrinks by
  one but never below sixteen, or stays.\<close>

theorem fast_execute_op_depth:
  assumes "fp_good p" "execute_op X (fast_processor_impl X) resolve op p = Inr p'" "stack_size p = Inr d"
  shows "stack_size p' = Inr (if increments_stack_size op then d + 1
     else if decrements_stack_size op then max MIN_STACK_DEPTH (d - 1) else d)"
proof -
  have "fp_good p'" "isa X resolve op (fp_view p) = Inr (fp_view p')"
    using fp.execute_op_sim [OF assms(1), of X resolve op] assms(2) by (simp_all add: sim_def)
  then have "v_depth (fp_view p') = depth_after op (v_depth (fp_view p))" using isa_depth by blast
  with \<open>fp_good p'\<close> assms(1,3) show ?thesis
    by (auto simp: stack_size_def depth_after_def fp_good_def)
qed

theorem fast_execute_op_depth_witness:
  "\<exists>p'. execute_op sample_lib (fast_processor_impl sample_lib) (\<lambda>_. None) Pad sample_processor = Inr p' \<and>
     stack_size p' = Inr 17"
proof -
  have "\<exists>p'. execute_op sample_lib (fast_processor_impl sample_lib) (\<lambda>_. None) Pad sample_processor = Inr p'"
    using fp.execute_op_sim [OF sample_good, of sample_lib "\<lambda>_. None" Pad]
      fp_overflow_condition(2) [OF sample_good, of sample_lib "\<lambda>_. None" Pad]
    by (auto simp: sim_def isa_def overflows_def sample_processor_def new_with_options_def split: sum.splits)
  moreover have "stack_size sample_processor = Inr 16"
    by (simp add: stack_size_def sample_processor_def new_with_options_def)
  ultimately show ?thesis
    using fast_execute_op_depth [OF sample_good, of sample_lib "\<lambda>_. None" Pad] by (auto simp: increments_stack_size_def)
qed

section \<open>Procedure calls\<close>

text \<open>C8. A call followed by a return in the same frame gives the caller back what it had below the sixteen
  visible elements, its depth, context and caller hash, whatever the callee did; the callee starts with exactly
  sixteen elements and zeros below.  A return with more than sixteen elements is refused.\<close>

theorem call_return_frame:
  assumes "fp_good p" "fp_save_context_and_truncate_stack p = Inr p1"
    and "fp_good p2" "call_stack p2 = call_stack p1"
  shows "stack_size p1 = Inr 16 \<and> v_stack (fp_view p1) = stake 16 (v_stack (fp_view p)) @- zeros \<and>
    (if v_depth (fp_view p2) > 16
     then fp_restore_context p2 = Inl (OperationErr (InvalidStackDepthOnReturn (v_depth (fp_view p2))))
     else \<exists>p3. fp_restore_context p2 = Inr p3 \<and> fp_good p3 \<and>
       v_stack (fp_view p3) = stake 16 (v_stack (fp_view p2)) @- sdrop 16 (v_stack (fp_view p)) \<and>
       v_depth (fp_view p3) = v_depth (fp_view p) \<and> fp_ctx p3 = fp_ctx p \<and> fp_caller_hash p3 = fp_caller_hash p \<and>
       fp_memory p3 = fp_memory p2 \<and> fp_advice p3 = fp_advice p2 \<and> v_calls (fp_view p3) = v_calls (fp_view p))"
  by (rule call_return_effect [OF assms])

theorem call_return_frame_witness:
  "\<exists>p1 p3. fp_save_context_and_truncate_stack sample_processor = Inr p1 \<and> fp_restore_context p1 = Inr p3 \<and>
     v_stack (fp_view p3) = 3 ## 4 ## zeros"
proof -
  obtain p1 where p1: "fp_save_context_and_truncate_stack sample_processor = Inr p1" "fp_good p1"
      "fp_view p1 = vsave (fp_view sample_processor)"
    using save_context_yields [OF sample_good] by (auto simp: yields_def)
  have "v_depth (fp_view p1) = 16" unfolding p1(3) by (simp add: vsave_def)
  then obtain p3 where p3: "fp_restore_context p1 = Inr p3"
      "v_stack (fp_view p3) = stake 16 (v_stack (fp_view p1)) @- sdrop 16 (v_stack (fp_view sample_processor))"
    using call_return_frame [OF sample_good p1(1,2) refl] by auto
  have "v_stack (fp_view p3) = v_stack (fp_view sample_processor)"
    unfolding p3(2) p1(3) by (simp add: vsave_def stake_shift stake_sdrop del: fp_view_simps)
  then show ?thesis using p1(1) p3(1) by (simp add: sample_view del: fp_view_simps)
qed

section \<open>Operations that compute\<close>

text \<open>C12. The circuit evaluation operation succeeds exactly when the wire counts are admissible (an even, positive
  number of inputs, a positive multiple of four gates, fewer than \<open>2 ^ 30\<close> wires), all words and gates of the
  circuit can be read and decoded, and the last wire of the circuit carries zero; it leaves the machine as it was,
  and the evaluation it records carries the wire values of the reference semantics, one wire per input and gate,
  with two reads of the wiring bus per gate.\<close>

theorem circuit_accepted:
  fixes n_vars n_eval :: felt
  assumes "fp_good p" "a = nat (Rep_felt n_vars)" "b = nat (Rep_felt n_eval)"
    and "r = eval_circuit_impl (fast_processor_impl X) c ptr clk n_vars n_eval p"
  shows "(is_ok r \<longleftrightarrow> a + b < 2 ^ 30 \<and> even a \<and> a \<noteq> 0 \<and> 4 dvd b \<and> b \<noteq> 0 \<and>
      (\<exists>vs. circuit_values (fp_memory p) c ptr a b = Inr vs \<and> last vs = 0)) \<and>
    (\<forall>ce p'. r = Inr (ce, p') \<longrightarrow> fp_view p' = fp_view p \<and>
      circuit_values (fp_memory p) c ptr a b = Inr (map fst (wires (ce_bus ce))) \<and>
      length (wires (ce_bus ce)) = a + b \<and> sum_list (map (unat \<circ> snd) (wires (ce_bus ce))) = 2 * b)"
  unfolding assms(2-4) using circuit_accepted_iff [OF assms(1), of X c ptr clk n_vars n_eval] by simp

definition sample_circuit :: "unit fast_processor" where
  "sample_circuit = sample_processor\<lparr>fp_memory := [(0, 4) \<mapsto>
     FWord (encode_gate 5 4 AceAdd) (encode_gate 5 3 AceMul) (encode_gate 4 2 AceSub) (encode_gate 1 5 AceAdd)]\<rparr>"

theorem circuit_accepted_witness:
  "is_ok (eval_circuit_impl (fast_processor_impl sample_lib) 0 0 0 2 4 sample_circuit) \<and>
   \<not> is_ok (eval_circuit_impl (fast_processor_impl sample_lib) 0 0 0 3 4 sample_circuit)"
proof -
  have good: "fp_good sample_circuit" using sample_good by (simp add: sample_circuit_def fp_good_def)
  have rd: "mem_read_element (fp_memory sample_circuit) 0 a = Inr (mem_cell (fp_memory sample_circuit) 0 x)"
    if "clean_addr a = Inr x" for a x using that by (simp add: mem.rd_el)
  have cl: "clean_addr 0 = Inr 0" "clean_addr 4 = Inr 4" "clean_addr 5 = Inr 5" "clean_addr 6 = Inr 6" "clean_addr 7 = Inr 7"
    by (simp_all add: clean_addr_eq)
  have w: "mem_read_word (fp_memory sample_circuit) 0 0 = Inr (FWord 0 0 0 0)"
    by (simp add: mem.rd_w cl mem_cell_def sample_circuit_def)
  have g: "mem_read_element (fp_memory sample_circuit) 0 4 = Inr (encode_gate 5 4 AceAdd)"
      "mem_read_element (fp_memory sample_circuit) 0 5 = Inr (encode_gate 5 3 AceMul)"
      "mem_read_element (fp_memory sample_circuit) 0 6 = Inr (encode_gate 4 2 AceSub)"
      "mem_read_element (fp_memory sample_circuit) 0 7 = Inr (encode_gate 1 5 AceAdd)"
    by (simp_all add: mem.rd_el cl mem_cell_def sample_circuit_def word_nth_def)
  have v: "gate_value 6 [0, 0] (encode_gate 5 4 AceAdd) = Inr 0" "gate_value 6 [0, 0, 0] (encode_gate 5 3 AceMul) = Inr 0"
      "gate_value 6 [0, 0, 0, 0] (encode_gate 4 2 AceSub) = Inr 0"
      "gate_value 6 [0, 0, 0, 0, 0] (encode_gate 1 5 AceAdd) = Inr 0"
    by (simp_all add: gate_value_def decode_encode_gate wire_value_def ace_apply_def)
  have four: "(4 :: nat) = Suc (Suc (Suc (Suc 0)))" by simp
  have "eval_gates (mem_read_element (fp_memory sample_circuit) 0) 6 4 4 [0, 0] = Inr [0, 0, 0, 0, 0, 0]"
    by (subst four) (simp add: g v)
  moreover have "read_vars (mem_read_word (fp_memory sample_circuit) 0) (Suc 0) 0 [] = Inr [0, 0]"
    by (simp add: w zero_quad_def)
  ultimately have "circuit_values (fp_memory sample_circuit) 0 0 2 4 = Inr [0, 0, 0, 0, 0, 0]"
    by (simp add: circuit_values_def)
  then show ?thesis
    using circuit_accepted [OF good refl refl refl, where X = sample_lib and n_vars = 2 and n_eval = 4 and c = 0 and ptr = 0]
      circuit_accepted [OF good refl refl refl, where X = sample_lib and n_vars = 3 and n_eval = 4] by simp
qed




definition sample_fri :: "unit fast_processor" where
  "sample_fri = new_with_options [0, 0, 0, 0, 0, 0, 0, 0, 0, 0, 1]
     \<lparr>inputs_stack = [], inputs_map = [], inputs_store = ()\<rparr> default_options"


text \<open>C15. The stream cipher operation succeeds only on two disjoint ranges of eight elements below the end of the
  address space; it then adds, element by element, the rate part of the state to the source range, stores the
  result in the destination range and nowhere else, and advances both pointers by eight.\<close>

theorem crypto_stream_effect:
  assumes "fp_good p" "op_crypto_stream (fast_processor_impl X) p = Inr p'"
    and "st = v_stack (fp_view p)" "src = st !! 12" "dst = st !! 13"
  shows "Rep_felt src + 8 < 2 ^ 32 \<and> Rep_felt dst + 8 < 2 ^ 32 \<and>
    (Rep_felt src + 8 \<le> Rep_felt dst \<or> Rep_felt dst + 8 \<le> Rep_felt src) \<and>
    (\<forall>i < 8. \<exists>x. mem_read_element (fp_memory p) (fp_ctx p) (src + of_nat i) = Inr x \<and>
      mem_read_element (fp_memory p') (fp_ctx p) (dst + of_nat i) = Inr (x + st !! i) \<and>
      v_stack (fp_view p') !! i = x + st !! i) \<and>
    (\<forall>d b. d \<noteq> fp_ctx p \<or> (\<forall>i < 8. b \<noteq> dst + of_nat i) \<longrightarrow>
      mem_read_element (fp_memory p') d b = mem_read_element (fp_memory p) d b) \<and>
    v_stack (fp_view p') !! 12 = src + 8 \<and> v_stack (fp_view p') !! 13 = dst + 8"
proof -
  note E = fp_isa_effects(3) [OF assms(1,2)]
  have "validate_dual_word_stream_addrs src dst (fp_ctx p) (fp_clk p) = Inr ()"
    using E unfolding isa_crypto_stream_def Let_def assms(3-5)
    by (elim res_bindE) (auto dest!: res_map_err_Inr simp del: snth.simps snth_numeral fp_view_simps(1))
  then have "Rep_felt src + 8 < 2 ^ 32 \<and> Rep_felt dst + 8 < 2 ^ 32 \<and>
      (Rep_felt src + 8 \<le> Rep_felt dst \<or> Rep_felt dst + 8 \<le> Rep_felt src)" by (simp only: validate_ok)
  moreover have "\<exists>x. mem_read_element (fp_memory p) (fp_ctx p) (src + of_nat i) = Inr x \<and>
      mem_read_element (fp_memory p') (fp_ctx p) (dst + of_nat i) = Inr (x + st !! i) \<and>
      v_stack (fp_view p') !! i = x + st !! i" if "i < 8" for i
    using crypto_stream_memory(1) [OF E that] unfolding assms(3-5) fp_view_simps(4,6) .
  ultimately show ?thesis
    using crypto_stream_memory(2-4) [OF E] unfolding assms(3-5) fp_view_simps(4,6) by simp
qed

definition sample_stream :: "unit fast_processor" where
  "sample_stream = new_with_options [5, 0, 0, 0, 0, 0, 0, 0, 0, 0, 0, 0, 0, 8]
     \<lparr>inputs_stack = [], inputs_map = [], inputs_store = ()\<rparr> default_options"

theorem crypto_stream_effect_witness:
  "\<exists>p'. op_crypto_stream (fast_processor_impl sample_lib) sample_stream = Inr p' \<and>
     mem_read_element (fp_memory p') 0 8 = Inr 5 \<and> v_stack (fp_view p') !! 13 = 16"
proof -
  have good: "fp_good sample_stream"
    and st: "v_stack (fp_view sample_stream) = [5, 0, 0, 0, 0, 0, 0, 0, 0, 0, 0, 0, 0, 8] @- zeros"
    unfolding sample_stream_def by (rule new_with_options_view, simp) (subst new_with_options_view(2), simp_all)
  have mem: "fp_memory sample_stream = memory_new" "fp_ctx sample_stream = 0" "fp_clk sample_stream = 0"
    by (simp_all add: sample_stream_def new_with_options_def)
  have nth: "v_stack (fp_view sample_stream) !! 12 = 0" "v_stack (fp_view sample_stream) !! 13 = 8"
      "v_stack (fp_view sample_stream) !! 0 = 5"
    unfolding st by (simp_all add: snth_shift)
  have "validate_dual_word_stream_addrs 0 8 0 0 = Inr ()" by (simp add: validate_ok)
  moreover have "mem_read_word memory_new 0 a = Inr EMPTY_WORD" if "a = 0 \<or> a = 4" for a
    using that by (auto simp: mem_read_word_def clean_addr_eq read_word_impl_def enforce_word_aligned_addr_def memory_new_def)
  moreover have "mem_write_word m 0 8 w = Inr (m((0, 8) \<mapsto> w))" "mem_write_word m 0 12 w = Inr (m((0, 12) \<mapsto> w))" for m w
    by (simp_all add: mem_write_word_def clean_addr_eq enforce_word_aligned_addr_def)
  ultimately obtain p' where p': "op_crypto_stream (fast_processor_impl sample_lib) sample_stream = Inr p'"
    using fp_progress [OF good, of sample_lib "\<lambda>_. None" CryptoStream]
    by (auto simp: isa_def isa_crypto_stream_def increments_stack_size_def nth mem Let_def res_bind_eq_Inr
        simp del: snth.simps snth_numeral fp_view_simps(1))
  have "mem_read_element memory_new 0 0 = Inr 0"
    by (simp add: mem.rd_el mem_cell_def clean_addr_eq memory_new_def)
  moreover from crypto_stream_effect [OF good p' refl refl refl]
  have "\<forall>i < 8. \<exists>x. mem_read_element memory_new 0 (of_nat i) = Inr x \<and>
      mem_read_element (fp_memory p') 0 (8 + of_nat i) = Inr (x + v_stack (fp_view sample_stream) !! i)"
    unfolding nth mem by auto
  from this [rule_format, of 0] have "\<exists>x. mem_read_element memory_new 0 0 = Inr x \<and>
      mem_read_element (fp_memory p') 0 8 = Inr (x + 5)" using nth(3) by simp
  moreover have "v_stack (fp_view p') !! 13 = 16"
    using crypto_stream_effect [OF good p' refl refl refl] unfolding nth by simp
  ultimately show ?thesis using p' by auto
qed

text \<open>C16. Recording a precompile call in the processor and in the transcript of the verifier agree: with the
  commitment to the call data and its tag on top of the stack, the operation moves the transcript state of the
  processor exactly as \<open>PrecompileTranscript::record\<close> moves it, and leaves the new state on the stack.\<close>

theorem log_precompile_records:
  assumes "fp_good p" "op_log_precompile (fast_processor_impl X) p = Inr p'"
  shows "transcript_from_state (pc_transcript p') =
      transcript_record X (transcript_from_state (pc_transcript p))
        \<lparr>commitment_tag = stack_word (v_stack (fp_view p)) 4, commitment_comm = stack_word (v_stack (fp_view p)) 0\<rparr> \<and>
    stack_word (v_stack (fp_view p')) 8 = pc_transcript p'"
proof -
  obtain r0 r1 cap where perm: "apply_permutation X (stack_word (v_stack (fp_view p)) 0, stack_word (v_stack (fp_view p)) 4,
      v_transcript (fp_view p)) = (r0, r1, cap)" by (metis prod_cases3)
  have v: "fp_view p' = vset_word 8 cap (vset_word 4 r1 (vset_word 0 r0 ((fp_view p)\<lparr>v_transcript := cap\<rparr>)))"
    using fp_isa_effects(5) [OF assms] perm by (simp add: isa_log_precompile_def Let_def del: fp_view_simps)
  have "v_transcript (fp_view p') = cap" unfolding v by (simp add: vset_word_def vset_def)
  moreover have "stack_word (v_stack (fp_view p')) 8 = cap"
    unfolding v stack_word_def snth_vset_word by (cases cap) (simp add: word_nth_def)
  ultimately show ?thesis
    using perm by (simp add: transcript_record_def transcript_from_state_def Let_def del: fp_view_simps(1))
qed

theorem log_precompile_records_witness:
  "\<exists>p'. op_log_precompile (fast_processor_impl sample_lib) sample_processor = Inr p' \<and> pc_transcript p' = FWord 3 4 0 0"
proof -
  obtain p' where p': "op_log_precompile (fast_processor_impl sample_lib) sample_processor = Inr p'"
    using fp_progress [OF sample_good, of sample_lib "\<lambda>_. None" LogPrecompile]
    by (cases "apply_permutation sample_lib (stack_word (v_stack (fp_view sample_processor)) 0,
           stack_word (v_stack (fp_view sample_processor)) 4, pc_transcript sample_processor)")
       (auto simp: isa_def isa_log_precompile_def increments_stack_size_def Let_def simp del: fp_view_simps(1))
  have "pc_transcript sample_processor = EMPTY_WORD" by (simp add: sample_processor_def new_with_options_def)
  then show ?thesis
    using p' log_precompile_records [OF sample_good p']
    by (simp add: sample_view sample_lib_def transcript_record_def transcript_from_state_def stack_word_def
        del: fp_view_simps(1))
qed

end
